(* ===== verification/Mgx_Prelude.thy ===== *)
theory Mgx_Prelude
  imports Main "HOL-Library.Word"
begin

text \<open>
  Shared vocabulary of the development: the machine types the sources use, the collections
  of rewrite rules that the component theories extend, and the generic facts on lists,
  words and little-endian encodings that several components need.
\<close>

unbundle bit_operations_syntax

section \<open>Machine types\<close>

text \<open>
  The code is compiled for LP64 targets (the coroutine switch is written for x86-64 and
  aarch64 only), so \<open>unsigned short\<close> is 16 bits, \<open>unsigned int\<close> 32 bits and
  \<open>size_t\<close>, \<open>uint64_t\<close>, \<open>uintptr_t\<close> 64 bits, all little-endian.
\<close>

type_synonym byte = "8 word"
type_synonym u16 = "16 word"
type_synonym u32 = "32 word"
type_synonym u64 = "64 word"
type_synonym bytes = "byte list"

section \<open>Rule collections\<close>

named_theorems mgx_defs \<open>definitions of the straight-line operations\<close>
named_theorems mgx_inv \<open>preservation of component invariants\<close>

section \<open>Lists\<close>

lemma take_append_exact [simp]: "length xs = n \<Longrightarrow> take n (xs @ ys) = xs"
  by simp

lemma drop_append_exact [simp]: "length xs = n \<Longrightarrow> drop n (xs @ ys) = ys"
  by simp

lemma foldl_snoc_concat: "foldl (\<lambda>acc x. acc @ f x) a xs = a @ concat (map f xs)"
  by (induction xs arbitrary: a) auto

lemma length_filter_partition:
  "length (filter P xs) + length (filter (\<lambda>x. \<not> P x) xs) = length xs"
  by (induction xs) auto

section \<open>Little-endian integers\<close>

text \<open>The value of a little-endian byte sequence, as the packed structs are laid out.\<close>

fun le_val :: "bytes \<Rightarrow> nat" where
  "le_val [] = 0"
| "le_val (b # bs) = unat b + 256 * le_val bs"

fun le_enc :: "nat \<Rightarrow> nat \<Rightarrow> bytes" where
  "le_enc 0 v = []"
| "le_enc (Suc n) v = word_of_nat (v mod 256) # le_enc n (v div 256)"

lemma length_le_enc [simp]: "length (le_enc n v) = n"
  by (induction n arbitrary: v) auto

lemma unat_byte_less: "unat (b :: byte) < 256"
  using unsigned_less [of b, where ?'a = nat] by simp

lemma le_val_less: "le_val bs < 256 ^ length bs"
proof (induction bs)
  case Nil
  then show ?case by simp
next
  case (Cons b bs)
  with unat_byte_less [of b] show ?case by simp
qed

lemma le_val_le_enc: "v < 256 ^ n \<Longrightarrow> le_val (le_enc n v) = v"
proof (induction n arbitrary: v)
  case 0
  then show ?case by simp
next
  case (Suc n)
  then have "v div 256 < 256 ^ n"
    by (simp add: less_mult_imp_div_less mult.commute)
  with Suc.IH show ?case
    by (simp add: unat_of_nat take_bit_eq_mod)
qed

lemma le_enc_le_val: "le_enc (length bs) (le_val bs) = bs"
proof (induction bs)
  case Nil
  then show ?case by simp
next
  case (Cons b bs)
  have "unat b < 256"
    by (rule unat_byte_less)
  with Cons show ?case by simp
qed

section \<open>Words\<close>

lemma unat_word_of_nat_id:
  "n < 2 ^ LENGTH('a::len) \<Longrightarrow> unat (word_of_nat n :: 'a word) = n"
  by (simp add: unat_of_nat)

lemma unat_sub_le: "n \<le> unat (w :: 'a::len word) \<Longrightarrow> unat (w - word_of_nat n) = unat w - n"
proof -
  assume le: "n \<le> unat w"
  then have "n < 2 ^ LENGTH('a)"
    using unsigned_less [of w, where ?'a = nat] by (rule le_less_trans)
  then have "unat (word_of_nat n :: 'a word) = n"
    by (rule unat_word_of_nat_id)
  with le show ?thesis
    by (simp add: unat_sub word_le_nat_alt)
qed

lemma word_of_nat_eq_iff_unat:
  "n < 2 ^ LENGTH('a::len) \<Longrightarrow> (word_of_nat n = (w :: 'a word)) = (n = unat w)"
  by (metis unat_word_of_nat_id of_nat_unat ucast_id)

section \<open>Computations with errors\<close>

text \<open>Sequencing of steps that return a result or stop with an error.\<close>

definition ebind :: "'e + 'a \<Rightarrow> ('a \<Rightarrow> 'e + 'b) \<Rightarrow> 'e + 'b" where
  "ebind m f = (case m of Inl e \<Rightarrow> Inl e | Inr x \<Rightarrow> f x)"

lemma ebind_simps [simp]: "ebind (Inl e) f = Inl e" "ebind (Inr x) f = f x"
  by (simp_all add: ebind_def)

lemma ebind_eq_Inr: "ebind m f = Inr y \<longleftrightarrow> (\<exists>x. m = Inr x \<and> f x = Inr y)"
  by (cases m) auto

lemma ebind_assoc: "ebind (ebind m f) g = ebind m (\<lambda>x. ebind (f x) g)"
  by (cases m) auto

text \<open>All steps succeed with a state satisfying \<open>P\<close>, or one stops with an allowed error.\<close>

definition holds_or :: "'e \<Rightarrow> ('a \<Rightarrow> bool) \<Rightarrow> 'e + 'a \<Rightarrow> bool" where
  "holds_or e P r = (case r of Inl x \<Rightarrow> x = e | Inr s \<Rightarrow> P s)"

lemma holds_or_simps [simp]: "holds_or e P (Inl x) = (x = e)" "holds_or e P (Inr s) = P s"
  by (simp_all add: holds_or_def)

lemma holds_or_ebind:
  "holds_or e P m \<Longrightarrow> (\<And>s. m = Inr s \<Longrightarrow> P s \<Longrightarrow> holds_or e Q (f s)) \<Longrightarrow> holds_or e Q (ebind m f)"
  by (cases m) auto

section \<open>Objects created on first use\<close>

text \<open>
  The contract of the \<open>get_instance\<close> functions: an object is made when there is none, and every
  later call returns that object.
\<close>

locale lazy_instance =
  fixes get :: "'a option \<Rightarrow> 'a"
    and fresh :: 'a
  assumes get_none: "get None = fresh"
    and get_some: "get (Some x) = x"
begin

lemma get_stable: "get (Some (get i)) = get i"
  by (simp add: get_some)

lemma get_first: "(\<forall>x. i = Some x \<longrightarrow> x = fresh) \<Longrightarrow> get i = fresh"
  by (cases i) (simp_all add: get_none get_some)

end

section \<open>Invariants and simulation\<close>

text \<open>A property that every step of a system keeps holds in every state that a run reaches.\<close>

locale step_invariant =
  fixes step :: "'s \<Rightarrow> 's \<Rightarrow> bool"
    and inv :: "'s \<Rightarrow> bool"
  assumes step_inv: "step s t \<Longrightarrow> inv s \<Longrightarrow> inv t"
begin

lemma run_inv: "step\<^sup>*\<^sup>* s t \<Longrightarrow> inv s \<Longrightarrow> inv t"
  by (induction rule: rtranclp_induct) (auto intro: step_inv)

end

text \<open>
  A step of the detailed system corresponds to no step or to one step of the specification; then
  so does every run. Being related to some state of the specification is an invariant.
\<close>

locale forward_simulation =
  fixes step :: "'s \<Rightarrow> 's \<Rightarrow> bool"
    and spec :: "'a \<Rightarrow> 'a \<Rightarrow> bool"
    and rel :: "'s \<Rightarrow> 'a \<Rightarrow> bool"
  assumes step_sim: "step s t \<Longrightarrow> rel s a \<Longrightarrow> rel t a \<or> (\<exists>b. spec a b \<and> rel t b)"
begin

lemma run_sim: "step\<^sup>*\<^sup>* s t \<Longrightarrow> rel s a \<Longrightarrow> \<exists>b. spec\<^sup>*\<^sup>* a b \<and> rel t b"
proof (induction rule: rtranclp_induct)
  case base
  then show ?case by blast
next
  case (step t u)
  then obtain b where "spec\<^sup>*\<^sup>* a b" "rel t b" by blast
  with step_sim [OF step(2)] show ?case by (meson rtranclp.rtrancl_into_rtrancl)
qed

end

sublocale forward_simulation \<subseteq> related: step_invariant step "\<lambda>s. \<exists>a. rel s a"
  by unfold_locales (use step_sim in blast)

end
