(* ===== verification/Mgx_Crc32.thy ===== *)
theory Mgx_Crc32
  imports Mgx_Prelude
begin

text \<open>
  \<^verbatim>\<open>src/misc/mgx_crc32.cpp\<close>: the table driven CRC-32 that protects package bodies. The
  table is built by \<open>init_crc32_table\<close> and \<open>get_crc32\<close> folds a buffer into a running
  remainder. The theory relates the table driven routine to bit-by-bit polynomial division
  and derives what the checksum detects.
\<close>

section \<open>The code\<close>

text \<open>One iteration of the inner loop of \<open>init_crc32_table\<close>.\<close>

definition crc_bit :: "u32 \<Rightarrow> u32" where
  "crc_bit c = (if c AND 1 \<noteq> 0 then 0xedb88320 XOR drop_bit 1 c else drop_bit 1 c)"

text \<open>The inner loop: \<open>for (int j = 0; j < 8; j++)\<close>.\<close>

definition crc32_entry :: "u32 \<Rightarrow> u32" where
  "crc32_entry i = (crc_bit ^^ 8) i"

text \<open>The outer loop fills \<open>crc32_table[0..255]\<close>.\<close>

definition init_crc32_table :: "u32 list" where
  "init_crc32_table = map (\<lambda>i. crc32_entry (word_of_nat i)) [0..<256]"

text \<open>
  \<open>get_crc32(buf, size, crc)\<close>. The caller's \<open>size\<close> bytes are the list; the default
  third argument is \<open>0xffffffff\<close> and there is no final complement.
\<close>

fun get_crc32_from :: "u32 list \<Rightarrow> bytes \<Rightarrow> u32 \<Rightarrow> u32" where
  "get_crc32_from tab [] crc = crc"
| "get_crc32_from tab (b # bs) crc =
     get_crc32_from tab bs (tab ! unat ((crc XOR ucast b) AND 0xff) XOR drop_bit 8 crc)"

definition get_crc32 :: "bytes \<Rightarrow> u32" where
  "get_crc32 bs = get_crc32_from init_crc32_table bs 0xffffffff"

text \<open>The table is built when the instance is first used, and is the same for every caller.\<close>

definition crc_get_instance :: "u32 list option \<Rightarrow> u32 list" where
  "crc_get_instance inst = (case inst of None \<Rightarrow> init_crc32_table | Some tab \<Rightarrow> tab)"

interpretation crc_instance: lazy_instance crc_get_instance init_crc32_table
  by unfold_locales (simp_all add: crc_get_instance_def)

lemma get_crc32_instance:
  "inst = None \<or> inst = Some init_crc32_table \<Longrightarrow>
   get_crc32_from (crc_get_instance inst) bs 0xffffffff = get_crc32 bs"
  using crc_instance.get_first [of inst] by (auto simp: get_crc32_def)

section \<open>Bit-serial reference\<close>

text \<open>
  The reference is the shift register of polynomial division over GF(2), fed with the
  message bits one at a time, least significant bit of each byte first.
\<close>

fun crc_serial :: "bool list \<Rightarrow> u32 \<Rightarrow> u32" where
  "crc_serial [] c = c"
| "crc_serial (b # bs) c = crc_serial bs (crc_bit (c XOR of_bool b))"

definition byte_bits :: "byte \<Rightarrow> bool list" where
  "byte_bits b = map (bit b) [0..<8]"

definition msg_bits :: "bytes \<Rightarrow> bool list" where
  "msg_bits bs = concat (map byte_bits bs)"

definition crc_ref :: "bytes \<Rightarrow> u32" where
  "crc_ref bs = crc_serial (msg_bits bs) 0xffffffff"

section \<open>The shift register is linear and injective\<close>

lemma crc_bit_alt: "crc_bit c = (if bit c 0 then 0xedb88320 else 0) XOR drop_bit 1 c"
  by (simp add: crc_bit_def and_one_eq bit_0 odd_iff_mod_2_eq_one)

lemma crc_bit_xor: "crc_bit (x XOR y) = crc_bit x XOR crc_bit y"
  by (auto simp: crc_bit_alt bit_xor_iff drop_bit_xor intro!: bit_word_eqI)

lemma crc_bit_zero [simp]: "crc_bit 0 = 0"
  by (simp add: crc_bit_alt)

lemma crc_bit_kernel: "crc_bit z = 0 \<Longrightarrow> z = 0"
proof -
  assume z: "crc_bit z = 0"
  have "bit (0xedb88320 :: u32) 31" by simp
  moreover have "\<not> bit (drop_bit 1 z) 31"
    using bit_imp_le_length [of z 32] by (auto simp: bit_drop_bit_eq)
  ultimately have "bit z 0 \<Longrightarrow> bit (crc_bit z) 31"
    by (simp add: crc_bit_alt bit_xor_iff)
  with z have nb: "\<not> bit z 0" by auto
  with z have d: "drop_bit 1 z = 0"
    by (simp add: crc_bit_alt)
  show "z = 0"
  proof (rule bit_word_eqI)
    fix n
    show "bit z n = bit 0 n"
      using nb d by (cases n) (auto simp: drop_bit_eq_div dest!: arg_cong [where f = "\<lambda>w. bit w (n - 1)"] simp: bit_Suc)
  qed
qed

lemma crc_bits_xor: "(crc_bit ^^ n) (x XOR y) = (crc_bit ^^ n) x XOR (crc_bit ^^ n) y"
  by (induction n) (simp_all add: crc_bit_xor)

lemma crc_bit_inj: "crc_bit x = crc_bit y \<Longrightarrow> x = y"
proof -
  assume "crc_bit x = crc_bit y"
  then have "crc_bit (x XOR y) = 0"
    by (simp add: crc_bit_xor)
  then have "x XOR y = 0" by (rule crc_bit_kernel)
  moreover have "x = (x XOR y) XOR y" by (simp add: xor.assoc)
  ultimately show ?thesis by simp
qed

lemma crc_bits_inj: "(crc_bit ^^ n) x = (crc_bit ^^ n) y \<Longrightarrow> x = y"
  by (induction n) (auto dest: crc_bit_inj)

lemma crc_bits_shift:
  "(\<And>i. i < n \<Longrightarrow> \<not> bit c i) \<Longrightarrow> (crc_bit ^^ n) c = drop_bit n c"
proof (induction n)
  case 0
  then show ?case by simp
next
  case (Suc n)
  then have "(crc_bit ^^ n) c = drop_bit n c" by simp
  moreover have "\<not> bit (drop_bit n c) 0"
    using Suc.prems [of n] by (simp add: bit_drop_bit_eq)
  ultimately show ?case
    by (simp add: crc_bit_alt [of "drop_bit n c"])
qed

section \<open>Feeding bits and bytes\<close>

abbreviation pack_bits :: "bool list \<Rightarrow> u32" where
  "pack_bits bs \<equiv> horner_sum of_bool 2 bs"

lemma crc_serial_append: "crc_serial (xs @ ys) c = crc_serial ys (crc_serial xs c)"
  by (induction xs arbitrary: c) auto

lemma crc_serial_inj: "crc_serial bs c = crc_serial bs d \<Longrightarrow> c = d"
proof (induction bs arbitrary: c d)
  case Nil
  then show ?case by simp
next
  case (Cons b bs)
  then have "crc_bit (c XOR of_bool b) = crc_bit (d XOR of_bool b)" by simp
  then have "c XOR of_bool b = d XOR of_bool b" by (rule crc_bit_inj)
  then have "(c XOR of_bool b) XOR of_bool b = (d XOR of_bool b) XOR of_bool b" by simp
  then show ?case by (simp add: xor.assoc)
qed

lemma pack_bits_snoc:
  "pack_bits (bs @ [b]) = pack_bits bs XOR push_bit (length bs) (of_bool b)"
proof -
  have "\<not> (bit (pack_bits bs) n \<and> bit (push_bit (length bs) (of_bool b) :: u32) n)" for n
    by (auto simp: bit_horner_sum_bit_word_iff bit_push_bit_iff)
  then have "pack_bits bs + push_bit (length bs) (of_bool b) =
      pack_bits bs XOR push_bit (length bs) (of_bool b)"
    by (intro disjunctive_add_eq_xor bit_word_eqI) (auto simp: bit_and_iff)
  then show ?thesis
    by (simp add: horner_sum_append push_bit_eq_mult mult.commute)
qed

text \<open>Up to 32 bits can be added to the register at once before shifting.\<close>

lemma crc_serial_pack:
  "length bs \<le> 32 \<Longrightarrow> crc_serial bs c = (crc_bit ^^ length bs) (c XOR pack_bits bs)"
proof (induction bs rule: rev_induct)
  case Nil
  then show ?case by simp
next
  case (snoc b bs)
  let ?n = "length bs" and ?x = "push_bit (length bs) (of_bool b) :: u32"
  from snoc.prems have n: "?n < 32" by simp
  have "(crc_bit ^^ ?n) ?x = drop_bit ?n ?x"
    by (rule crc_bits_shift) (simp add: bit_push_bit_iff)
  also have "\<dots> = of_bool b"
    using n by (intro bit_word_eqI) (auto simp: bit_drop_bit_eq bit_push_bit_iff bit_1_iff)
  finally have x: "(crc_bit ^^ ?n) ?x = of_bool b" .
  have "crc_serial (bs @ [b]) c = crc_bit ((crc_bit ^^ ?n) (c XOR pack_bits bs) XOR of_bool b)"
    using snoc by (simp add: crc_serial_append)
  also have "\<dots> = crc_bit ((crc_bit ^^ ?n) ((c XOR pack_bits bs) XOR ?x))"
    by (simp only: crc_bits_xor x)
  also have "\<dots> = (crc_bit ^^ length (bs @ [b])) (c XOR pack_bits (bs @ [b]))"
    by (simp only: pack_bits_snoc xor.assoc length_append_singleton funpow.simps comp_def)
  finally show ?case .
qed

lemma pack_byte_bits: "pack_bits (byte_bits b) = ucast b"
proof (rule bit_word_eqI)
  fix n :: nat
  assume "n < LENGTH(32)"
  then show "bit (pack_bits (byte_bits b)) n = bit (ucast b :: u32) n"
    using bit_imp_le_length [of b n]
    by (cases "n < 8") (auto simp: byte_bits_def bit_horner_sum_bit_word_iff bit_ucast_iff)
qed

lemma length_byte_bits [simp]: "length (byte_bits b) = 8"
  by (simp add: byte_bits_def)

lemma and_not_xor_split: "t = (t AND m) XOR (t AND NOT m)" for t m :: u32
  by (rule bit_word_eqI) (auto simp: bit_and_iff bit_xor_iff bit_not_iff)

lemma table_lookup: "init_crc32_table ! unat (t AND 0xff) = (crc_bit ^^ 8) (t AND 0xff)"
proof -
  have "t AND 0xff \<le> 0xff" by (rule word_and_le1)
  then have "unat (t AND 0xff) < 256"
    by (simp add: word_le_nat_alt)
  then show ?thesis
    by (simp add: init_crc32_table_def crc32_entry_def)
qed

lemma table_step:
  "init_crc32_table ! unat ((c XOR ucast b) AND 0xff) XOR drop_bit 8 c =
   crc_serial (byte_bits b) c"
proof -
  define t where "t = c XOR ucast (b :: byte)"
  define m :: u32 where "m = 0xff"
  have ff: "bit m n \<longleftrightarrow> n < 8" for n
    using bit_mask_iff [of 8 n, where ?'a = u32] by (auto simp: mask_eq_exp_minus_1 m_def)
  have "(crc_bit ^^ 8) (t AND NOT m) = drop_bit 8 (t AND NOT m)"
    by (rule crc_bits_shift) (simp add: bit_and_iff bit_not_iff ff)
  also have "\<dots> = drop_bit 8 c"
    by (rule bit_word_eqI)
      (auto simp: t_def bit_drop_bit_eq bit_and_iff bit_not_iff bit_xor_iff ff bit_ucast_iff
         dest: bit_imp_le_length)
  finally have high: "(crc_bit ^^ 8) (t AND NOT m) = drop_bit 8 c" .
  have "crc_serial (byte_bits b) c = (crc_bit ^^ 8) t"
    by (simp add: crc_serial_pack pack_byte_bits t_def)
  also have "\<dots> = (crc_bit ^^ 8) (t AND m) XOR (crc_bit ^^ 8) (t AND NOT m)"
    by (subst and_not_xor_split [of t m]) (rule crc_bits_xor)
  finally have "crc_serial (byte_bits b) c = (crc_bit ^^ 8) (t AND m) XOR drop_bit 8 c"
    by (simp only: high)
  then show ?thesis
    by (simp only: table_lookup t_def m_def)
qed

lemma get_crc32_serial:
  "get_crc32_from init_crc32_table bs c = crc_serial (msg_bits bs) c"
  by (induction bs arbitrary: c) (simp_all add: msg_bits_def table_step crc_serial_append)

text \<open>
  Streaming: the default argument lets a caller continue a checksum, and the remainder of a
  concatenation is the remainder of the second part started from that of the first.
\<close>

lemma get_crc32_from_append:
  "get_crc32_from tab (xs @ ys) c = get_crc32_from tab ys (get_crc32_from tab xs c)"
  by (induction xs arbitrary: c) auto

lemma pack_bits_inj:
  "length u = length v \<Longrightarrow> length u \<le> 32 \<Longrightarrow> pack_bits u = pack_bits v \<Longrightarrow> u = v"
proof (rule nth_equalityI)
  fix i
  assume len: "length u = length v" "length u \<le> 32" and eq: "pack_bits u = pack_bits v"
    and i: "i < length u"
  have "bit (pack_bits u) i = bit (pack_bits v) i" by (simp only: eq)
  with len i show "u ! i = v ! i"
    by (simp add: bit_horner_sum_bit_word_iff)
qed

lemma crc_serial_burst:
  assumes len: "length u = length v" "length u \<le> 32" and ne: "u \<noteq> v"
  shows "crc_serial (p @ u @ s) c \<noteq> crc_serial (p @ v @ s) c"
proof
  assume "crc_serial (p @ u @ s) c = crc_serial (p @ v @ s) c"
  then have "crc_serial u (crc_serial p c) = crc_serial v (crc_serial p c)"
    by (auto simp: crc_serial_append dest: crc_serial_inj)
  then have "(crc_bit ^^ length u) (crc_serial p c XOR pack_bits u) =
      (crc_bit ^^ length u) (crc_serial p c XOR pack_bits v)"
    using len by (simp add: crc_serial_pack)
  then have "crc_serial p c XOR pack_bits u = crc_serial p c XOR pack_bits v"
    by (rule crc_bits_inj)
  then have "crc_serial p c XOR (crc_serial p c XOR pack_bits u) =
      crc_serial p c XOR (crc_serial p c XOR pack_bits v)"
    by (rule arg_cong)
  then have "pack_bits u = pack_bits v"
    by (simp flip: xor.assoc)
  with len ne show False
    using pack_bits_inj [of u v] by blast
qed

section \<open>The checksum contract\<close>

text \<open>
  What the protocol layer relies on: the checksum separates two bodies of equal length that
  differ only inside a burst of at most 32 bits.
\<close>

locale burst_checksum =
  fixes sum :: "bytes \<Rightarrow> u32"
  assumes burst:
    "msg_bits x = p @ u @ s \<Longrightarrow> msg_bits y = p @ v @ s \<Longrightarrow>
     length u = length v \<Longrightarrow> length u \<le> 32 \<Longrightarrow> u \<noteq> v \<Longrightarrow> sum x \<noteq> sum y"
begin

lemma single_byte:
  assumes "a \<noteq> b"
  shows "sum (xs @ a # ys) \<noteq> sum (xs @ b # ys)"
proof (rule burst)
  show "msg_bits (xs @ a # ys) = msg_bits xs @ byte_bits a @ msg_bits ys"
    and "msg_bits (xs @ b # ys) = msg_bits xs @ byte_bits b @ msg_bits ys"
    by (simp_all add: msg_bits_def)
  show "byte_bits a \<noteq> byte_bits b"
  proof
    assume "byte_bits a = byte_bits b"
    then have "bit a n = bit b n" if "n < 8" for n
      using that by (auto simp: byte_bits_def)
    then have "a = b" by (intro bit_word_eqI) simp
    with assms show False by simp
  qed
qed simp_all

lemma window:
  assumes len: "length w = length w'" "length w \<le> 4" and ne: "msg_bits w \<noteq> msg_bits w'"
  shows "sum (xs @ w @ ys) \<noteq> sum (xs @ w' @ ys)"
proof (rule burst)
  show "msg_bits (xs @ w @ ys) = msg_bits xs @ msg_bits w @ msg_bits ys"
    and "msg_bits (xs @ w' @ ys) = msg_bits xs @ msg_bits w' @ msg_bits ys"
    by (simp_all add: msg_bits_def)
  have n: "length (msg_bits z) = 8 * length z" for z
    by (induction z) (simp_all add: msg_bits_def)
  show "length (msg_bits w) = length (msg_bits w')" and "length (msg_bits w) \<le> 32"
    using len by (simp_all add: n)
  show "msg_bits w \<noteq> msg_bits w'" by (rule ne)
qed

end

lemma get_crc32_ref: "get_crc32 bs = crc_ref bs"
  by (simp add: get_crc32_def crc_ref_def get_crc32_serial)

interpretation crc: burst_checksum get_crc32
  by unfold_locales (simp add: get_crc32_ref crc_ref_def crc_serial_burst)

section \<open>Properties\<close>

text \<open>
  C1: the table driven routine computes, for every buffer, the remainder that the bit-serial
  shift register computes: the 256-entry table and the byte-at-a-time update are an
  optimisation that changes no result.
\<close>

theorem get_crc32_equals_bit_serial: "get_crc32 bs = crc_serial (msg_bits bs) 0xffffffff"
  by (simp add: get_crc32_def get_crc32_serial)

text \<open>
  C2: error detection. If the bit strings of two bodies have equal length and differ only
  inside a window of at most 32 consecutive bits (aligned to bytes or not), their checksums
  differ, so the damage is noticed.
\<close>

theorem get_crc32_detects_burst:
  assumes "msg_bits x = p @ u @ s" and "msg_bits y = p @ v @ s"
    and "length u = length v" and "length u \<le> 32" and "u \<noteq> v"
  shows "get_crc32 x \<noteq> get_crc32 y"
  using assms by (rule crc.burst)

theorem get_crc32_detects_burst_witness: "get_crc32 [1, 2, 3] \<noteq> get_crc32 [1, 0x42, 3]"
  by (rule get_crc32_detects_burst
      [where p = "byte_bits 1" and u = "byte_bits 2" and v = "byte_bits 0x42" and s = "byte_bits 3"])
    (simp_all add: msg_bits_def, simp add: byte_bits_def upt_rec)

end
