(* ===== verification/Mgx_Socket_Data.thy ===== *)
theory Mgx_Socket_Data
  imports Mgx_Prelude
begin

text \<open>
  The data of the network layer: the wire header of \<^verbatim>\<open>src/include/mgx_comm.h\<close>, and the
  connection, message header and socket object of \<^verbatim>\<open>src/include/mgx_socket.h\<close>.

  Conventions. Pointers are 64-bit words. The connections of the pool live in the store
  \<open>conns\<close>; message buffers allocated with \<open>new char[]\<close> live in the store \<open>bufs\<close>,
  which maps a live address to the message header and the bytes that follow it. Results of
  system calls, the clock and the address returned by an allocation are arguments of the
  operations that use them. Where the C++ code would run into undefined behaviour the model
  records a \<open>fault\<close> in the state and goes on with a fixed value, so that "no new fault"
  is a safety statement about the code.
\<close>

section \<open>Wire format\<close>

definition PKG_MAX_SIZE :: nat where "PKG_MAX_SIZE = 30000"
definition PKG_HDR_START :: byte where "PKG_HDR_START = 0"
definition PKG_HDR_RECEIVING :: byte where "PKG_HDR_RECEIVING = 1"
definition PKG_BODY_START :: byte where "PKG_BODY_START = 2"
definition PKG_BODY_RECEIVING :: byte where "PKG_BODY_RECEIVING = 3"
definition PKG_HDR_BUF_SIZE :: nat where "PKG_HDR_BUF_SIZE = 20"

lemmas pkg_stat_defs = PKG_HDR_START_def PKG_HDR_RECEIVING_def PKG_BODY_START_def
  PKG_BODY_RECEIVING_def

text \<open>The packed \<open>mgx_pkg_hdr_t\<close>: 2 + 2 + 4 bytes, host (little-endian) byte order.\<close>

record mgx_pkg_hdr =
  pkg_size :: u16
  pkg_type :: u16
  crc32 :: u32

definition m_pkg_hdr_size :: nat where "m_pkg_hdr_size = 8"

text \<open>Reading the struct through a \<open>pmgx_pkg_hdr_t\<close> cast, and storing its fields.\<close>

definition load_pkg_hdr :: "bytes \<Rightarrow> mgx_pkg_hdr" where
  "load_pkg_hdr bs =
     \<lparr> pkg_size = word_of_nat (le_val (take 2 bs)),
       pkg_type = word_of_nat (le_val (take 2 (drop 2 bs))),
       crc32 = word_of_nat (le_val (take 4 (drop 4 bs))) \<rparr>"

definition store_pkg_hdr :: "mgx_pkg_hdr \<Rightarrow> bytes" where
  "store_pkg_hdr h =
     le_enc 2 (unat (pkg_size h)) @ le_enc 2 (unat (pkg_type h)) @ le_enc 4 (unat (crc32 h))"

lemma length_store_pkg_hdr [simp]: "length (store_pkg_hdr h) = m_pkg_hdr_size"
  by (simp add: store_pkg_hdr_def m_pkg_hdr_size_def)

lemma le_val_le_enc_word:
  "LENGTH('a::len) = 8 * n \<Longrightarrow> word_of_nat (le_val (le_enc n (unat (w :: 'a word)))) = w"
proof -
  assume len: "LENGTH('a) = 8 * n"
  have "unat w < 2 ^ LENGTH('a)" by simp
  then have "unat w < 256 ^ n"
    by (simp add: len power_mult)
  then show ?thesis
    by (simp add: le_val_le_enc)
qed

lemma load_store_pkg_hdr [simp]: "load_pkg_hdr (store_pkg_hdr h @ bs) = h"
  by (cases h) (simp add: load_pkg_hdr_def store_pkg_hdr_def le_val_le_enc_word)

lemma load_store_pkg_hdr_exact [simp]: "load_pkg_hdr (store_pkg_hdr h) = h"
  using load_store_pkg_hdr [of h "[]"] by simp

section \<open>Connections, messages and the socket object\<close>

type_synonym conn_ptr = u64
type_synonym addr = u64

datatype errno =
    EAGAIN | EINTR | ECONNRESET | ECONNABORTED | EMFILE | ENFILE | ENOSYS | ECHILD
  | EINPROGRESS | ETIMEDOUT | E_other int

datatype fault =
    Empty_front      \<comment> \<open>\<open>front()\<close> or \<open>*begin()\<close> of an empty container\<close>
  | Bad_free         \<comment> \<open>\<open>delete[]\<close> of an address that is not a live buffer\<close>
  | Bad_deref        \<comment> \<open>read through an address that is not a live buffer\<close>
  | Out_of_bounds    \<comment> \<open>access outside an array\<close>
  | Bad_call         \<comment> \<open>call of an empty \<open>std::function\<close>\<close>

datatype mgx_handler = H_none | H_event_accept | H_read_request | H_send_msg

text \<open>
  Where \<open>precv_buf\<close> points: into the connection's own \<open>hdr_buf\<close>, or into a message
  buffer (the offset counts from the first byte after the message header).
\<close>

datatype recv_ptr = RP_null | RP_hdr nat | RP_mem addr nat

text \<open>A listening socket; the connection object is attached when the event loop starts.\<close>

record mgx_listen_skt =
  ls_port :: int
  ls_fd :: int
  ls_pconn :: "conn_ptr option"

record mgx_conn =
  c_fd :: int
  listen_skt :: "nat option"
  c_instance :: bool
  m_cur_seq :: u64
  r_handler :: mgx_handler
  w_handler :: mgx_handler
  c_events :: u32
  conn_sockaddr :: bytes
  c_sql :: bool
  recv_stat :: byte
  hdr_buf :: bytes
  precv_buf :: recv_ptr
  rest_recv_size :: u32
  precv_mem_addr :: "addr option"
  psend_buf :: "(addr \<times> int) option"
  rest_send_size :: u32
  psend_mem_addr :: "addr option"
  throw_send_cnt :: int
  in_recy_time :: int
  last_ping_time :: int

text \<open>\<open>new mgx_conn_t()\<close> value-initialises: every field is zero.\<close>

definition new_conn :: mgx_conn where
  "new_conn =
     \<lparr> c_fd = 0, listen_skt = None, c_instance = False, m_cur_seq = 0, r_handler = H_none,
       w_handler = H_none, c_events = 0, conn_sockaddr = replicate 16 0, c_sql = False, recv_stat = 0,
       hdr_buf = replicate PKG_HDR_BUF_SIZE 0, precv_buf = RP_null, rest_recv_size = 0,
       precv_mem_addr = None, psend_buf = None, rest_send_size = 0, psend_mem_addr = None,
       throw_send_cnt = 0, in_recy_time = 0, last_ping_time = 0 \<rparr>"

text \<open>
  A message buffer: \<open>mgx_msg_hdr_t\<close> (with the two fields of the HTTP build) followed by
  its payload.
\<close>

record mgx_msg_hdr =
  mh_pconn :: conn_ptr
  mh_cur_seq :: u64
  mh_http_method :: u32
  mh_uri :: "string option"

record mgx_buf =
  buf_hdr :: mgx_msg_hdr
  buf_data :: bytes

definition m_msg_hdr_size :: "bool \<Rightarrow> nat" where
  "m_msg_hdr_size use_http = (if use_http then 32 else 16)"

definition mk_msg_hdr :: "conn_ptr \<Rightarrow> u64 \<Rightarrow> mgx_msg_hdr" where
  "mk_msg_hdr c seq = \<lparr> mh_pconn = c, mh_cur_seq = seq, mh_http_method = 0, mh_uri = None \<rparr>"

datatype epoll_act = Epoll_ctl int u32 u32 u64

record mgx_socket =
  conns :: "conn_ptr \<Rightarrow> mgx_conn"
  bufs :: "addr \<rightharpoonup> mgx_buf"
  faults :: "fault list"
  fd_closes :: "int list"
  epoll_log :: "epoll_act list"
  m_listen_cnt :: int
  m_worker_conns :: int
  m_recy_conn_wait_time :: int
  m_enabled_heartbeat :: int
  m_heart_wait_time :: int
  m_listen_skts :: "mgx_listen_skt list"
  m_epoll_fd :: int
  m_pconns_queue :: "conn_ptr list"
  m_pconns_free_queue :: "conn_ptr list"
  m_recy_conn_set :: "conn_ptr set"
  m_total_conns_cnt :: int
  m_free_conns_cnt :: int
  m_total_recy_conns_cnt :: int
  m_send_list :: "addr list"
  m_send_list_cnt :: int
  m_send_queue_sem :: nat
  m_timer_queue :: "(int \<times> mgx_msg_hdr) list"
  m_timer_que_size :: int
  m_timer_que_head_time :: int

text \<open>The constructor, with the default member initialisers of the class.\<close>

definition Mgx_socket :: mgx_socket where
  "Mgx_socket =
     \<lparr> conns = (\<lambda>_. new_conn), bufs = Map.empty, faults = [], fd_closes = [], epoll_log = [],
       m_listen_cnt = 1, m_worker_conns = 1024, m_recy_conn_wait_time = 80,
       m_enabled_heartbeat = 0, m_heart_wait_time = 0,
       m_listen_skts = [], m_epoll_fd = 0, m_pconns_queue = [], m_pconns_free_queue = [], m_recy_conn_set = {},
       m_total_conns_cnt = 0, m_free_conns_cnt = 0, m_total_recy_conns_cnt = 0,
       m_send_list = [], m_send_list_cnt = 0, m_send_queue_sem = 0,
       m_timer_queue = [], m_timer_que_size = 0, m_timer_que_head_time = 0 \<rparr>"

section \<open>Primitive state changes\<close>

definition upd_conn :: "conn_ptr \<Rightarrow> (mgx_conn \<Rightarrow> mgx_conn) \<Rightarrow> mgx_socket \<Rightarrow> mgx_socket" where
  [mgx_defs]: "upd_conn c f s = s\<lparr>conns := (conns s)(c := f (conns s c))\<rparr>"

definition raise_fault :: "fault \<Rightarrow> mgx_socket \<Rightarrow> mgx_socket" where
  [mgx_defs]: "raise_fault f s = s\<lparr>faults := f # faults s\<rparr>"

definition new_buf :: "addr \<Rightarrow> mgx_buf \<Rightarrow> mgx_socket \<Rightarrow> mgx_socket" where
  [mgx_defs]: "new_buf a b s = s\<lparr>bufs := (bufs s)(a \<mapsto> b)\<rparr>"

definition delete_buf :: "addr \<Rightarrow> mgx_socket \<Rightarrow> mgx_socket" where
  "delete_buf a s =
     (case bufs s a of None \<Rightarrow> raise_fault Bad_free s
      | Some _ \<Rightarrow> s\<lparr>bufs := (bufs s)(a := None)\<rparr>)"

definition close_fd :: "int \<Rightarrow> mgx_socket \<Rightarrow> mgx_socket" where
  [mgx_defs]: "close_fd fd s = s\<lparr>fd_closes := fd # fd_closes s\<rparr>"

text \<open>Frame facts used by every component above: these primitives touch one part of the state.\<close>

lemma upd_conn_same [simp]: "conns (upd_conn c f s) c = f (conns s c)"
  and upd_conn_other [simp]: "d \<noteq> c \<Longrightarrow> conns (upd_conn c f s) d = conns s d"
  by (simp_all add: upd_conn_def)

lemma upd_conn_frame [simp]:
  "bufs (upd_conn c f s) = bufs s" "faults (upd_conn c f s) = faults s"
  "m_send_list (upd_conn c f s) = m_send_list s"
  "m_send_list_cnt (upd_conn c f s) = m_send_list_cnt s"
  "m_send_queue_sem (upd_conn c f s) = m_send_queue_sem s"
  by (simp_all add: upd_conn_def)

lemma upd_conn_upd_conn: "upd_conn c f (upd_conn c g s) = upd_conn c (f \<circ> g) s"
  by (simp add: upd_conn_def)

end
