(* ===== verification/Mgx_Multimap.thy ===== *)
theory Mgx_Multimap
  imports Main
begin

text \<open>
  \<open>std::multimap\<close>, used by the heartbeat timer queue and by the coroutine sleep tree. A
  multimap is modelled by its iteration sequence: pairs in ascending key order, equal keys in
  insertion order. \<open>emplace\<close> inserts at the upper bound of the key, as the C++11 standard
  prescribes; \<open>begin()\<close> is the head.
\<close>

fun mm_emplace :: "'k::linorder \<Rightarrow> 'v \<Rightarrow> ('k \<times> 'v) list \<Rightarrow> ('k \<times> 'v) list" where
  "mm_emplace k v [] = [(k, v)]"
| "mm_emplace k v ((k', v') # m) =
     (if k < k' then (k, v) # (k', v') # m else (k', v') # mm_emplace k v m)"

text \<open>Erasing the first entry that satisfies a test: the loop of a linear search with \<open>break\<close>.\<close>

fun mm_erase_first :: "('v \<Rightarrow> bool) \<Rightarrow> ('k \<times> 'v) list \<Rightarrow> ('k \<times> 'v) list" where
  "mm_erase_first P [] = []"
| "mm_erase_first P (e # m) = (if P (snd e) then m else e # mm_erase_first P m)"

abbreviation mm_sorted :: "('k::linorder \<times> 'v) list \<Rightarrow> bool" where
  "mm_sorted m \<equiv> sorted (map fst m)"

lemma set_mm_emplace [simp]: "set (mm_emplace k v m) = insert (k, v) (set m)"
  by (induction m rule: mm_emplace.induct) auto

lemma length_mm_emplace [simp]: "length (mm_emplace k v m) = Suc (length m)"
  by (induction m) auto

lemma mm_emplace_not_Nil [simp]: "mm_emplace k v m \<noteq> []"
  using length_mm_emplace [of k v m] by fastforce

lemma mm_sorted_emplace: "mm_sorted m \<Longrightarrow> mm_sorted (mm_emplace k v m)"
  by (induction k v m rule: mm_emplace.induct) (auto simp: image_iff)

lemma mm_emplace_last: "\<forall>e \<in> set m. fst e \<le> k \<Longrightarrow> mm_emplace k v m = m @ [(k, v)]"
  by (induction m) auto

lemma mm_emplace_append:
  "\<forall>e \<in> set xs. fst e \<le> k \<Longrightarrow> mm_emplace k v (xs @ ys) = xs @ mm_emplace k v ys"
  by (induction xs) auto

lemma set_mm_erase_first: "set (mm_erase_first P m) \<subseteq> set m"
  by (induction m) auto

lemma mm_sorted_erase_first: "mm_sorted m \<Longrightarrow> mm_sorted (mm_erase_first P m)"
  by (induction m) (use set_mm_erase_first in fastforce)+

lemma mm_erase_first_id: "\<not> (\<exists>e \<in> set m. P (snd e)) \<Longrightarrow> mm_erase_first P m = m"
  by (induction m) auto

lemma length_mm_erase_first:
  "length (mm_erase_first P m) = (if \<exists>e \<in> set m. P (snd e) then length m - 1 else length m)"
proof (induction m)
  case Nil
  then show ?case by simp
next
  case (Cons e m)
  then show ?case by (cases m) auto
qed

section \<open>The interface of an ordered timer container\<close>

text \<open>
  The clients use a multimap as a priority queue: insert with a due time, look at the
  earliest entry, remove it. The contract is stated over the multiset-like content (a set of
  entries and a size) so that a client never depends on the tree behind it.
\<close>

locale timer_container =
  fixes emplace :: "'k::linorder \<Rightarrow> 'v \<Rightarrow> 'm \<Rightarrow> 'm"
    and entries :: "'m \<Rightarrow> ('k \<times> 'v) list"
    and ok :: "'m \<Rightarrow> bool"
  assumes ok_emplace: "ok m \<Longrightarrow> ok (emplace k v m)"
    and entries_emplace: "ok m \<Longrightarrow> set (entries (emplace k v m)) = insert (k, v) (set (entries m))"
    and size_emplace: "ok m \<Longrightarrow> length (entries (emplace k v m)) = Suc (length (entries m))"
    and earliest: "ok m \<Longrightarrow> entries m = e # es \<Longrightarrow> x \<in> set (entries m) \<Longrightarrow> fst e \<le> fst x"
begin

lemma emplace_all:
  "ok m \<Longrightarrow> ok (foldl (\<lambda>m (k, v). emplace k v m) m kvs) \<and>
    set (entries (foldl (\<lambda>m (k, v). emplace k v m) m kvs)) = set kvs \<union> set (entries m) \<and>
    length (entries (foldl (\<lambda>m (k, v). emplace k v m) m kvs)) = length kvs + length (entries m)"
proof (induction kvs arbitrary: m)
  case Nil
  then show ?case by simp
next
  case (Cons kv kvs)
  then show ?case
    by (cases kv) (simp add: ok_emplace entries_emplace size_emplace)
qed

lemma earliest_after_emplace:
  assumes "ok m" and "entries (emplace k v m) = e # es"
  shows "fst e \<le> k" and "\<forall>x \<in> set (entries m). fst e \<le> fst x"
  using earliest [OF ok_emplace [OF assms(1)] assms(2)] assms(1)
  by (force simp: entries_emplace)+

end

interpretation mm: timer_container mm_emplace "\<lambda>m. m" mm_sorted
  by unfold_locales (auto intro: mm_sorted_emplace)

end
