(* ===== verification/Mgx_Timer.thy ===== *)
theory Mgx_Timer
  imports Mgx_Socket_Data Mgx_Multimap
begin

text \<open>
  \<^verbatim>\<open>src/net/mgx_socket_time.cpp\<close>: the heartbeat timer queue. Every accepted connection has
  one timer; when timers fall due the monitor thread takes them out, re-arms each of them and
  looks at the connection's last ping. This theory holds the queue operations; the body of
  the monitor thread, which recycles connections, is in the theory of the heartbeat.
\<close>

section \<open>Operations\<close>

definition get_earliest_time :: "mgx_socket \<Rightarrow> int \<times> mgx_socket" where
  "get_earliest_time s =
     (case m_timer_queue s of [] \<Rightarrow> (0, raise_fault Empty_front s) | e # _ \<Rightarrow> (fst e, s))"

definition set_head_time :: "mgx_socket \<Rightarrow> mgx_socket" where
  "set_head_time s = (let (t, s') = get_earliest_time s in s'\<lparr>m_timer_que_head_time := t\<rparr>)"

definition add_to_timer_queue :: "int \<Rightarrow> conn_ptr \<Rightarrow> mgx_socket \<Rightarrow> mgx_socket" where
  "add_to_timer_queue now c s =
     (let time_out = now + m_heart_wait_time s;
          hdr = mk_msg_hdr c (m_cur_seq (conns s c))
      in set_head_time
           (s\<lparr>m_timer_queue := mm_emplace time_out hdr (m_timer_queue s),
              m_timer_que_size := m_timer_que_size s + 1\<rparr>))"

definition delete_from_timer_queue :: "conn_ptr \<Rightarrow> mgx_socket \<Rightarrow> mgx_socket" where
  "delete_from_timer_queue c s =
     (let found = (\<exists>e \<in> set (m_timer_queue s). mh_pconn (snd e) = c);
          s1 = (if found
                then s\<lparr>m_timer_queue := mm_erase_first (\<lambda>h. mh_pconn h = c) (m_timer_queue s),
                       m_timer_que_size := m_timer_que_size s - 1\<rparr>
                else s)
      in if m_timer_que_size s1 > 0 then set_head_time s1 else s1)"

definition get_over_time_timer ::
  "int \<Rightarrow> mgx_socket \<Rightarrow> mgx_msg_hdr option \<times> mgx_socket" where
  "get_over_time_timer cur_time s =
     (if m_timer_que_size s = 0 then (None, s)
      else (let (t, s0) = get_earliest_time s
            in if cur_time < t then (None, s0)
               else (case m_timer_queue s0 of
                       [] \<Rightarrow> (None, s0)
                     | (_, old) # q \<Rightarrow>
                         (let new = mk_msg_hdr (mh_pconn old) (mh_cur_seq old);
                              s1 = s0\<lparr>m_timer_queue :=
                                        mm_emplace (cur_time + m_heart_wait_time s0) new q,
                                      m_timer_que_size := m_timer_que_size s0 - 1 + 1\<rparr>
                          in (Some old, set_head_time s1)))))"

text \<open>
  The loop \<open>while ((pmsg_hdr = get_over_time_timer(cur_time))) que.push(pmsg_hdr)\<close>. Nothing
  in it bounds the number of rounds, so it is a partial function: \<open>None\<close> is "never returns".
\<close>

partial_function (option) drain_over_time ::
  "int \<Rightarrow> mgx_socket \<Rightarrow> (mgx_msg_hdr list \<times> mgx_socket) option" where
  "drain_over_time cur_time s =
     (case get_over_time_timer cur_time s of
        (None, s') \<Rightarrow> Some ([], s')
      | (Some h, s') \<Rightarrow>
          Option.bind (drain_over_time cur_time s') (\<lambda>(hs, s''). Some (h # hs, s'')))"

section \<open>Invariant\<close>

definition timer_inv :: "mgx_socket \<Rightarrow> bool" where
  "timer_inv s \<longleftrightarrow>
     mm_sorted (m_timer_queue s) \<and>
     m_timer_que_size s = int (length (m_timer_queue s)) \<and>
     (m_timer_queue s \<noteq> [] \<longrightarrow> m_timer_que_head_time s = fst (hd (m_timer_queue s)))"

lemma set_head_time_nonempty:
  "m_timer_queue s \<noteq> [] \<Longrightarrow> set_head_time s = s\<lparr>m_timer_que_head_time := fst (hd (m_timer_queue s))\<rparr>"
  by (cases "m_timer_queue s") (auto simp: set_head_time_def get_earliest_time_def)

lemma add_to_timer_queue_eq:
  "add_to_timer_queue now c s =
     (let q = mm_emplace (now + m_heart_wait_time s)
                (mk_msg_hdr c (m_cur_seq (conns s c))) (m_timer_queue s)
      in s\<lparr>m_timer_queue := q, m_timer_que_size := m_timer_que_size s + 1,
           m_timer_que_head_time := fst (hd q)\<rparr>)"
  by (simp add: add_to_timer_queue_def Let_def set_head_time_nonempty)

lemma timer_inv_add [mgx_inv]: "timer_inv s \<Longrightarrow> timer_inv (add_to_timer_queue now c s)"
  by (simp add: timer_inv_def add_to_timer_queue_eq Let_def mm.ok_emplace)

lemma delete_from_timer_queue_eq:
  assumes "timer_inv s"
  shows "delete_from_timer_queue c s =
     (let q = mm_erase_first (\<lambda>h. mh_pconn h = c) (m_timer_queue s)
      in s\<lparr>m_timer_queue := q, m_timer_que_size := int (length q),
           m_timer_que_head_time :=
             (if q = [] then m_timer_que_head_time s else fst (hd q))\<rparr>)"
proof (cases "\<exists>e \<in> set (m_timer_queue s). mh_pconn (snd e) = c")
  case True
  define q where "q = mm_erase_first (\<lambda>h. mh_pconn h = c) (m_timer_queue s)"
  have "length q = length (m_timer_queue s) - 1"
    using True by (simp add: length_mm_erase_first q_def)
  moreover have "0 < length (m_timer_queue s)"
    using True by (cases "m_timer_queue s") simp_all
  ultimately have len: "m_timer_que_size s - 1 = int (length q)"
    using assms unfolding timer_inv_def by linarith
  show ?thesis
    using True by (cases "q = []")
      (simp_all add: delete_from_timer_queue_def Let_def len set_head_time_nonempty flip: q_def)
next
  case False
  then have same: "mm_erase_first (\<lambda>h. mh_pconn h = c) (m_timer_queue s) = m_timer_queue s"
    by (rule mm_erase_first_id)
  have size: "m_timer_que_size s = int (length (m_timer_queue s))"
    using assms by (simp add: timer_inv_def)
  show ?thesis
    by (rule mgx_socket.equality)
      (use assms False in \<open>simp_all add: delete_from_timer_queue_def Let_def same size
          set_head_time_nonempty timer_inv_def\<close>)
qed

lemma timer_inv_delete [mgx_inv]: "timer_inv s \<Longrightarrow> timer_inv (delete_from_timer_queue c s)"
  by (simp add: delete_from_timer_queue_eq Let_def)
    (simp add: timer_inv_def mm_sorted_erase_first)

section \<open>Expiry\<close>

definition due :: "int \<Rightarrow> (int \<times> mgx_msg_hdr) list \<Rightarrow> (int \<times> mgx_msg_hdr) list" where
  "due t q = takeWhile (\<lambda>e. fst e \<le> t) q"

definition not_due :: "int \<Rightarrow> (int \<times> mgx_msg_hdr) list \<Rightarrow> (int \<times> mgx_msg_hdr) list" where
  "not_due t q = dropWhile (\<lambda>e. fst e \<le> t) q"

text \<open>Re-arming: a fresh header for the same connection and sequence number.\<close>

definition rearm :: "mgx_msg_hdr \<Rightarrow> mgx_msg_hdr" where
  "rearm h = mk_msg_hdr (mh_pconn h) (mh_cur_seq h)"

lemma get_over_time_timer_none:
  assumes "timer_inv s" and "due t (m_timer_queue s) = []"
  shows "get_over_time_timer t s = (None, s)"
proof (cases "m_timer_queue s")
  case Nil
  with assms show ?thesis by (simp add: get_over_time_timer_def timer_inv_def)
next
  case (Cons e q)
  with assms have "t < fst e" by (auto simp: due_def split: if_splits)
  with assms Cons show ?thesis
    by (simp add: get_over_time_timer_def get_earliest_time_def timer_inv_def)
qed

lemma get_over_time_timer_some:
  assumes "timer_inv s" and "m_timer_queue s = e # q" and "fst e \<le> t"
  shows "get_over_time_timer t s =
     (let q' = mm_emplace (t + m_heart_wait_time s) (rearm (snd e)) q
      in (Some (snd e), s\<lparr>m_timer_queue := q', m_timer_que_head_time := fst (hd q')\<rparr>))"
proof -
  have "m_timer_que_size s \<noteq> 0"
    using assms by (simp add: timer_inv_def)
  with assms show ?thesis
    by (cases e) (simp add: get_over_time_timer_def get_earliest_time_def Let_def
        set_head_time_nonempty rearm_def)
qed

text \<open>
  The queue after the drain: the timers not yet due, with every due timer re-armed behind
  them at \<open>cur_time + m_heart_wait_time\<close>.
\<close>

definition rearm_all ::
  "int \<Rightarrow> (int \<times> mgx_msg_hdr) list \<Rightarrow> (int \<times> mgx_msg_hdr) list \<Rightarrow> (int \<times> mgx_msg_hdr) list" where
  "rearm_all k ds q = foldl (\<lambda>m e. mm_emplace k (rearm (snd e)) m) q ds"

lemma timer_inv_pop:
  assumes "timer_inv s" and "m_timer_queue s = e # q"
  shows "timer_inv (s\<lparr>m_timer_queue := mm_emplace k h q,
            m_timer_que_head_time := fst (hd (mm_emplace k h q))\<rparr>)"
  using assms by (simp add: timer_inv_def mm.ok_emplace)

lemma drain_over_time_eq:
  assumes "timer_inv s" and "0 < m_heart_wait_time s"
    and "m_timer_queue s = ds @ q" and "\<forall>e \<in> set ds. fst e \<le> t" and "\<forall>e \<in> set q. t < fst e"
  shows "\<exists>s'. drain_over_time t s = Some (map snd ds, s') \<and> timer_inv s' \<and>
     m_timer_queue s' = rearm_all (t + m_heart_wait_time s) ds q \<and>
     s' = s\<lparr>m_timer_queue := m_timer_queue s',
            m_timer_que_head_time := m_timer_que_head_time s'\<rparr>"
  using assms
proof (induction ds arbitrary: s q)
  case Nil
  then have "due t (m_timer_queue s) = []"
    by (cases q) (auto simp: due_def)
  with Nil have "get_over_time_timer t s = (None, s)"
    by (simp add: get_over_time_timer_none)
  with Nil show ?case
    by (simp add: drain_over_time.simps [of t s] rearm_all_def)
next
  case (Cons d ds)
  define k where "k = t + m_heart_wait_time s"
  define q' where "q' = mm_emplace k (rearm (snd d)) q"
  define s1 where "s1 = s\<lparr>m_timer_queue := ds @ q', m_timer_que_head_time := fst (hd (ds @ q'))\<rparr>"
  have tk: "t < k" using Cons.prems by (simp add: k_def)
  have emp: "mm_emplace k (rearm (snd d)) (ds @ q) = ds @ q'"
    unfolding q'_def by (rule mm_emplace_append) (use Cons.prems tk in auto)
  have step: "get_over_time_timer t s = (Some (snd d), s1)"
    using get_over_time_timer_some [of s d "ds @ q" t] Cons.prems
    by (simp add: Let_def s1_def emp flip: k_def)
  have "timer_inv s1"
    using timer_inv_pop [of s d "ds @ q" k "rearm (snd d)"] Cons.prems by (simp add: emp s1_def)
  moreover have "\<forall>e \<in> set q'. t < fst e"
    using Cons.prems tk by (simp add: q'_def)
  ultimately obtain s' where s': "drain_over_time t s1 = Some (map snd ds, s')" "timer_inv s'"
      "m_timer_queue s' = rearm_all k ds q'"
      "s' = s1\<lparr>m_timer_queue := m_timer_queue s', m_timer_que_head_time := m_timer_que_head_time s'\<rparr>"
    using Cons.IH [of s1 q'] Cons.prems by (auto simp: s1_def k_def)
  have "drain_over_time t s = Some (map snd (d # ds), s')"
    using step s'(1) by (simp add: drain_over_time.simps [of t s])
  moreover have "m_timer_queue s' = rearm_all k (d # ds) q"
    using s'(3) by (simp add: rearm_all_def q'_def)
  moreover have "s' = s\<lparr>m_timer_queue := m_timer_queue s', m_timer_que_head_time := m_timer_que_head_time s'\<rparr>"
    using s'(4) by (simp add: s1_def)
  ultimately show ?case using s'(2) by (auto simp: k_def)
qed

lemma due_split:
  assumes "mm_sorted q"
  shows "q = due t q @ not_due t q" and "\<forall>e \<in> set (due t q). fst e \<le> t"
    and "\<forall>e \<in> set (not_due t q). t < fst e"
proof -
  show "q = due t q @ not_due t q" by (simp add: due_def not_due_def)
  show "\<forall>e \<in> set (due t q). fst e \<le> t" by (auto simp: due_def dest: set_takeWhileD)
  show "\<forall>e \<in> set (not_due t q). t < fst e"
    using assms by (induction q) (auto simp: not_due_def)
qed

end
