(* ===== verification/Mgx_Conn.thy ===== *)
theory Mgx_Conn
  imports Mgx_Timer
begin

text \<open>
  \<^verbatim>\<open>src/net/mgx_socket_conn.cpp\<close>: the connection pool. A connection object is free, in use,
  or waiting for delayed recovery; \<open>get_conn\<close> hands one out, \<open>close_conn\<close> returns it at
  once, \<open>insert_recy_conn_queue\<close> parks it and the recovery thread frees it after
  \<open>m_recy_conn_wait_time\<close> seconds. Each change of ownership bumps the connection's sequence
  number, which is how messages that outlive their connection are recognised.
\<close>

section \<open>Operations\<close>

definition get_one_to_use :: "int \<Rightarrow> mgx_conn \<Rightarrow> mgx_conn" where
  "get_one_to_use now c =
     c\<lparr> m_cur_seq := m_cur_seq c + 1, recv_stat := PKG_HDR_START, precv_buf := RP_hdr 0,
        rest_recv_size := word_of_nat m_pkg_hdr_size, precv_mem_addr := None,
        psend_mem_addr := None, throw_send_cnt := 0, last_ping_time := now \<rparr>"

definition delete_opt :: "addr option \<Rightarrow> mgx_socket \<Rightarrow> mgx_socket" where
  "delete_opt a s = (case a of None \<Rightarrow> s | Some x \<Rightarrow> delete_buf x s)"

definition put_one_to_free :: "conn_ptr \<Rightarrow> mgx_socket \<Rightarrow> mgx_socket" where
  "put_one_to_free p s =
     (let c = conns s p;
          s1 = delete_opt (psend_mem_addr c) (delete_opt (precv_mem_addr c) s)
      in upd_conn p (\<lambda>c. c\<lparr> m_cur_seq := m_cur_seq c + 1, c_fd := -1,
                            precv_mem_addr := None, psend_mem_addr := None \<rparr>) s1)"

text \<open>One round of the loop of \<open>conn_pool_init\<close>; the pair is the new object and the time.\<close>

definition pool_add :: "mgx_socket \<Rightarrow> conn_ptr \<times> int \<Rightarrow> mgx_socket" where
  "pool_add s pt =
     (let (p, now) = pt
      in s\<lparr> conns := (conns s)(p := get_one_to_use now (new_conn\<lparr>c_sql := True\<rparr>)),
            m_pconns_queue := m_pconns_queue s @ [p],
            m_pconns_free_queue := m_pconns_free_queue s @ [p] \<rparr>)"

definition conn_pool_init :: "(conn_ptr \<times> int) list \<Rightarrow> mgx_socket \<Rightarrow> mgx_socket" where
  "conn_pool_init allocs s =
     (foldl pool_add s (take (nat (m_worker_conns s)) allocs))
       \<lparr> m_free_conns_cnt := m_worker_conns s, m_total_conns_cnt := m_worker_conns s \<rparr>"

definition get_conn :: "int \<Rightarrow> conn_ptr \<Rightarrow> int \<Rightarrow> mgx_socket \<Rightarrow> conn_ptr \<times> mgx_socket" where
  "get_conn now newp sock_fd s =
     (if m_free_conns_cnt s > 0
      then (case m_pconns_free_queue s of
              [] \<Rightarrow> (0, raise_fault Empty_front s)
            | p # q \<Rightarrow>
                (p, s\<lparr> m_pconns_free_queue := q, m_free_conns_cnt := m_free_conns_cnt s - 1,
                       conns := (conns s)(p := (get_one_to_use now (conns s p))
                         \<lparr> c_fd := sock_fd, c_instance := \<not> c_instance (conns s p) \<rparr>) \<rparr>))
      else (newp, s\<lparr> conns := (conns s)(newp := (get_one_to_use now new_conn)\<lparr> c_fd := sock_fd \<rparr>),
                     m_pconns_queue := m_pconns_queue s @ [newp],
                     m_total_conns_cnt := m_total_conns_cnt s + 1 \<rparr>))"

definition conn_pool_destroy :: "mgx_socket \<Rightarrow> mgx_socket" where
  "conn_pool_destroy s = s\<lparr> m_pconns_queue := [], m_pconns_free_queue := [] \<rparr>"

definition free_conn :: "conn_ptr \<Rightarrow> mgx_socket \<Rightarrow> mgx_socket" where
  "free_conn p s =
     (let s1 = put_one_to_free p s
      in s1\<lparr> m_pconns_free_queue := m_pconns_free_queue s1 @ [p],
             m_free_conns_cnt := m_free_conns_cnt s1 + 1 \<rparr>)"

text \<open>
  Removing the timer and closing the descriptor come before the lock is taken; here they are one step
  with the locked section.
\<close>

definition insert_recy_conn_queue :: "int \<Rightarrow> conn_ptr \<Rightarrow> mgx_socket \<Rightarrow> mgx_socket" where
  "insert_recy_conn_queue now p s =
     (let s1 = (if m_enabled_heartbeat s \<noteq> 0 then delete_from_timer_queue p s else s);
          s2 = close_fd (c_fd (conns s1 p)) s1
      in if p \<in> m_recy_conn_set s2 then s2
         else (upd_conn p (\<lambda>c. c\<lparr> in_recy_time := now, m_cur_seq := m_cur_seq c + 1 \<rparr>) s2)
                \<lparr> m_recy_conn_set := insert p (m_recy_conn_set s2),
                  m_total_recy_conns_cnt := m_total_recy_conns_cnt s2 + 1 \<rparr>)"

definition close_conn :: "conn_ptr \<Rightarrow> mgx_socket \<Rightarrow> mgx_socket" where
  "close_conn p s = free_conn p (close_fd (c_fd (conns s p)) s)"

text \<open>
  The recovery thread. \<open>recy_expired\<close> is the test on the clock, \<open>recy_one\<close> the locked
  section. The inner \<open>while\<close> advances the iterator only when it erases, so for an entry that
  has not expired it reads the clock again: \<open>clock k\<close> is the value of the \<open>k\<close>-th call of
  \<open>time\<close>. The iteration order of the unordered set is the list argument.
\<close>

definition recy_expired :: "int \<Rightarrow> conn_ptr \<Rightarrow> mgx_socket \<Rightarrow> bool" where
  "recy_expired now p s \<longleftrightarrow> now \<ge> in_recy_time (conns s p) + m_recy_conn_wait_time s"

definition recy_one :: "conn_ptr \<Rightarrow> mgx_socket \<Rightarrow> mgx_socket" where
  "recy_one p s =
     free_conn p (s\<lparr> m_total_recy_conns_cnt := m_total_recy_conns_cnt s - 1,
                     m_recy_conn_set := m_recy_conn_set s - {p} \<rparr>)"

partial_function (option) recy_loop ::
  "(nat \<Rightarrow> int) \<Rightarrow> nat \<Rightarrow> conn_ptr list \<Rightarrow> mgx_socket \<Rightarrow> (nat \<times> mgx_socket) option" where
  "recy_loop clock k order s =
     (case order of
        [] \<Rightarrow> Some (k, s)
      | p # ps \<Rightarrow>
          if recy_expired (clock k) p s then recy_loop clock (Suc k) ps (recy_one p s)
          else recy_loop clock (Suc k) order s)"

definition recy_conn_th_round ::
  "(nat \<Rightarrow> int) \<Rightarrow> nat \<Rightarrow> conn_ptr list \<Rightarrow> mgx_socket \<Rightarrow> (nat \<times> mgx_socket) option" where
  "recy_conn_th_round clock k order s =
     (if m_total_recy_conns_cnt s > 0 then recy_loop clock k order s else Some (k, s))"

section \<open>Frames\<close>

text \<open>The part of the state that the pool operations own, as one tuple.\<close>

definition pool_view :: "mgx_socket \<Rightarrow>
    conn_ptr list \<times> conn_ptr list \<times> conn_ptr set \<times> int \<times> int \<times> int" where
  "pool_view s = (m_pconns_queue s, m_pconns_free_queue s, m_recy_conn_set s,
     m_total_conns_cnt s, m_free_conns_cnt s, m_total_recy_conns_cnt s)"

lemma delete_buf_frame [simp]:
  "conns (delete_buf a s) = conns s" "pool_view (delete_buf a s) = pool_view s"
  "m_recy_conn_wait_time (delete_buf a s) = m_recy_conn_wait_time s"
  "m_pconns_queue (delete_buf a s) = m_pconns_queue s"
  "m_pconns_free_queue (delete_buf a s) = m_pconns_free_queue s"
  "m_recy_conn_set (delete_buf a s) = m_recy_conn_set s"
  "m_total_conns_cnt (delete_buf a s) = m_total_conns_cnt s"
  "m_free_conns_cnt (delete_buf a s) = m_free_conns_cnt s"
  "m_total_recy_conns_cnt (delete_buf a s) = m_total_recy_conns_cnt s"
  by (simp_all add: delete_buf_def raise_fault_def pool_view_def split: option.split)

lemma delete_opt_frame [simp]:
  "conns (delete_opt a s) = conns s"
  "m_recy_conn_wait_time (delete_opt a s) = m_recy_conn_wait_time s"
  "m_pconns_queue (delete_opt a s) = m_pconns_queue s"
  "m_pconns_free_queue (delete_opt a s) = m_pconns_free_queue s"
  "m_recy_conn_set (delete_opt a s) = m_recy_conn_set s"
  "m_total_conns_cnt (delete_opt a s) = m_total_conns_cnt s"
  "m_free_conns_cnt (delete_opt a s) = m_free_conns_cnt s"
  "m_total_recy_conns_cnt (delete_opt a s) = m_total_recy_conns_cnt s"
  by (simp_all add: delete_opt_def split: option.split)

lemma set_head_time_frame [simp]:
  "conns (set_head_time s) = conns s" "pool_view (set_head_time s) = pool_view s"
  "m_recy_conn_wait_time (set_head_time s) = m_recy_conn_wait_time s"
  by (simp_all add: set_head_time_def get_earliest_time_def raise_fault_def pool_view_def
      split: list.split)

lemma delete_from_timer_queue_frame [simp]:
  "conns (delete_from_timer_queue c s) = conns s"
  "pool_view (delete_from_timer_queue c s) = pool_view s"
  "m_recy_conn_wait_time (delete_from_timer_queue c s) = m_recy_conn_wait_time s"
  by (simp_all add: delete_from_timer_queue_def Let_def) (simp_all add: pool_view_def)

lemma fd_closes_frame [simp]:
  "fd_closes (delete_buf a s) = fd_closes s" "fd_closes (delete_opt x s) = fd_closes s"
  "fd_closes (set_head_time s) = fd_closes s" "fd_closes (delete_from_timer_queue c s) = fd_closes s"
proof -
  show "fd_closes (delete_buf a s) = fd_closes s" for a s
    by (simp add: delete_buf_def raise_fault_def split: option.split)
  then show "fd_closes (delete_opt x s) = fd_closes s"
    by (simp add: delete_opt_def split: option.split)
  show "fd_closes (set_head_time s) = fd_closes s" for s
    by (simp add: set_head_time_def get_earliest_time_def raise_fault_def split: list.split)
  then show "fd_closes (delete_from_timer_queue c s) = fd_closes s"
    by (simp add: delete_from_timer_queue_def Let_def)
qed

section \<open>What each operation does to the pool\<close>

lemma free_conn_effect:
  "conns (free_conn p s) = (conns s)(p := (conns s p)
     \<lparr> m_cur_seq := m_cur_seq (conns s p) + 1, c_fd := -1, precv_mem_addr := None,
       psend_mem_addr := None \<rparr>)"
  "m_pconns_queue (free_conn p s) = m_pconns_queue s"
  "m_pconns_free_queue (free_conn p s) = m_pconns_free_queue s @ [p]"
  "m_recy_conn_set (free_conn p s) = m_recy_conn_set s"
  "m_total_conns_cnt (free_conn p s) = m_total_conns_cnt s"
  "m_free_conns_cnt (free_conn p s) = m_free_conns_cnt s + 1"
  "m_total_recy_conns_cnt (free_conn p s) = m_total_recy_conns_cnt s"
  "m_recy_conn_wait_time (free_conn p s) = m_recy_conn_wait_time s"
  by (simp_all add: free_conn_def put_one_to_free_def Let_def upd_conn_def)

lemma close_conn_effect:
  "conns (close_conn p s) = conns (free_conn p s)"
  "pool_view (close_conn p s) = pool_view (free_conn p s)"
  by (simp_all add: close_conn_def close_fd_def pool_view_def free_conn_effect)

lemma insert_recy_effect:
  "conns (insert_recy_conn_queue now p s) =
     (if p \<in> m_recy_conn_set s then conns s
      else (conns s)(p := (conns s p)\<lparr> in_recy_time := now,
              m_cur_seq := m_cur_seq (conns s p) + 1 \<rparr>))"
  "pool_view (insert_recy_conn_queue now p s) =
     (if p \<in> m_recy_conn_set s then pool_view s
      else (m_pconns_queue s, m_pconns_free_queue s, insert p (m_recy_conn_set s),
            m_total_conns_cnt s, m_free_conns_cnt s, m_total_recy_conns_cnt s + 1))"
proof -
  define s1 where "s1 = (if m_enabled_heartbeat s \<noteq> 0 then delete_from_timer_queue p s else s)"
  have c: "conns s1 = conns s" and "pool_view s1 = pool_view s"
    by (simp_all add: s1_def)
  then have v: "m_pconns_queue s1 = m_pconns_queue s" "m_pconns_free_queue s1 = m_pconns_free_queue s"
    "m_recy_conn_set s1 = m_recy_conn_set s" "m_total_conns_cnt s1 = m_total_conns_cnt s"
    "m_free_conns_cnt s1 = m_free_conns_cnt s" "m_total_recy_conns_cnt s1 = m_total_recy_conns_cnt s"
    by (simp_all add: pool_view_def)
  show "conns (insert_recy_conn_queue now p s) =
     (if p \<in> m_recy_conn_set s then conns s
      else (conns s)(p := (conns s p)\<lparr> in_recy_time := now,
              m_cur_seq := m_cur_seq (conns s p) + 1 \<rparr>))"
    by (simp add: insert_recy_conn_queue_def Let_def close_fd_def upd_conn_def v c flip: s1_def)
  show "pool_view (insert_recy_conn_queue now p s) =
     (if p \<in> m_recy_conn_set s then pool_view s
      else (m_pconns_queue s, m_pconns_free_queue s, insert p (m_recy_conn_set s),
            m_total_conns_cnt s, m_free_conns_cnt s, m_total_recy_conns_cnt s + 1))"
    by (simp add: insert_recy_conn_queue_def Let_def close_fd_def upd_conn_def v pool_view_def
        flip: s1_def)
qed

lemma insert_recy_fields:
  "m_pconns_queue (insert_recy_conn_queue now p s) = m_pconns_queue s"
  "m_pconns_free_queue (insert_recy_conn_queue now p s) = m_pconns_free_queue s"
  "m_recy_conn_set (insert_recy_conn_queue now p s) = insert p (m_recy_conn_set s)"
  using insert_recy_effect(2) [of now p s] by (auto simp: pool_view_def split: if_splits)

lemma close_conn_fields:
  "m_pconns_queue (close_conn p s) = m_pconns_queue s"
  "m_pconns_free_queue (close_conn p s) = m_pconns_free_queue s @ [p]"
  "m_recy_conn_set (close_conn p s) = m_recy_conn_set s"
  by (simp_all add: close_conn_def close_fd_def free_conn_effect)

text \<open>Closing and parking close the descriptor; freeing does not.\<close>

lemma fd_closes_effect:
  "fd_closes (free_conn p s) = fd_closes s" "fd_closes (recy_one p s) = fd_closes s"
  "fd_closes (close_conn p s) = c_fd (conns s p) # fd_closes s"
  "fd_closes (insert_recy_conn_queue now p s) = c_fd (conns s p) # fd_closes s"
proof -
  show free: "fd_closes (free_conn p s) = fd_closes s" for s
    by (simp add: free_conn_def put_one_to_free_def Let_def upd_conn_def)
  then show "fd_closes (recy_one p s) = fd_closes s" by (simp add: recy_one_def)
  show "fd_closes (close_conn p s) = c_fd (conns s p) # fd_closes s"
    by (simp add: close_conn_def free close_fd_def)
  define s1 where "s1 = (if m_enabled_heartbeat s \<noteq> 0 then delete_from_timer_queue p s else s)"
  have "conns s1 = conns s" "fd_closes s1 = fd_closes s" by (simp_all add: s1_def)
  then show "fd_closes (insert_recy_conn_queue now p s) = c_fd (conns s p) # fd_closes s"
    by (simp add: insert_recy_conn_queue_def Let_def close_fd_def upd_conn_def flip: s1_def)
qed

lemma recy_one_effect:
  "conns (recy_one p s) = (conns s)(p := (conns s p)
     \<lparr> m_cur_seq := m_cur_seq (conns s p) + 1, c_fd := -1, precv_mem_addr := None,
       psend_mem_addr := None \<rparr>)"
  "pool_view (recy_one p s) = (m_pconns_queue s, m_pconns_free_queue s @ [p],
     m_recy_conn_set s - {p}, m_total_conns_cnt s, m_free_conns_cnt s + 1,
     m_total_recy_conns_cnt s - 1)"
  "m_recy_conn_wait_time (recy_one p s) = m_recy_conn_wait_time s"
  by (simp_all add: recy_one_def free_conn_effect pool_view_def)

section \<open>Pool invariant\<close>

definition pool_inv :: "mgx_socket \<Rightarrow> bool" where
  "pool_inv s \<longleftrightarrow>
     distinct (m_pconns_queue s) \<and> distinct (m_pconns_free_queue s) \<and>
     set (m_pconns_free_queue s) \<subseteq> set (m_pconns_queue s) \<and>
     m_recy_conn_set s \<subseteq> set (m_pconns_queue s) \<and>
     set (m_pconns_free_queue s) \<inter> m_recy_conn_set s = {} \<and>
     m_total_conns_cnt s = int (length (m_pconns_queue s)) \<and>
     m_free_conns_cnt s = int (length (m_pconns_free_queue s)) \<and>
     m_total_recy_conns_cnt s = int (card (m_recy_conn_set s))"

text \<open>Who owns a connection object.\<close>

datatype conn_status = Unallocated | Free | In_recovery | In_use

definition conn_status :: "mgx_socket \<Rightarrow> conn_ptr \<Rightarrow> conn_status" where
  "conn_status s p =
     (if p \<notin> set (m_pconns_queue s) then Unallocated
      else if p \<in> set (m_pconns_free_queue s) then Free
      else if p \<in> m_recy_conn_set s then In_recovery else In_use)"

text \<open>Both depend on the pool part of the state only.\<close>

lemma pool_view_cong:
  assumes "pool_view s = (q, f, r, tc, fc, rc)"
  shows "m_pconns_queue s = q" "m_pconns_free_queue s = f" "m_recy_conn_set s = r"
    "m_total_conns_cnt s = tc" "m_free_conns_cnt s = fc" "m_total_recy_conns_cnt s = rc"
  using assms by (simp_all add: pool_view_def)

lemma pool_inv_view: "pool_view s = pool_view t \<Longrightarrow> pool_inv s = pool_inv t"
  by (simp add: pool_view_def pool_inv_def)

lemma conn_status_view: "pool_view s = pool_view t \<Longrightarrow> conn_status s = conn_status t"
  by (rule ext) (simp add: pool_view_def conn_status_def)

lemma pool_inv_get_conn [mgx_inv]:
  assumes "pool_inv s" and "newp \<notin> set (m_pconns_queue s)"
  shows "pool_inv (snd (get_conn now newp fd s))"
proof (cases "m_pconns_free_queue s")
  case Nil
  with assms show ?thesis
    by (auto simp: pool_inv_def get_conn_def)
next
  case (Cons p q)
  with assms show ?thesis
    by (simp add: pool_inv_def get_conn_def)
qed

lemma pool_inv_free_conn:
  assumes "pool_inv s" and "conn_status s p = In_use"
  shows "pool_inv (free_conn p s)"
  using assms by (auto simp: pool_inv_def free_conn_effect conn_status_def split: if_splits)

lemma pool_inv_close_conn [mgx_inv]:
  assumes "pool_inv s" and "conn_status s p = In_use"
  shows "pool_inv (close_conn p s)"
  using pool_inv_free_conn [OF assms] pool_inv_view [OF close_conn_effect(2)] by blast

lemma pool_inv_insert_recy [mgx_inv]:
  assumes "pool_inv s" and "conn_status s p = In_use \<or> conn_status s p = In_recovery"
  shows "pool_inv (insert_recy_conn_queue now p s)"
proof (cases "p \<in> m_recy_conn_set s")
  case True
  with assms pool_inv_view [of "insert_recy_conn_queue now p s" s] show ?thesis
    by (simp add: insert_recy_effect)
next
  case False
  have fin: "finite (m_recy_conn_set s)"
    using assms by (auto simp: pool_inv_def intro: finite_subset)
  note v = pool_view_cong [OF insert_recy_effect(2) [of now p s, unfolded if_not_P [OF False]]]
  show ?thesis
    using assms False fin
    by (auto simp: pool_inv_def v conn_status_def split: if_splits)
qed

lemma pool_inv_recy_one [mgx_inv]:
  assumes "pool_inv s" and "p \<in> m_recy_conn_set s"
  shows "pool_inv (recy_one p s)"
proof -
  have "finite (m_recy_conn_set s)"
    using assms by (auto simp: pool_inv_def intro: finite_subset)
  then have "int (card (m_recy_conn_set s - {p})) = int (card (m_recy_conn_set s)) - 1"
    using assms(2) by (metis card_Suc_Diff1 add_diff_cancel_left' of_nat_Suc)
  then show ?thesis
    using assms
    by (auto simp: pool_inv_def pool_view_cong [OF recy_one_effect(2)])
qed

section \<open>The pool as a state machine\<close>

text \<open>
  The operations as steps, exactly as they can be called: \<open>close_conn\<close> and
  \<open>insert_recy_conn_queue\<close> do not test whom the object belongs to. The allocator returns an
  address that is not in the pool; the recovery thread frees entries whose waiting time is over.
\<close>

inductive pool_call :: "mgx_socket \<Rightarrow> mgx_socket \<Rightarrow> bool" where
  call_get: "newp \<notin> set (m_pconns_queue s) \<Longrightarrow> pool_call s (snd (get_conn now newp fd s))"
| call_close: "p \<in> set (m_pconns_queue s) \<Longrightarrow> pool_call s (close_conn p s)"
| call_park: "p \<in> set (m_pconns_queue s) \<Longrightarrow> pool_call s (insert_recy_conn_queue now p s)"
| call_recover: "p \<in> m_recy_conn_set s \<Longrightarrow> recy_expired now p s \<Longrightarrow> pool_call s (recy_one p s)"

inductive_cases pool_callE: "pool_call s t"

text \<open>
  What holds of the containers and counters after any calls: the counters are exact, even when
  an object has been closed or parked that was free already.
\<close>

definition pool_counts :: "mgx_socket \<Rightarrow> bool" where
  "pool_counts s \<longleftrightarrow>
     distinct (m_pconns_queue s) \<and> set (m_pconns_free_queue s) \<subseteq> set (m_pconns_queue s) \<and>
     m_recy_conn_set s \<subseteq> set (m_pconns_queue s) \<and>
     m_total_conns_cnt s = int (length (m_pconns_queue s)) \<and>
     m_free_conns_cnt s = int (length (m_pconns_free_queue s)) \<and>
     m_total_recy_conns_cnt s = int (card (m_recy_conn_set s))"

lemma pool_inv_counts: "pool_inv s \<Longrightarrow> pool_counts s"
  by (simp add: pool_inv_def pool_counts_def)

lemma pool_counts_view: "pool_view s = pool_view t \<Longrightarrow> pool_counts s = pool_counts t"
  by (simp add: pool_view_def pool_counts_def)

lemma pool_counts_finite: "pool_counts s \<Longrightarrow> finite (m_recy_conn_set s)"
  by (auto simp: pool_counts_def intro: finite_subset)

lemma pool_call_counts: "pool_call s t \<Longrightarrow> pool_counts s \<Longrightarrow> pool_counts t"
proof (erule pool_callE)
  fix newp now fd
  assume "pool_counts s" "newp \<notin> set (m_pconns_queue s)" "t = snd (get_conn now newp fd s)"
  then show "pool_counts t"
    by (cases "m_pconns_free_queue s") (auto simp: get_conn_def pool_counts_def)
next
  fix p
  assume s: "pool_counts s" "p \<in> set (m_pconns_queue s)" and t: "t = close_conn p s"
  from s have "pool_counts (free_conn p s)" by (simp add: pool_counts_def free_conn_effect)
  then show "pool_counts t" using pool_counts_view [OF close_conn_effect(2)] by (simp add: t)
next
  fix p now
  assume s: "pool_counts s" "p \<in> set (m_pconns_queue s)" and t: "t = insert_recy_conn_queue now p s"
  show "pool_counts t"
  proof (cases "p \<in> m_recy_conn_set s")
    case True
    with s(1) pool_counts_view [of t s] show ?thesis by (simp add: t insert_recy_effect)
  next
    case False
    note v = pool_view_cong [OF insert_recy_effect(2) [of now p s, unfolded if_not_P [OF False]]]
    from s False pool_counts_finite [OF s(1)] show ?thesis by (simp add: pool_counts_def t v)
  qed
next
  fix p now
  assume s: "pool_counts s" "p \<in> m_recy_conn_set s" and t: "t = recy_one p s"
  have "int (card (m_recy_conn_set s - {p})) = int (card (m_recy_conn_set s)) - 1"
    using pool_counts_finite [OF s(1)] s(2) by (metis card_Suc_Diff1 add_diff_cancel_left' of_nat_Suc)
  with s show "pool_counts t" by (auto simp: pool_counts_def t pool_view_cong [OF recy_one_effect(2)])
qed

interpretation calls: step_invariant pool_call pool_counts
  by unfold_locales (rule pool_call_counts)

text \<open>
  The calls whose callers own the object: only a connection in use is closed, and only one in
  use or already waiting for recovery is parked.
\<close>

inductive pool_step :: "mgx_socket \<Rightarrow> mgx_socket \<Rightarrow> bool" where
  step_get: "newp \<notin> set (m_pconns_queue s) \<Longrightarrow> pool_step s (snd (get_conn now newp fd s))"
| step_close: "conn_status s p = In_use \<Longrightarrow> pool_step s (close_conn p s)"
| step_park: "conn_status s p = In_use \<or> conn_status s p = In_recovery \<Longrightarrow>
    pool_step s (insert_recy_conn_queue now p s)"
| step_recover: "p \<in> m_recy_conn_set s \<Longrightarrow> recy_expired now p s \<Longrightarrow> pool_step s (recy_one p s)"

inductive_cases pool_stepE: "pool_step s t"

lemma pool_step_inv: "pool_step s t \<Longrightarrow> pool_inv s \<Longrightarrow> pool_inv t"
  by (erule pool_stepE) (auto intro: mgx_inv)

interpretation pool: step_invariant pool_step pool_inv
  by unfold_locales (rule pool_step_inv)

lemma pool_step_call: "pool_step s t \<Longrightarrow> pool_call s t"
  by (erule pool_stepE) (auto intro: pool_call.intros simp: conn_status_def split: if_splits)

abbreviation pool_reachable :: "mgx_socket \<Rightarrow> mgx_socket \<Rightarrow> bool" where
  "pool_reachable \<equiv> pool_step\<^sup>*\<^sup>*"

lemma pool_add_all:
  "m_pconns_queue (foldl pool_add s as) = m_pconns_queue s @ map fst as"
  "m_pconns_free_queue (foldl pool_add s as) = m_pconns_free_queue s @ map fst as"
  "m_recy_conn_set (foldl pool_add s as) = m_recy_conn_set s"
  "m_total_recy_conns_cnt (foldl pool_add s as) = m_total_recy_conns_cnt s"
  by (induction as arbitrary: s) (auto simp: pool_add_def)

lemma pool_inv_init:
  assumes "distinct (map fst allocs)" and "length allocs = nat (m_worker_conns s)"
    and "0 \<le> m_worker_conns s"
    and "m_pconns_queue s = []" "m_pconns_free_queue s = []" "m_recy_conn_set s = {}"
    and "m_total_recy_conns_cnt s = 0"
  shows "pool_inv (conn_pool_init allocs s)"
  using assms by (simp add: pool_inv_def conn_pool_init_def pool_add_all)

text \<open>The connections in use, and that every object of the pool is in exactly one place.\<close>

definition in_use :: "mgx_socket \<Rightarrow> conn_ptr set" where
  "in_use s = {p \<in> set (m_pconns_queue s). conn_status s p = In_use}"

lemma pool_partition:
  assumes "pool_inv s"
  shows "m_total_conns_cnt s =
    m_free_conns_cnt s + m_total_recy_conns_cnt s + int (card (in_use s))"
proof -
  let ?Q = "set (m_pconns_queue s)" and ?F = "set (m_pconns_free_queue s)"
  have u: "in_use s = ?Q - (?F \<union> m_recy_conn_set s)"
    by (auto simp: in_use_def conn_status_def)
  have sub: "?F \<union> m_recy_conn_set s \<subseteq> ?Q" and dj: "?F \<inter> m_recy_conn_set s = {}"
    using assms by (auto simp: pool_inv_def)
  have fin: "finite (m_recy_conn_set s)"
    by (rule finite_subset [of _ ?Q]) (use sub in auto)
  have "card ?Q = card (?F \<union> m_recy_conn_set s) + card (in_use s)"
    unfolding u using sub by (metis card_Diff_subset card_mono finite_set finite_subset le_add_diff_inverse)
  also have "card (?F \<union> m_recy_conn_set s) = card ?F + card (m_recy_conn_set s)"
    using dj fin by (simp add: card_Un_disjoint)
  finally show ?thesis
    using assms by (simp add: pool_inv_def distinct_card)
qed

section \<open>Handing out a connection\<close>

lemma get_conn_reuse:
  assumes "pool_inv s" and "m_pconns_free_queue s = f # fs"
  shows "get_conn now newp fd s =
    (f, s\<lparr> m_pconns_free_queue := fs, m_free_conns_cnt := m_free_conns_cnt s - 1,
           conns := (conns s)(f := (get_one_to_use now (conns s f))
             \<lparr> c_fd := fd, c_instance := \<not> c_instance (conns s f) \<rparr>) \<rparr>)"
  using assms by (simp add: pool_inv_def get_conn_def)

lemma get_conn_grow:
  assumes "pool_inv s" and "m_pconns_free_queue s = []"
  shows "get_conn now newp fd s =
    (newp, s\<lparr> conns := (conns s)(newp := (get_one_to_use now new_conn)\<lparr> c_fd := fd \<rparr>),
              m_pconns_queue := m_pconns_queue s @ [newp],
              m_total_conns_cnt := m_total_conns_cnt s + 1 \<rparr>)"
  using assms by (simp add: pool_inv_def get_conn_def)

text \<open>The object is reset for a new client and carries the accepted descriptor.\<close>

definition ready_conn :: "int \<Rightarrow> mgx_conn \<Rightarrow> bool" where
  "ready_conn fd c \<longleftrightarrow>
     c_fd c = fd \<and> recv_stat c = PKG_HDR_START \<and> precv_buf c = RP_hdr 0 \<and>
     unat (rest_recv_size c) = m_pkg_hdr_size \<and> precv_mem_addr c = None \<and>
     psend_mem_addr c = None \<and> throw_send_cnt c = 0"

lemma ready_get_one_to_use: "ready_conn fd ((get_one_to_use now c)\<lparr> c_fd := fd \<rparr>)"
  and ready_get_one_to_use_inst:
    "ready_conn fd ((get_one_to_use now c)\<lparr> c_fd := fd, c_instance := b \<rparr>)"
  by (simp_all add: ready_conn_def get_one_to_use_def m_pkg_hdr_size_def)

lemma get_conn_status:
  assumes inv: "pool_inv s" and new: "newp \<notin> set (m_pconns_queue s)"
    and get: "get_conn now newp fd s = (p, t)"
  shows "conn_status s p \<in> {Free, Unallocated} \<and> conn_status t p = In_use \<and>
    (\<forall>q. q \<noteq> p \<longrightarrow> conn_status t q = conn_status s q)"
proof (cases "m_pconns_free_queue s")
  case Nil
  with inv get have "p = newp" and t: "m_pconns_queue t = m_pconns_queue s @ [newp]"
    "m_pconns_free_queue t = []" "m_recy_conn_set t = m_recy_conn_set s"
    by (auto simp: get_conn_grow)
  with inv new Nil show ?thesis
    by (auto simp: conn_status_def pool_inv_def)
next
  case (Cons f fs)
  with inv get have "p = f" and t: "m_pconns_queue t = m_pconns_queue s"
    "m_pconns_free_queue t = fs" "m_recy_conn_set t = m_recy_conn_set s"
    by (auto simp: get_conn_reuse)
  with inv Cons show ?thesis
    by (auto simp: conn_status_def pool_inv_def)
qed

lemma get_conn_conn:
  assumes inv: "pool_inv s" and get: "get_conn now newp fd s = (p, t)"
  shows "ready_conn fd (conns t p)" and "faults t = faults s" and "q \<noteq> p \<Longrightarrow> conns t q = conns s q"
proof -
  have "ready_conn fd (conns t p) \<and> faults t = faults s \<and> (q \<noteq> p \<longrightarrow> conns t q = conns s q)"
  proof (cases "m_pconns_free_queue s")
    case Nil
    with get_conn_grow [OF inv Nil] get ready_get_one_to_use show ?thesis by auto
  next
    case (Cons f fs)
    with get_conn_reuse [OF inv Cons] get ready_get_one_to_use_inst show ?thesis by auto
  qed
  then show "ready_conn fd (conns t p)" and "faults t = faults s"
    and "q \<noteq> p \<Longrightarrow> conns t q = conns s q" by auto
qed

section \<open>Sequence numbers\<close>

text \<open>
  \<open>pool_run p s n t\<close>: the pool goes from \<open>s\<close> to \<open>t\<close> and the connection \<open>p\<close> changes
  owner \<open>n\<close> times on the way.
\<close>

inductive pool_run :: "conn_ptr \<Rightarrow> mgx_socket \<Rightarrow> nat \<Rightarrow> mgx_socket \<Rightarrow> bool" for p s where
  run_refl: "pool_run p s 0 s"
| run_step: "pool_run p s n t \<Longrightarrow> pool_step t u \<Longrightarrow>
    pool_run p s (if conn_status t p = conn_status u p then n else Suc n) u"

lemma get_conn_pool_grows:
  "set (m_pconns_queue s) \<subseteq> set (m_pconns_queue (snd (get_conn now newp fd s)))"
  by (auto simp: get_conn_def raise_fault_def split: list.split)

lemma step_pool_grows: "pool_step s t \<Longrightarrow> set (m_pconns_queue s) \<subseteq> set (m_pconns_queue t)"
  by (erule pool_stepE)
    (simp_all add: get_conn_pool_grows close_conn_fields insert_recy_fields
       pool_view_cong [OF recy_one_effect(2)])

lemma get_conn_seq:
  assumes "pool_inv s" and "newp \<notin> set (m_pconns_queue s)"
    and "get_conn now newp fd s = (p, t)" and "p \<in> set (m_pconns_queue s)"
  shows "m_cur_seq (conns t p) = m_cur_seq (conns s p) + 1"
proof (cases "m_pconns_free_queue s")
  case Nil
  with assms get_conn_grow [OF assms(1) Nil] show ?thesis by auto
next
  case (Cons f fs)
  with assms get_conn_reuse [OF assms(1) Cons] show ?thesis
    by (auto simp: get_one_to_use_def)
qed

lemma step_seq:
  assumes "pool_step s t" and "pool_inv s" and "p \<in> set (m_pconns_queue s)"
  shows "m_cur_seq (conns t p) = m_cur_seq (conns s p) + of_bool (conn_status s p \<noteq> conn_status t p)"
  using assms
proof (cases rule: pool_step.cases)
  case (step_get newp now fd)
  obtain c u where get: "get_conn now newp fd s = (c, u)" by fastforce
  with step_get have t: "t = u" by simp
  show ?thesis
  proof (cases "c = p")
    case True
    with get_conn_seq [OF assms(2) step_get(2) get] get_conn_status [OF assms(2) step_get(2) get]
    show ?thesis using assms(3) t by auto
  next
    case False
    with get_conn_conn(3) [OF assms(2) get, of p] get_conn_status [OF assms(2) step_get(2) get]
    show ?thesis using t by auto
  qed
next
  case (step_close c)
  then show ?thesis
    by (auto simp: close_conn_effect free_conn_effect conn_status_def close_conn_fields
        split: if_splits)
next
  case (step_park c now)
  then show ?thesis
    by (auto simp: insert_recy_effect(1) insert_recy_fields conn_status_def split: if_splits)
next
  case (step_recover c now)
  with assms(2,3) show ?thesis
    by (auto simp: recy_one_effect(1) pool_view_cong [OF recy_one_effect(2)] conn_status_def
        pool_inv_def split: if_splits)
qed

lemma pool_run_inv:
  "pool_run p s n t \<Longrightarrow> pool_inv s \<Longrightarrow> pool_inv t \<and> set (m_pconns_queue s) \<subseteq> set (m_pconns_queue t)"
  by (induction rule: pool_run.induct) (auto intro: pool_step_inv dest: step_pool_grows)

lemma pool_run_seq:
  assumes "pool_run p s n t" and "pool_inv s" and "p \<in> set (m_pconns_queue s)"
  shows "m_cur_seq (conns t p) = m_cur_seq (conns s p) + word_of_nat n"
  using assms
proof (induction rule: pool_run.induct)
  case run_refl
  then show ?case by simp
next
  case (run_step n t u)
  from run_step.hyps(1) run_step.prems have "pool_inv t" "p \<in> set (m_pconns_queue t)"
    by (auto dest: pool_run_inv)
  with step_seq [OF run_step.hyps(2)] run_step show ?case
    by (auto simp: algebra_simps)
qed

section \<open>The recovery thread terminates\<close>

lemma recy_loop_wait:
  assumes "k \<le> m" and "recy_expired (clock m) p s"
  shows "\<exists>j. k \<le> j \<and> recy_loop clock k (p # ps) s = recy_loop clock (Suc j) ps (recy_one p s)"
  using assms(1)
proof (induction "m - k" arbitrary: k)
  case 0
  then have "k = m" by simp
  with assms(2) show ?case
    by (intro exI [of _ m]) (simp add: recy_loop.simps [of clock m "p # ps"])
next
  case (Suc d)
  show ?case
  proof (cases "recy_expired (clock k) p s")
    case True
    then show ?thesis
      by (intro exI [of _ k]) (simp add: recy_loop.simps [of clock k "p # ps"])
  next
    case False
    from Suc.hyps(2) have "d = m - Suc k" and "Suc k \<le> m" by linarith+
    then obtain j where "Suc k \<le> j"
      "recy_loop clock (Suc k) (p # ps) s = recy_loop clock (Suc j) ps (recy_one p s)"
      using Suc.hyps(1) by blast
    with False show ?thesis
      by (intro exI [of _ j]) (simp add: recy_loop.simps [of clock k "p # ps"])
  qed
qed

text \<open>What a round leaves of a connection that it frees.\<close>

definition released :: "mgx_conn \<Rightarrow> mgx_conn" where
  "released k = k\<lparr> m_cur_seq := m_cur_seq k + 1, c_fd := -1, precv_mem_addr := None, psend_mem_addr := None \<rparr>"

lemma recy_loop_all:
  assumes "\<And>k t. \<exists>m \<ge> k. t \<le> clock m"
    and "pool_inv s" and "distinct ps" and "set ps \<subseteq> m_recy_conn_set s"
  shows "\<exists>j t. recy_loop clock k ps s = Some (j, t) \<and> pool_inv t \<and>
    m_recy_conn_set t = m_recy_conn_set s - set ps \<and>
    m_pconns_free_queue t = m_pconns_free_queue s @ ps \<and> m_pconns_queue t = m_pconns_queue s \<and>
    fd_closes t = fd_closes s \<and>
    (\<forall>p. conns t p = (if p \<in> set ps then released (conns s p) else conns s p))"
  using assms(2-)
proof (induction ps arbitrary: k s)
  case Nil
  then show ?case by (simp add: recy_loop.simps [of clock k])
next
  case (Cons p ps)
  obtain m where "k \<le> m" "recy_expired (clock m) p s"
    using assms(1) unfolding recy_expired_def by blast
  then obtain j where "recy_loop clock k (p # ps) s = recy_loop clock (Suc j) ps (recy_one p s)"
    using recy_loop_wait by blast
  moreover have "pool_inv (recy_one p s)"
    using Cons.prems by (auto intro: pool_inv_recy_one)
  moreover have "set ps \<subseteq> m_recy_conn_set s - {p}"
    and "m_recy_conn_set s - {p} - set ps = m_recy_conn_set s - set (p # ps)"
    using Cons.prems by auto
  moreover have "conns (recy_one p s) x = (if x = p then released (conns s p) else conns s x)" for x
    by (simp add: recy_one_effect(1) released_def)
  ultimately show ?case
    using Cons.IH [of "recy_one p s" "Suc j"] Cons.prems
    by (auto simp: pool_view_cong [OF recy_one_effect(2)] fd_closes_effect)
qed

lemma recy_round_all:
  assumes "\<And>k t. \<exists>m \<ge> k. t \<le> clock m"
    and "pool_inv s" and "distinct order" and "set order = m_recy_conn_set s"
  shows "\<exists>j t. recy_conn_th_round clock k order s = Some (j, t) \<and> pool_inv t \<and>
    m_recy_conn_set t = {} \<and> m_pconns_free_queue t = m_pconns_free_queue s @ order \<and>
    m_pconns_queue t = m_pconns_queue s \<and> fd_closes t = fd_closes s \<and>
    (\<forall>p. conns t p = (if p \<in> set order then released (conns s p) else conns s p))"
proof (cases "0 < m_total_recy_conns_cnt s")
  case True
  then show ?thesis
    using recy_loop_all [OF assms(1) assms(2,3), of k] assms(4)
    by (auto simp: recy_conn_th_round_def)
next
  case False
  then have "card (m_recy_conn_set s) = 0" using assms(2) by (simp add: pool_inv_def)
  moreover have "finite (m_recy_conn_set s)" by (simp add: assms(4) [symmetric])
  ultimately have "m_recy_conn_set s = {}" by simp
  with False assms show ?thesis by (auto simp: recy_conn_th_round_def)
qed

section \<open>Properties\<close>

definition empty_pool :: "mgx_socket \<Rightarrow> bool" where
  "empty_pool s \<longleftrightarrow> m_pconns_queue s = [] \<and> m_pconns_free_queue s = [] \<and>
     m_recy_conn_set s = {} \<and> m_total_recy_conns_cnt s = 0 \<and> 0 \<le> m_worker_conns s"

lemma pool_inv_init_empty:
  assumes "empty_pool s" and "distinct (map fst allocs)" and "length allocs = nat (m_worker_conns s)"
  shows "pool_inv (conn_pool_init allocs s)"
  using assms by (intro pool_inv_init) (simp_all add: empty_pool_def)

text \<open>
  C3: the pool invariant. In every state reachable from an initialised pool by handing out,
  closing, parking and recovering connections, whichever objects are closed and parked, the three
  counters equal the sizes of the containers they count, and these hold allocated objects
  only. The operations do not test the owner; as long as only connections in use are closed
  and only connections in use or already waiting are parked, moreover, no object is queued
  twice, a free object is never also waiting for recovery, and the total is the sum of free,
  waiting and in-use connections. (\<open>close_after_park_queues_twice\<close> is a call that does not
  respect this.)
\<close>

theorem pool_counters_exact:
  assumes "empty_pool s0" and "distinct (map fst allocs)" and "length allocs = nat (m_worker_conns s0)"
    and "pool_call\<^sup>*\<^sup>* (conn_pool_init allocs s0) s"
  shows "pool_counts s \<and>
    (pool_reachable (conn_pool_init allocs s0) s \<longrightarrow> pool_inv s \<and>
      m_total_conns_cnt s = m_free_conns_cnt s + m_total_recy_conns_cnt s + int (card (in_use s)))"
proof (intro conjI impI)
  have init: "pool_inv (conn_pool_init allocs s0)" by (rule pool_inv_init_empty [OF assms(1-3)])
  show "pool_counts s" by (rule calls.run_inv [OF assms(4) pool_inv_counts [OF init]])
  assume "pool_reachable (conn_pool_init allocs s0) s"
  then show "pool_inv s" by (rule pool.run_inv) (rule init)
  then show "m_total_conns_cnt s = m_free_conns_cnt s + m_total_recy_conns_cnt s + int (card (in_use s))"
    by (rule pool_partition)
qed

text \<open>A concrete pool of two connections, used by the witnesses.\<close>

definition demo_pool :: mgx_socket where
  "demo_pool = conn_pool_init [(16, 0), (32, 0)] (Mgx_socket\<lparr>m_worker_conns := 2\<rparr>)"

lemma demo_pool_inv: "pool_inv demo_pool"
  unfolding demo_pool_def by (rule pool_inv_init_empty) (simp_all add: empty_pool_def Mgx_socket_def)

lemma demo_pool_queues:
  "m_pconns_queue demo_pool = [16, 32]" "m_pconns_free_queue demo_pool = [16, 32]"
  "m_recy_conn_set demo_pool = {}" "m_free_conns_cnt demo_pool = 2"
  by (simp_all add: demo_pool_def conn_pool_init_def pool_add_def Mgx_socket_def)

theorem pool_counters_exact_witness:
  "pool_inv (snd (get_conn 5 48 7 demo_pool)) \<and>
   m_total_conns_cnt (snd (get_conn 5 48 7 demo_pool)) =
     m_free_conns_cnt (snd (get_conn 5 48 7 demo_pool)) +
     m_total_recy_conns_cnt (snd (get_conn 5 48 7 demo_pool)) +
     int (card (in_use (snd (get_conn 5 48 7 demo_pool))))"
proof -
  have init: "empty_pool (Mgx_socket\<lparr>m_worker_conns := 2\<rparr>)" "distinct (map fst [(16 :: conn_ptr, 0 :: int), (32, 0)])"
    "length [(16 :: conn_ptr, 0 :: int), (32, 0)] = nat (m_worker_conns (Mgx_socket\<lparr>m_worker_conns := 2\<rparr>))"
    by (simp_all add: empty_pool_def Mgx_socket_def)
  have "pool_step demo_pool (snd (get_conn 5 48 7 demo_pool))"
    by (rule step_get) (simp add: demo_pool_queues)
  then have "pool_reachable demo_pool (snd (get_conn 5 48 7 demo_pool))"
    "pool_call\<^sup>*\<^sup>* demo_pool (snd (get_conn 5 48 7 demo_pool))"
    using pool_step_call by blast+
  then show ?thesis
    using pool_counters_exact [OF init, folded demo_pool_def] by blast
qed

text \<open>
  C4: no connection object is given to two clients. \<open>get_conn\<close> returns an object that was free
  (or newly allocated), marks it in use, resets its receive and send state, stores the
  descriptor, and touches no other connection.
\<close>

theorem get_conn_exclusive:
  assumes "pool_inv s" and "newp \<notin> set (m_pconns_queue s)"
    and "get_conn now newp fd s = (p, t)"
  shows "conn_status s p \<in> {Free, Unallocated} \<and> conn_status t p = In_use \<and> ready_conn fd (conns t p) \<and>
    pool_inv t \<and> faults t = faults s \<and>
    (\<forall>q. q \<noteq> p \<longrightarrow> conns t q = conns s q \<and> conn_status t q = conn_status s q)"
  using get_conn_status [OF assms] get_conn_conn [OF assms(1,3)]
    pool_inv_get_conn [OF assms(1,2), of now fd] assms(3) by auto

theorem get_conn_exclusive_witness:
  "conn_status demo_pool 16 \<in> {Free, Unallocated} \<and>
   conn_status (snd (get_conn 5 48 7 demo_pool)) 16 = In_use"
proof -
  have "get_conn 5 48 7 demo_pool = (16, snd (get_conn 5 48 7 demo_pool))"
    by (simp add: get_conn_def demo_pool_queues)
  moreover have "48 \<notin> set (m_pconns_queue demo_pool)"
    by (simp add: demo_pool_queues)
  ultimately show ?thesis
    using get_conn_exclusive [OF demo_pool_inv] by blast
qed

text \<open>
  C5: stale messages are recognisable. Let a message record the sequence number of connection
  \<open>p\<close>. However often the pool then hands out, closes, parks and recovers connections, once \<open>p\<close>
  has changed owner at least once (and fewer than \<open>2 ^ 64\<close> times) the recorded number differs
  from the connection's, so the test \<open>pconn->m_cur_seq != pmsg_hdr->cur_seq\<close> rejects the message.
\<close>

theorem stale_sequence_differs:
  assumes "pool_inv s" and "p \<in> set (m_pconns_queue s)"
    and "pool_run p s n t" and "0 < n" and "n < 2 ^ 64"
  shows "m_cur_seq (conns t p) \<noteq> m_cur_seq (conns s p)"
proof -
  have "(word_of_nat n :: u64) \<noteq> 0"
    using assms(4,5) word_of_nat_eq_iff_unat [where ?'a = 64, of n 0] by simp
  then show ?thesis
    by (simp add: pool_run_seq [OF assms(3,1,2)])
qed

theorem stale_sequence_differs_witness:
  "m_cur_seq (conns (snd (get_conn 5 48 7 demo_pool)) 16) \<noteq> m_cur_seq (conns demo_pool 16)"
proof (rule stale_sequence_differs [where n = 1])
  have "pool_step demo_pool (snd (get_conn 5 48 7 demo_pool))"
    by (rule step_get) (simp add: demo_pool_queues)
  moreover have "conn_status demo_pool 16 \<noteq> conn_status (snd (get_conn 5 48 7 demo_pool)) 16"
    by (simp add: conn_status_def get_conn_def demo_pool_queues)
  ultimately show "pool_run 16 demo_pool 1 (snd (get_conn 5 48 7 demo_pool))"
    using run_step [OF run_refl, of demo_pool _ 16] by fastforce
qed (simp_all add: demo_pool_inv demo_pool_queues)

text \<open>
  C6: the recovery thread makes progress. If the clock is unbounded, one round over the
  connections that wait for recovery returns, and then none of them waits any longer: each has
  been appended to the free queue, in iteration order, and the pool invariant holds.
\<close>

theorem recovery_round_frees_all:
  assumes "\<And>k t. \<exists>m \<ge> k. t \<le> clock m"
    and "pool_inv s" and "distinct order" and "set order = m_recy_conn_set s"
  shows "\<exists>j t. recy_conn_th_round clock k order s = Some (j, t) \<and> pool_inv t \<and>
    m_recy_conn_set t = {} \<and> m_pconns_free_queue t = m_pconns_free_queue s @ order"
  using recy_round_all [OF assms] by blast

definition demo_parked :: mgx_socket where
  "demo_parked = insert_recy_conn_queue 9 16 (snd (get_conn 5 48 7 demo_pool))"

lemma demo_used:
  "pool_inv (snd (get_conn 5 48 7 demo_pool))"
  "conn_status (snd (get_conn 5 48 7 demo_pool)) 16 = In_use"
  "m_recy_conn_set (snd (get_conn 5 48 7 demo_pool)) = {}"
  by (rule pool_inv_get_conn [OF demo_pool_inv])
    (simp_all add: conn_status_def get_conn_def demo_pool_queues)

theorem recovery_round_frees_all_witness:
  "\<exists>j t. recy_conn_th_round (\<lambda>k. int k) 0 [16] demo_parked = Some (j, t) \<and> pool_inv t \<and>
    m_recy_conn_set t = {} \<and> m_pconns_free_queue t = m_pconns_free_queue demo_parked @ [16]"
proof (rule recovery_round_frees_all)
  show "\<exists>m \<ge> k. t \<le> int m" for k t
    by (intro exI [of _ "max k (nat t)"]) simp
  show "pool_inv demo_parked"
    unfolding demo_parked_def using demo_used by (intro pool_inv_insert_recy) auto
  show "set [16] = m_recy_conn_set demo_parked"
    by (simp add: demo_parked_def insert_recy_fields demo_used)
qed simp

text \<open>
  \<open>close_conn\<close> does not look at the recovery set. If a connection that is already parked is
  closed as well (the heartbeat monitor parks it while the event loop still has an event for
  it, whose \<open>recv\<close> then fails), it enters the free queue twice, once at once and once when its
  recovery time is over: the pool can afterwards hand the same object to two clients.
\<close>

theorem close_after_park_queues_twice:
  assumes "pool_inv s" and "conn_status s p = In_use"
  shows "\<not> pool_inv (recy_one p (close_conn p (insert_recy_conn_queue now p s))) \<and>
    count_list (m_pconns_free_queue
      (recy_one p (close_conn p (insert_recy_conn_queue now p s)))) p = 2"
proof -
  have free: "m_pconns_free_queue (recy_one p (close_conn p (insert_recy_conn_queue now p s))) =
      m_pconns_free_queue s @ [p, p]"
    by (simp add: pool_view_cong [OF recy_one_effect(2)] close_conn_fields insert_recy_fields)
  have "count_list (m_pconns_free_queue s) p = 0"
    using assms(2) by (simp add: conn_status_def count_list_0_iff split: if_splits)
  with free show ?thesis by (simp add: pool_inv_def)
qed

theorem close_after_park_queues_twice_witness:
  "\<not> pool_inv (recy_one 16 (close_conn 16 demo_parked)) \<and>
   count_list (m_pconns_free_queue (recy_one 16 (close_conn 16 demo_parked))) 16 = 2"
  unfolding demo_parked_def
  by (rule close_after_park_queues_twice) (rule demo_used)+

end
