(* ===== verification/Mgx_Epoll.thy ===== *)
theory Mgx_Epoll
  imports Mgx_Conn
begin

text \<open>
  \<^verbatim>\<open>src/net/mgx_socket.cpp\<close>, registration of events: \<open>epoll_oper_event\<close> keeps the event mask
  of a connection and tags the connection pointer with the instance bit, which lets the event
  loop recognise events that belong to an earlier use of the same object.
\<close>

section \<open>Operations\<close>

definition EPOLL_CTL_ADD :: u32 where "EPOLL_CTL_ADD = 1"
definition EPOLL_CTL_DEL :: u32 where "EPOLL_CTL_DEL = 2"
definition EPOLL_CTL_MOD :: u32 where "EPOLL_CTL_MOD = 3"
definition EPOLLIN :: u32 where "EPOLLIN = 1"
definition EPOLLOUT :: u32 where "EPOLLOUT = 4"
definition EPOLLRDHUP :: u32 where "EPOLLRDHUP = 0x2000"

lemmas epoll_consts = EPOLL_CTL_ADD_def EPOLL_CTL_DEL_def EPOLL_CTL_MOD_def EPOLLIN_def
  EPOLLOUT_def EPOLLRDHUP_def

datatype epoll_es_mod_action = FULL_COVERAGE | REMOVE | ADD | IGNORE

text \<open>\<open>(void *)((uintptr_t)c | c->instance)\<close>, and its inverse in the event loop.\<close>

definition tag_ptr :: "conn_ptr \<Rightarrow> bool \<Rightarrow> u64" where
  "tag_ptr c inst = c OR of_bool inst"

definition ptr_instance :: "u64 \<Rightarrow> u64" where
  "ptr_instance d = d AND 1"

definition ptr_conn :: "u64 \<Rightarrow> conn_ptr" where
  "ptr_conn d = d AND NOT 1"

text \<open>The new event mask of the connection.\<close>

definition mod_events :: "epoll_es_mod_action \<Rightarrow> u32 \<Rightarrow> u32 \<Rightarrow> u32" where
  "mod_events act es old =
     (case act of ADD \<Rightarrow> old OR es | REMOVE \<Rightarrow> old AND NOT es | FULL_COVERAGE \<Rightarrow> es | IGNORE \<Rightarrow> old)"

text \<open>
  The result of \<open>epoll_ctl\<close> is the argument \<open>ctl_ok\<close>; the call itself is appended to the log
  with the descriptor, the operation, the event mask and the tagged pointer.
\<close>

definition epoll_oper_event ::
  "bool \<Rightarrow> int \<Rightarrow> u32 \<Rightarrow> u32 \<Rightarrow> epoll_es_mod_action \<Rightarrow> conn_ptr \<Rightarrow> mgx_socket \<Rightarrow> bool \<times> mgx_socket" where
  "epoll_oper_event ctl_ok fd e_type es act c s =
     (if e_type = EPOLL_CTL_ADD \<or> e_type = EPOLL_CTL_MOD \<or> e_type = EPOLL_CTL_DEL
      then
        let s1 = (if e_type = EPOLL_CTL_ADD then upd_conn c (\<lambda>k. k\<lparr> c_events := es \<rparr>) s
                  else if e_type = EPOLL_CTL_MOD
                  then upd_conn c (\<lambda>k. k\<lparr> c_events := mod_events act es (c_events k) \<rparr>) s
                  else s);
            ev = (if e_type = EPOLL_CTL_DEL then 0 else c_events (conns s1 c));
            data = tag_ptr c (c_instance (conns s1 c))
        in (ctl_ok, s1\<lparr> epoll_log := Epoll_ctl fd e_type ev data # epoll_log s1 \<rparr>)
      else (False, s))"

section \<open>Pointer tags\<close>

definition aligned_ptr :: "conn_ptr \<Rightarrow> bool" where
  "aligned_ptr c \<longleftrightarrow> c AND 1 = 0"

lemma aligned_bit0: "aligned_ptr c \<longleftrightarrow> \<not> bit c 0"
  by (simp add: aligned_ptr_def and_one_eq bit_0 odd_iff_mod_2_eq_one)

lemma ptr_tag_roundtrip:
  assumes "aligned_ptr c"
  shows "ptr_conn (tag_ptr c inst) = c" and "ptr_instance (tag_ptr c inst) = of_bool inst"
proof -
  have nb: "\<not> bit c 0" using assms by (simp add: aligned_bit0)
  have one: "bit (1 :: u64) n = (n = 0)" for n by (simp add: bit_1_iff)
  define m :: u64 where "m = 1"
  have m: "bit m n = (n = 0)" for n by (simp add: m_def one)
  have "(c OR of_bool inst) AND NOT m = c"
    using nb by (intro bit_word_eqI) (auto simp: bit_or_iff bit_and_iff bit_not_iff m bit_of_bool_iff one intro!: gr0I)
  then show "ptr_conn (tag_ptr c inst) = c"
    by (simp only: ptr_conn_def tag_ptr_def m_def)
  have "(c OR of_bool inst) AND m = of_bool inst"
    using nb by (intro bit_word_eqI) (auto simp: bit_or_iff bit_and_iff m bit_of_bool_iff one)
  then show "ptr_instance (tag_ptr c inst) = of_bool inst"
    by (simp only: ptr_instance_def tag_ptr_def m_def)
qed

lemma epoll_oper_event_mod:
  "epoll_oper_event ok fd EPOLL_CTL_MOD es act c s =
     (ok, (upd_conn c (\<lambda>k. k\<lparr> c_events := mod_events act es (c_events k) \<rparr>) s)
        \<lparr> epoll_log := Epoll_ctl fd EPOLL_CTL_MOD (mod_events act es (c_events (conns s c)))
            (tag_ptr c (c_instance (conns s c))) # epoll_log s \<rparr>)"
  by (simp add: epoll_oper_event_def Let_def epoll_consts) (simp add: upd_conn_def)

end
