(* ===== verification/Mgx_Thread.thy ===== *)
theory Mgx_Thread
  imports Mgx_Prelude
begin

text \<open>
  \<^verbatim>\<open>src/misc/mgx_thread.cpp\<close>: the thread object, and \<^verbatim>\<open>src/misc/mgx_util.cpp\<close>: the text of a
  backtrace. What the thread library returns is an argument; the function that a thread runs is
  modelled where it is defined.
\<close>

section \<open>Threads\<close>

record mgx_thread =
  m_pthread_id :: u64
  m_tid :: int
  m_isrunning :: bool
  m_name :: string

definition Mgx_thread :: "string \<Rightarrow> mgx_thread" where
  "Mgx_thread name = \<lparr> m_pthread_id = -1, m_tid = -1, m_isrunning = False, m_name = name \<rparr>"

text \<open>\<open>pthread_create\<close> returns an error number and stores an identifier.\<close>

definition thread_start :: "int \<times> u64 \<Rightarrow> mgx_thread \<Rightarrow> int \<times> mgx_thread" where
  "thread_start ret t = (fst ret, t\<lparr> m_pthread_id := snd ret \<rparr>)"

text \<open>
  \<open>run\<close> up to the call of the callback: the identifier it finds in the object is the thread that is
  given the name, cut to what the kernel accepts.
\<close>

definition thread_run :: "int \<Rightarrow> mgx_thread \<Rightarrow> (u64 \<times> string) \<times> mgx_thread" where
  "thread_run tid t =
     (let t1 = t\<lparr> m_tid := tid \<rparr>
      in ((m_pthread_id t1, take 15 (m_name t1)), t1\<lparr> m_isrunning := True \<rparr>))"

definition thread_join :: "mgx_thread \<Rightarrow> mgx_thread" where
  "thread_join t = t\<lparr> m_isrunning := False \<rparr>"

text \<open>The destructor: the thread it detaches, if any.\<close>

definition thread_destroy :: "mgx_thread \<Rightarrow> u64 option" where
  "thread_destroy t = (if m_isrunning t then Some (m_pthread_id t) else None)"

text \<open>A thread that was started and ran is detached by the destructor unless it was joined.\<close>

lemma thread_lifecycle:
  assumes "t = snd (thread_run tid (snd (thread_start (0, i) (Mgx_thread name))))"
  shows "thread_destroy t = Some i" and "thread_destroy (thread_join t) = None" and "m_tid (thread_join t) = tid"
  using assms by (simp_all add: thread_run_def thread_start_def thread_join_def thread_destroy_def Let_def)

text \<open>
  \<open>run\<close> and the store of the identifier by \<open>pthread_create\<close> are not ordered. In one order the new
  thread gets the name, in the other an invalid identifier is used.
\<close>

lemma thread_name_race:
  "fst (thread_run tid (snd (thread_start (0, i) (Mgx_thread name)))) = (i, take 15 name)"
  "fst (thread_run tid (Mgx_thread name)) = (-1, take 15 name)"
  "snd (thread_start (0, i) (snd (thread_run tid (Mgx_thread name)))) =
   snd (thread_run tid (snd (thread_start (0, i) (Mgx_thread name))))"
  by (simp_all add: thread_run_def thread_start_def Mgx_thread_def Let_def)

section \<open>Backtraces\<close>

text \<open>
  \<open>frames\<close> are the symbols of the return addresses, innermost first; \<open>None\<close> when they cannot be
  resolved, and then the list stays empty.
\<close>

definition mgx_backtrace :: "string list option \<Rightarrow> nat \<Rightarrow> nat \<Rightarrow> string list" where
  "mgx_backtrace frames sz skip = (case frames of None \<Rightarrow> [] | Some strs \<Rightarrow> drop skip (take sz strs))"

definition mgx_backtrace2str :: "string list option \<Rightarrow> nat \<Rightarrow> nat \<Rightarrow> string \<Rightarrow> string" where
  "mgx_backtrace2str frames sz skip prefix =
     concat (map (\<lambda>s. CHR 0x0A # prefix @ s) (mgx_backtrace frames sz skip))"

text \<open>The message of a failed assertion.\<close>

definition mgx_assert_text :: "string list option \<Rightarrow> string \<Rightarrow> string \<Rightarrow> string" where
  "mgx_assert_text frames expr msg =
     ''Assertion: '' @ expr @ [CHR 0x0A] @ msg @ [CHR 0x0A] @ ''backtrace: '' @
     mgx_backtrace2str frames 100 1 ''     ''"

text \<open>One line per frame, without the innermost \<open>skip\<close> ones.\<close>

lemma backtrace2str_lines:
  assumes "CHR 0x0A \<notin> set prefix" and "\<forall>s \<in> set strs. CHR 0x0A \<notin> set s"
  shows "length (filter (\<lambda>c. c = CHR 0x0A) (mgx_backtrace2str (Some strs) sz skip prefix)) =
    min (length strs) sz - skip"
proof -
  have "length (filter (\<lambda>c. c = CHR 0x0A) (concat (map (\<lambda>s. CHR 0x0A # prefix @ s) ss))) = length ss"
    if "set ss \<subseteq> set strs" for ss
    using that assms by (induction ss) (auto simp: filter_empty_conv)
  from this [of "drop skip (take sz strs)"] show ?thesis
    by (simp add: mgx_backtrace2str_def mgx_backtrace_def subset_trans [OF set_drop_subset set_take_subset])
qed

end
