(* ===== verification/Mgx_Thread_Pool.thy ===== *)
theory Mgx_Thread_Pool
  imports Mgx_Thread
begin

text \<open>
  \<^verbatim>\<open>src/misc/mgx_thread_pool.cpp\<close>: the message queue between the event loop and the worker
  threads. The first part models the operations as functions on the pool object; the second
  part models the interleaving of the event loop (the only producer) with any number of
  worker threads, at the granularity of the semaphore, the unlocked test of the queue size
  and the critical sections.
\<close>

section \<open>The pool object\<close>

type_synonym msg_ptr = u64

record th_pool =
  m_msg_queue :: "msg_ptr list"
  m_msg_queue_size :: nat
  m_th_pool_sem :: nat
  m_running_cnt :: int
  m_th_cnt :: int
  m_shutdown :: bool
  last_time :: int
  th_alerts :: nat   \<comment> \<open>number of "threads in thread pool not enough" messages\<close>

text \<open>The object is a global, so the members without initialiser start as zero.\<close>

definition Mgx_th_pool :: th_pool where
  "Mgx_th_pool =
     \<lparr> m_msg_queue = [], m_msg_queue_size = 0, m_th_pool_sem = 0, m_running_cnt = 0, m_th_cnt = 0,
       m_shutdown = False, last_time = 0, th_alerts = 0 \<rparr>"

text \<open>
  \<open>create\<close>: the argument list holds what \<open>pthread_create\<close> returns for each thread. The result
  is the returned flag, the number of threads constructed and the pool.
\<close>

fun start_threads :: "nat \<Rightarrow> int list \<Rightarrow> bool \<times> nat" where
  "start_threads 0 errs = (True, 0)"
| "start_threads (Suc n) [] = (True, 0)"
| "start_threads (Suc n) (e # errs) =
     (if e \<noteq> 0 then (False, 1) else (let (ok, k) = start_threads n errs in (ok, Suc k)))"

text \<open>
  The loop that waits for the threads: each observation of the thread at position \<open>i\<close> either moves
  on or sleeps and looks again. The result is the number of sleeps of 100 ms; \<open>None\<close> while it waits.
\<close>

fun wait_running :: "nat \<Rightarrow> bool list \<Rightarrow> nat option" where
  "wait_running 0 obs = Some 0"
| "wait_running (Suc n) [] = None"
| "wait_running (Suc n) (b # obs) =
     (if b then wait_running n obs else map_option Suc (wait_running (Suc n) obs))"

definition th_pool_create :: "int \<Rightarrow> int list \<Rightarrow> th_pool \<Rightarrow> bool \<times> nat \<times> th_pool" where
  "th_pool_create th_cnt errs p =
     (let p1 = p\<lparr> m_th_cnt := th_cnt, m_th_pool_sem := 0 \<rparr>;
          (ok, k) = start_threads (nat th_cnt) errs
      in (ok, k, p1))"

definition signal_to_th :: "int \<Rightarrow> th_pool \<Rightarrow> th_pool" where
  "signal_to_th now p =
     (let p1 = p\<lparr> m_th_pool_sem := m_th_pool_sem p + 1 \<rparr>
      in if m_running_cnt p1 = m_th_cnt p1 \<and> now - last_time p1 > 10
         then p1\<lparr> last_time := now, th_alerts := th_alerts p1 + 1 \<rparr> else p1)"

definition insert_msg_to_queue_and_signal :: "int \<Rightarrow> msg_ptr \<Rightarrow> th_pool \<Rightarrow> th_pool" where
  "insert_msg_to_queue_and_signal now buf p =
     signal_to_th now
       (p\<lparr> m_msg_queue := m_msg_queue p @ [buf], m_msg_queue_size := m_msg_queue_size p + 1 \<rparr>)"

lemma insert_msg_fields [simp]:
  "m_msg_queue (insert_msg_to_queue_and_signal now b p) = m_msg_queue p @ [b]"
  "m_msg_queue_size (insert_msg_to_queue_and_signal now b p) = m_msg_queue_size p + 1"
  "m_th_pool_sem (insert_msg_to_queue_and_signal now b p) = m_th_pool_sem p + 1"
  "m_shutdown (insert_msg_to_queue_and_signal now b p) = m_shutdown p"
  by (simp_all add: insert_msg_to_queue_and_signal_def signal_to_th_def Let_def)

text \<open>The wait ends after as many positive observations as there are threads.\<close>

lemma wait_running_returns:
  "length (filter id obs) = n \<Longrightarrow> (obs \<noteq> [] \<longrightarrow> last obs) \<Longrightarrow>
   wait_running n obs = Some (length (filter (\<lambda>b. \<not> b) obs))"
proof (induction n obs rule: wait_running.induct)
  case (1 obs)
  then show ?case by (cases obs rule: rev_cases) auto
next
  case (2 n)
  then show ?case by simp
next
  case (3 n b obs)
  then show ?case by (cases b) (auto split: if_splits)
qed

text \<open>
  \<open>destory_all\<close>: \<open>exits t\<close> tells whether the function of thread \<open>t\<close> ever returns; a join that does
  not return makes the result \<open>None\<close>. Otherwise the result is the pool, the threads that are left
  in the vector and the messages that are freed, in order.
\<close>

definition destory_all ::
  "(mgx_thread \<Rightarrow> bool) \<Rightarrow> mgx_thread list \<Rightarrow> th_pool \<Rightarrow> (th_pool \<times> mgx_thread list \<times> msg_ptr list) option" where
  "destory_all exits threads p =
     (if m_shutdown p then Some (p, threads, [])
      else if \<not> list_all exits threads then None
      else Some (p\<lparr> m_shutdown := True, m_msg_queue := [] \<rparr>, [], m_msg_queue p))"

text \<open>Every queued message is freed once; a second call frees nothing and never blocks.\<close>

lemma destory_all_once:
  assumes "destory_all exits threads p = Some (p1, ts1, freed)" and "\<not> m_shutdown p"
  shows "freed = m_msg_queue p" and "m_msg_queue p1 = []"
    and "destory_all exits' ts1 p1 = Some (p1, ts1, [])"
  using assms by (auto simp: destory_all_def split: if_splits)

text \<open>The size counter is not reset, so it differs from the queue when messages were freed.\<close>

lemma destory_all_size_stale:
  assumes "destory_all exits threads p = Some (p1, ts1, freed)" and "\<not> m_shutdown p"
    and "m_msg_queue_size p = length (m_msg_queue p)"
  shows "m_msg_queue_size p1 = length (m_msg_queue p1) \<longleftrightarrow> freed = []"
  using assms by (auto simp: destory_all_def split: if_splits)

section \<open>Message sinks\<close>

text \<open>
  What the receiving code relies on when it hands a message over: it is appended behind the
  messages already there and nothing else changes in the sequence.
\<close>

locale message_sink =
  fixes put :: "'m \<Rightarrow> 'q \<Rightarrow> 'q"
    and contents :: "'q \<Rightarrow> 'm list"
  assumes put_contents: "contents (put m q) = contents q @ [m]"
begin

lemma put_all: "contents (foldl (\<lambda>q m. put m q) q ms) = contents q @ ms"
  by (induction ms arbitrary: q) (simp_all add: put_contents)

end

interpretation pool_sink: message_sink "insert_msg_to_queue_and_signal now" m_msg_queue for now
  by unfold_locales simp

section \<open>Interleaving of the event loop and the workers\<close>

text \<open>
  Program points of \<open>th_func\<close>: waiting on the semaphore, about to test the size, about to
  lock, inside the critical section, holding a message, running the handler, returned.
\<close>

datatype th_pc =
    Th_wait | Th_check | Th_lock | Th_locked | Th_got msg_ptr | Th_run msg_ptr | Th_exit

text \<open>Program points of the producer: idle, and between the unlock and the \<open>sem_post\<close>.\<close>

datatype prod_pc = Pr_idle | Pr_post

record th_sys =
  ts_pool :: th_pool
  ts_pc :: "nat \<Rightarrow> th_pc"
  ts_prod :: prod_pc
  ts_put :: "msg_ptr list"    \<comment> \<open>ghost: messages ever pushed, oldest first\<close>
  ts_taken :: "msg_ptr list"  \<comment> \<open>ghost: messages ever popped, oldest first\<close>
  ts_bad_pop :: bool          \<comment> \<open>\<open>front()\<close> or \<open>pop()\<close> was called on an empty queue\<close>
  ts_intr :: nat              \<comment> \<open>ghost: how often \<open>sem_wait\<close> was interrupted by a signal\<close>

abbreviation set_pc :: "nat \<Rightarrow> th_pc \<Rightarrow> th_sys \<Rightarrow> th_sys" where
  "set_pc i pc s \<equiv> s\<lparr> ts_pc := (ts_pc s)(i := pc) \<rparr>"

text \<open>The critical section of a worker that did not see \<open>m_shutdown\<close>: pop the front.\<close>

definition pop_msg :: "nat \<Rightarrow> th_sys \<Rightarrow> th_sys" where
  "pop_msg i s =
     (case m_msg_queue (ts_pool s) of
        [] \<Rightarrow> s\<lparr> ts_bad_pop := True \<rparr>
      | m # q \<Rightarrow>
          set_pc i (Th_got m)
            (s\<lparr> ts_pool := (ts_pool s)\<lparr> m_msg_queue := q,
                  m_msg_queue_size := m_msg_queue_size (ts_pool s) - 1 \<rparr>,
                ts_taken := ts_taken s @ [m] \<rparr>))"

text \<open>
  Steps of worker \<open>i\<close>, one rule per atomic action of \<open>th_func\<close>. The result of \<open>sem_wait\<close> is not
  looked at, so a call that a signal handler interrupts (the handlers are installed without
  \<open>SA_RESTART\<close>) goes on like one that took a unit.
\<close>

inductive worker_step :: "nat \<Rightarrow> th_sys \<Rightarrow> th_sys \<Rightarrow> bool" for i where
  w_sem: "ts_pc s i = Th_wait \<Longrightarrow> 0 < m_th_pool_sem (ts_pool s) \<Longrightarrow>
    worker_step i s (set_pc i Th_check
      (s\<lparr> ts_pool := (ts_pool s)\<lparr> m_th_pool_sem := m_th_pool_sem (ts_pool s) - 1 \<rparr> \<rparr>))"
| w_intr: "ts_pc s i = Th_wait \<Longrightarrow>
    worker_step i s (set_pc i Th_check (s\<lparr> ts_intr := ts_intr s + 1 \<rparr>))"
| w_nonempty: "ts_pc s i = Th_check \<Longrightarrow> 0 < m_msg_queue_size (ts_pool s) \<Longrightarrow>
    worker_step i s (set_pc i Th_lock s)"
| w_empty: "ts_pc s i = Th_check \<Longrightarrow> m_msg_queue_size (ts_pool s) = 0 \<Longrightarrow>
    worker_step i s (set_pc i Th_wait s)"
| w_lock: "ts_pc s i = Th_lock \<Longrightarrow> \<forall>j. ts_pc s j \<noteq> Th_locked \<Longrightarrow>
    worker_step i s (set_pc i Th_locked s)"
| w_shutdown: "ts_pc s i = Th_locked \<Longrightarrow> m_shutdown (ts_pool s) \<Longrightarrow>
    worker_step i s (set_pc i Th_exit s)"
| w_pop: "ts_pc s i = Th_locked \<Longrightarrow> \<not> m_shutdown (ts_pool s) \<Longrightarrow>
    worker_step i s (pop_msg i s)"
| w_run: "ts_pc s i = Th_got m \<Longrightarrow>
    worker_step i s (set_pc i (Th_run m)
      (s\<lparr> ts_pool := (ts_pool s)\<lparr> m_running_cnt := m_running_cnt (ts_pool s) + 1 \<rparr> \<rparr>))"
| w_done: "ts_pc s i = Th_run m \<Longrightarrow>
    worker_step i s (set_pc i Th_wait
      (s\<lparr> ts_pool := (ts_pool s)\<lparr> m_running_cnt := m_running_cnt (ts_pool s) - 1 \<rparr> \<rparr>))"

inductive_simps worker_step_iff: "worker_step i s t"

text \<open>
  Steps of the event loop thread: push inside its critical section, then post; and
  \<open>destory_all\<close>, which only sets the flag before it joins the threads.
\<close>

inductive prod_step :: "th_sys \<Rightarrow> th_sys \<Rightarrow> bool" where
  p_push: "ts_prod s = Pr_idle \<Longrightarrow> \<forall>j. ts_pc s j \<noteq> Th_locked \<Longrightarrow>
    prod_step s (s\<lparr> ts_pool := (ts_pool s)\<lparr> m_msg_queue := m_msg_queue (ts_pool s) @ [m],
                      m_msg_queue_size := m_msg_queue_size (ts_pool s) + 1 \<rparr>,
                    ts_prod := Pr_post, ts_put := ts_put s @ [m] \<rparr>)"
| p_post: "ts_prod s = Pr_post \<Longrightarrow>
    prod_step s (s\<lparr> ts_pool := signal_to_th now (ts_pool s), ts_prod := Pr_idle \<rparr>)"
| p_shutdown: "ts_prod s = Pr_idle \<Longrightarrow>
    prod_step s (s\<lparr> ts_pool := (ts_pool s)\<lparr> m_shutdown := True \<rparr> \<rparr>)"

inductive_cases prod_stepE: "prod_step s t"

definition th_init :: "nat \<Rightarrow> th_sys" where
  "th_init n =
     \<lparr> ts_pool = Mgx_th_pool\<lparr> m_th_cnt := int n \<rparr>, ts_pc = (\<lambda>i. if i < n then Th_wait else Th_exit),
       ts_prod = Pr_idle, ts_put = [], ts_taken = [], ts_bad_pop = False, ts_intr = 0 \<rparr>"

text \<open>A step of the whole system with \<open>n\<close> workers, and the states it reaches.\<close>

inductive th_step :: "nat \<Rightarrow> th_sys \<Rightarrow> th_sys \<Rightarrow> bool" for n where
  th_worker: "i < n \<Longrightarrow> worker_step i s t \<Longrightarrow> th_step n s t"
| th_prod: "prod_step s t \<Longrightarrow> th_step n s t"

abbreviation th_reachable :: "nat \<Rightarrow> th_sys \<Rightarrow> bool" where
  "th_reachable n s \<equiv> (th_step n)\<^sup>*\<^sup>* (th_init n) s"

section \<open>Invariant\<close>

text \<open>A worker whose wait is over and that has not popped yet.\<close>

definition claims_msg :: "th_pc \<Rightarrow> bool" where
  "claims_msg pc \<longleftrightarrow> pc = Th_check \<or> pc = Th_lock \<or> pc = Th_locked"

definition claimers :: "nat \<Rightarrow> (nat \<Rightarrow> th_pc) \<Rightarrow> nat set" where
  "claimers n pcs = {i. i < n \<and> claims_msg (pcs i)}"

text \<open>
  Semaphore units, claiming workers and a pending \<open>sem_post\<close> together exceed the queue by at most
  the number of interrupted waits, and as long as nobody shut the pool down they are never
  fewer than the messages. A single worker finds what it has seen.
\<close>

definition tickets :: "nat \<Rightarrow> th_sys \<Rightarrow> nat" where
  "tickets n s = m_th_pool_sem (ts_pool s) + card (claimers n (ts_pc s)) + of_bool (ts_prod s = Pr_post)"

definition lone_claim :: "nat \<Rightarrow> th_sys \<Rightarrow> bool" where
  "lone_claim n s \<longleftrightarrow> (n \<le> 1 \<longrightarrow> \<not> ts_bad_pop s \<and>
     (\<forall>i < n. ts_pc s i \<in> {Th_lock, Th_locked} \<longrightarrow> m_msg_queue (ts_pool s) \<noteq> []))"

definition th_inv :: "nat \<Rightarrow> th_sys \<Rightarrow> bool" where
  "th_inv n s \<longleftrightarrow>
     m_msg_queue_size (ts_pool s) = length (m_msg_queue (ts_pool s)) \<and>
     tickets n s \<le> length (m_msg_queue (ts_pool s)) + ts_intr s \<and>
     (m_shutdown (ts_pool s) \<or> length (m_msg_queue (ts_pool s)) \<le> tickets n s) \<and>
     ts_taken s @ m_msg_queue (ts_pool s) = ts_put s \<and>
     (ts_intr s = 0 \<longrightarrow> \<not> ts_bad_pop s) \<and> lone_claim n s"

lemma finite_claimers [simp]: "finite (claimers n pcs)"
  by (simp add: claimers_def)

lemma in_claimers: "i < n \<Longrightarrow> (i \<in> claimers n pcs) = claims_msg (pcs i)"
  by (simp add: claimers_def)

lemma card_claimers_upd:
  assumes "i < n"
  shows "card (claimers n (pcs(i := pc))) + of_bool (claims_msg (pcs i)) =
    card (claimers n pcs) + of_bool (claims_msg pc)"
proof -
  have "claimers n (pcs(i := pc)) =
     (if claims_msg pc then insert i (claimers n pcs) else claimers n pcs - {i})"
    using assms by (auto simp: claimers_def)
  then show ?thesis
    using assms card_Suc_Diff1 [of "claimers n pcs" i]
    by (cases "claims_msg pc"; cases "claims_msg (pcs i)")
      (auto simp: in_claimers insert_absorb card_insert_if)
qed

lemma claimer_counted:
  assumes "i < n" and "claims_msg (ts_pc s i)"
  shows "0 < card (claimers n (ts_pc s))"
proof -
  have "i \<in> claimers n (ts_pc s)" using assms by (simp add: in_claimers)
  then show ?thesis by (auto simp: card_gt_0_iff)
qed

lemma claimer_nonempty:
  assumes "th_inv n s" and "i < n" and "claims_msg (ts_pc s i)" and "ts_intr s = 0"
  shows "m_msg_queue (ts_pool s) \<noteq> []"
  using assms(1,4) claimer_counted [of i n s] assms(2,3) by (auto simp: th_inv_def tickets_def)

lemmas claim_simps = claims_msg_def tickets_def th_inv_def lone_claim_def

lemma worker_step_inv:
  assumes "worker_step i s t" and "i < n" and inv: "th_inv n s"
  shows "th_inv n t"
  using assms(1)
proof (cases rule: worker_step.cases)
  case w_sem
  with inv card_claimers_upd [OF assms(2), of "ts_pc s" Th_check] show ?thesis
    by (auto simp: claim_simps)
next
  case w_intr
  with inv card_claimers_upd [OF assms(2), of "ts_pc s" Th_check] show ?thesis
    by (auto simp: claim_simps)
next
  case w_nonempty
  with inv card_claimers_upd [OF assms(2), of "ts_pc s" Th_lock] show ?thesis
    by (auto simp: claim_simps)
next
  case w_empty
  with inv card_claimers_upd [OF assms(2), of "ts_pc s" Th_wait] show ?thesis
    by (auto simp: claim_simps)
next
  case w_lock
  with inv card_claimers_upd [OF assms(2), of "ts_pc s" Th_locked] show ?thesis
    by (auto simp: claim_simps)
next
  case w_shutdown
  with inv card_claimers_upd [OF assms(2), of "ts_pc s" Th_exit] show ?thesis
    by (auto simp: claim_simps)
next
  case w_pop
  show ?thesis
  proof (cases "m_msg_queue (ts_pool s)")
    case Nil
    with w_pop claimer_nonempty [OF inv assms(2)] have "ts_intr s \<noteq> 0" by (auto simp: claims_msg_def)
    moreover have "\<not> n \<le> 1"
      using Nil w_pop inv assms(2) by (auto simp: th_inv_def lone_claim_def)
    ultimately show ?thesis
      using w_pop inv Nil by (simp add: claim_simps pop_msg_def)
  next
    case (Cons m q)
    with w_pop inv card_claimers_upd [OF assms(2), of "ts_pc s" "Th_got m"] assms(2) show ?thesis
      by (auto simp: claim_simps pop_msg_def)
  qed
next
  case (w_run m)
  with inv card_claimers_upd [OF assms(2), of "ts_pc s" "Th_run m"] show ?thesis
    by (auto simp: claim_simps)
next
  case (w_done m)
  with inv card_claimers_upd [OF assms(2), of "ts_pc s" Th_wait] show ?thesis
    by (auto simp: claim_simps)
qed

lemma signal_to_th_fields [simp]:
  "m_msg_queue (signal_to_th now p) = m_msg_queue p"
  "m_msg_queue_size (signal_to_th now p) = m_msg_queue_size p"
  "m_th_pool_sem (signal_to_th now p) = m_th_pool_sem p + 1"
  "m_shutdown (signal_to_th now p) = m_shutdown p"
  by (simp_all add: signal_to_th_def Let_def)

lemma prod_step_inv: "prod_step s t \<Longrightarrow> th_inv n s \<Longrightarrow> th_inv n t"
  by (erule prod_stepE) (auto simp: th_inv_def tickets_def lone_claim_def)

interpretation th: step_invariant "th_step n" "th_inv n" for n
  by unfold_locales (auto elim!: th_step.cases intro: worker_step_inv prod_step_inv)

lemma th_init_inv: "th_inv n (th_init n)"
  by (simp add: th_inv_def tickets_def lone_claim_def th_init_def Mgx_th_pool_def claimers_def claims_msg_def)

lemma th_reachable_inv: "th_reachable n s \<Longrightarrow> th_inv n s"
  by (erule th.run_inv) (rule th_init_inv)

section \<open>Properties\<close>

text \<open>A pool with one worker and one message pushed and posted, for the witnesses.\<close>

definition demo_posted :: th_sys where
  "demo_posted = (th_init 1)
     \<lparr> ts_pool := signal_to_th 0 ((ts_pool (th_init 1))\<lparr> m_msg_queue := [64], m_msg_queue_size := 1 \<rparr>),
       ts_put := [64] \<rparr>"

lemma demo_posted_reachable: "th_reachable 1 demo_posted"
proof -
  let ?s1 = "(th_init 1)\<lparr> ts_pool := (ts_pool (th_init 1))
    \<lparr> m_msg_queue := m_msg_queue (ts_pool (th_init 1)) @ [64],
      m_msg_queue_size := m_msg_queue_size (ts_pool (th_init 1)) + 1 \<rparr>,
    ts_prod := Pr_post, ts_put := ts_put (th_init 1) @ [64] \<rparr>"
  have "prod_step (th_init 1) ?s1"
    by (rule p_push) (simp_all add: th_init_def)
  then have "th_step 1 (th_init 1) ?s1" by (rule th_prod)
  moreover have "th_step 1 ?s1 demo_posted"
    using th_prod [OF p_post [of ?s1 0]] by (simp add: demo_posted_def th_init_def Mgx_th_pool_def)
  ultimately show ?thesis by (rule converse_rtranclp_into_rtranclp [OF _ r_into_rtranclp])
qed

text \<open>
  C8: when the unlocked test of the queue size is safe. The size counter is always exact. If no
  wait has been interrupted by a signal, or if there is only one worker, a worker inside its
  critical section finds a message: \<open>front()\<close> and \<open>pop()\<close> are never called on an empty queue,
  under every interleaving of the event loop with the workers. With two workers one interrupted
  wait is enough to break this, see \<open>interrupted_wait_pops_empty\<close>.
\<close>

theorem workers_never_pop_empty:
  assumes "th_reachable n s"
  shows "m_msg_queue_size (ts_pool s) = length (m_msg_queue (ts_pool s)) \<and>
    (ts_intr s = 0 \<or> n \<le> 1 \<longrightarrow> \<not> ts_bad_pop s \<and>
      (\<forall>i < n. ts_pc s i = Th_locked \<longrightarrow> m_msg_queue (ts_pool s) \<noteq> []))"
proof -
  have inv: "th_inv n s" by (rule th_reachable_inv [OF assms])
  have "m_msg_queue (ts_pool s) \<noteq> []" if "ts_intr s = 0 \<or> n \<le> 1" "i < n" "ts_pc s i = Th_locked" for i
  proof (cases "n \<le> 1")
    case True
    with inv that(2,3) show ?thesis by (simp add: th_inv_def lone_claim_def)
  next
    case False
    with that claimer_nonempty [OF inv that(2)] show ?thesis by (simp add: claims_msg_def)
  qed
  with inv show ?thesis by (simp add: th_inv_def lone_claim_def)
qed

theorem workers_never_pop_empty_witness:
  "\<not> ts_bad_pop demo_posted \<and>
   m_msg_queue_size (ts_pool demo_posted) = length (m_msg_queue (ts_pool demo_posted))"
  using workers_never_pop_empty [OF demo_posted_reachable] by simp

text \<open>
  An interrupted wait makes the pool pop an empty queue. One message is queued; the wait of one
  worker is interrupted, the other worker takes the unit, both see the size one before either
  has popped, and the second pops the empty queue.
\<close>

lemma th_run_step: "th_reachable n s \<Longrightarrow> i < n \<Longrightarrow> worker_step i s t \<Longrightarrow> th_reachable n t"
  by (erule rtranclp.rtrancl_into_rtrancl) (rule th_worker)

theorem interrupted_wait_pops_empty:
  assumes "2 \<le> n"
  shows "\<exists>s. th_reachable n s \<and> ts_intr s = 1 \<and> ts_bad_pop s"
proof -
  let ?s0 = "th_init n"
  let ?s1 = "?s0\<lparr> ts_pool := (ts_pool ?s0)\<lparr> m_msg_queue := m_msg_queue (ts_pool ?s0) @ [64],
      m_msg_queue_size := m_msg_queue_size (ts_pool ?s0) + 1 \<rparr>, ts_prod := Pr_post, ts_put := ts_put ?s0 @ [64] \<rparr>"
  define s2 where "s2 = ?s1\<lparr> ts_pool := signal_to_th 0 (ts_pool ?s1), ts_prod := Pr_idle \<rparr>"
  define s3 where "s3 = set_pc 0 Th_check (s2\<lparr> ts_intr := ts_intr s2 + 1 \<rparr>)"
  define s4 where "s4 = set_pc 1 Th_check (s3\<lparr> ts_pool := (ts_pool s3)\<lparr> m_th_pool_sem := m_th_pool_sem (ts_pool s3) - 1 \<rparr> \<rparr>)"
  define s5 where "s5 = set_pc 0 Th_lock s4"
  define s6 where "s6 = set_pc 1 Th_lock s5"
  define s7 where "s7 = set_pc 0 Th_locked s6"
  define s8 where "s8 = pop_msg 0 s7"
  define s9 where "s9 = set_pc 1 Th_locked s8"
  have n: "0 < n" "1 < n" using assms by simp_all
  have "prod_step ?s0 ?s1" by (rule p_push) (simp_all add: th_init_def)
  then have "th_step n ?s0 ?s1" by (rule th_prod)
  then have "th_reachable n ?s1" by (rule r_into_rtranclp)
  moreover have "prod_step ?s1 s2" unfolding s2_def by (rule p_post) simp
  then have "th_step n ?s1 s2" by (rule th_prod)
  ultimately have r2: "th_reachable n s2" by (rule rtranclp.rtrancl_into_rtrancl)
  have f2: "m_msg_queue (ts_pool s2) = [64]" "m_msg_queue_size (ts_pool s2) = 1" "m_th_pool_sem (ts_pool s2) = 1"
    "\<not> m_shutdown (ts_pool s2)" "ts_pc s2 = (\<lambda>i. if i < n then Th_wait else Th_exit)" "ts_intr s2 = 0"
    by (simp_all add: s2_def th_init_def Mgx_th_pool_def)
  have "worker_step 0 s2 s3" unfolding s3_def by (rule w_intr) (simp add: f2 n)
  from th_run_step [OF r2 n(1) this] have r3: "th_reachable n s3" .
  have "worker_step 1 s3 s4" unfolding s4_def by (rule w_sem) (use n(2) in \<open>simp_all add: s3_def f2\<close>)
  from th_run_step [OF r3 n(2) this] have r4: "th_reachable n s4" .
  have "worker_step 0 s4 s5" unfolding s5_def by (rule w_nonempty) (simp_all add: s4_def s3_def f2)
  from th_run_step [OF r4 n(1) this] have r5: "th_reachable n s5" .
  have "worker_step 1 s5 s6" unfolding s6_def by (rule w_nonempty) (simp_all add: s5_def s4_def s3_def f2)
  from th_run_step [OF r5 n(2) this] have r6: "th_reachable n s6" .
  have "worker_step 0 s6 s7" unfolding s7_def
    by (rule w_lock) (simp_all add: s6_def s5_def s4_def s3_def f2)
  from th_run_step [OF r6 n(1) this] have r7: "th_reachable n s7" .
  have "worker_step 0 s7 s8" unfolding s8_def by (rule w_pop) (simp_all add: s7_def s6_def s5_def s4_def s3_def f2)
  from th_run_step [OF r7 n(1) this] have r8: "th_reachable n s8" .
  have f8: "m_msg_queue (ts_pool s8) = []" "\<not> m_shutdown (ts_pool s8)" "ts_intr s8 = 1"
    "ts_pc s8 = (\<lambda>i. if i < n then Th_wait else Th_exit)(0 := Th_got 64, 1 := Th_lock)"
    by (simp_all add: s8_def pop_msg_def s7_def s6_def s5_def s4_def s3_def f2 fun_eq_iff)
  have "worker_step 1 s8 s9" unfolding s9_def by (rule w_lock) (simp_all add: f8)
  from th_run_step [OF r8 n(2) this] have r9: "th_reachable n s9" .
  have "worker_step 1 s9 (pop_msg 1 s9)" by (rule w_pop) (simp_all add: s9_def f8)
  from th_run_step [OF r9 n(2) this] have "th_reachable n (pop_msg 1 s9)" .
  moreover have "ts_intr (pop_msg 1 s9) = 1 \<and> ts_bad_pop (pop_msg 1 s9)"
    by (simp add: pop_msg_def s9_def f8)
  ultimately show ?thesis by blast
qed

theorem interrupted_wait_pops_empty_witness: "\<exists>s. th_reachable 500 s \<and> ts_intr s = 1 \<and> ts_bad_pop s"
  by (rule interrupted_wait_pops_empty) simp

text \<open>
  C9: every message is taken at most once and in arrival order, as long as no empty queue has been
  popped (C8 says when that is excluded): under every interleaving, interrupted waits included,
  the messages the workers popped so far, followed by the queue, are the messages pushed.
\<close>

theorem messages_fifo_exactly_once:
  assumes "th_reachable n s" and "\<not> ts_bad_pop s"
  shows "ts_taken s @ m_msg_queue (ts_pool s) = ts_put s"
  using th_reachable_inv [OF assms(1)] by (simp add: th_inv_def)

theorem messages_fifo_exactly_once_witness:
  "ts_taken demo_posted @ m_msg_queue (ts_pool demo_posted) = ts_put demo_posted"
  by (rule messages_fifo_exactly_once [OF demo_posted_reachable]) (simp add: demo_posted_def th_init_def)

text \<open>
  C10: no wake-up is lost, interrupted waits included. When messages are queued and no empty queue has
  been popped, then the pool has been shut down, or the event loop is still between its push and
  its post, or there are at least as many semaphore units and workers on their way to a message as
  there are messages; in particular a unit is available or a worker is on its way.
\<close>

theorem queued_message_has_worker:
  assumes "th_reachable n s" and "\<not> ts_bad_pop s" and "m_msg_queue (ts_pool s) \<noteq> []"
  shows "m_shutdown (ts_pool s) \<or> ts_prod s = Pr_post \<or>
    length (m_msg_queue (ts_pool s)) \<le> m_th_pool_sem (ts_pool s) + card (claimers n (ts_pc s)) \<and>
    (0 < m_th_pool_sem (ts_pool s) \<or>
      (\<exists>i < n. ts_pc s i = Th_check \<or> ts_pc s i = Th_lock \<or> ts_pc s i = Th_locked))"
proof (cases "m_shutdown (ts_pool s) \<or> ts_prod s = Pr_post")
  case False
  let ?n = "length (m_msg_queue (ts_pool s))" and ?units = "m_th_pool_sem (ts_pool s)"
  have le: "?n \<le> ?units + card (claimers n (ts_pc s))"
    using False th_reachable_inv [OF assms(1)] by (simp add: th_inv_def tickets_def)
  have "0 < ?units \<or> (\<exists>i < n. claims_msg (ts_pc s i))"
  proof (cases "claimers n (ts_pc s) = {}")
    case True
    moreover have "0 < ?n" using assms(3) by simp
    ultimately have "0 < ?units" using le by (simp only: card.empty)
    then show ?thesis ..
  next
    case False
    then show ?thesis by (auto simp: claimers_def)
  qed
  with le show ?thesis by (simp add: claims_msg_def)
qed blast

theorem queued_message_has_worker_witness:
  "0 < m_th_pool_sem (ts_pool demo_posted) \<or>
   (\<exists>i < 1. ts_pc demo_posted i = Th_check \<or> ts_pc demo_posted i = Th_lock \<or>
     ts_pc demo_posted i = Th_locked)"
  using queued_message_has_worker [OF demo_posted_reachable]
  by (simp add: demo_posted_def th_init_def Mgx_th_pool_def)

text \<open>
  \<open>destory_all\<close> can wait for ever. It sets the flag and joins the threads without posting
  the semaphore. A worker that is waiting while no message is queued never sees the flag, which
  is tested behind the test of the queue size: whatever the workers do from then on, it keeps
  waiting (or goes back to it after an interrupted wait), and \<open>pthread_join\<close> never returns.
\<close>

definition blocked :: "nat \<Rightarrow> th_sys \<Rightarrow> bool" where
  "blocked i s \<longleftrightarrow> m_msg_queue (ts_pool s) = [] \<and> m_msg_queue_size (ts_pool s) = 0 \<and> ts_pc s i \<in> {Th_wait, Th_check}"

lemma blocked_step: "worker_step j s t \<Longrightarrow> blocked i s \<Longrightarrow> blocked i t"
  by (cases "j = i") (auto simp: worker_step_iff blocked_def pop_msg_def)

interpretation blk: step_invariant "\<lambda>s t. \<exists>j. worker_step j s t" "blocked i" for i
  by unfold_locales (use blocked_step in blast)

theorem shutdown_leaves_workers_blocked:
  assumes "th_reachable n s" and "m_msg_queue (ts_pool s) = []" and "ts_pc s i = Th_wait"
    and "(\<lambda>s t. \<exists>j. worker_step j s t)\<^sup>*\<^sup>* (s\<lparr> ts_pool := (ts_pool s)\<lparr> m_shutdown := True \<rparr> \<rparr>) t"
  shows "ts_pc t i \<in> {Th_wait, Th_check}"
proof -
  have "blocked i (s\<lparr> ts_pool := (ts_pool s)\<lparr> m_shutdown := True \<rparr> \<rparr>)"
    using th_reachable_inv [OF assms(1)] assms(2,3) by (simp add: blocked_def th_inv_def)
  from blk.run_inv [OF assms(4) this] show ?thesis by (simp add: blocked_def)
qed

theorem shutdown_leaves_workers_blocked_witness:
  "ts_pc ((th_init 1)\<lparr> ts_pool := (ts_pool (th_init 1))\<lparr> m_shutdown := True \<rparr> \<rparr>) 0 \<in> {Th_wait, Th_check}"
  by (rule shutdown_leaves_workers_blocked [OF rtranclp.rtrancl_refl _ _ rtranclp.rtrancl_refl])
    (simp_all add: th_init_def Mgx_th_pool_def)

end
