(* ===== verification/Mgx_Request.thy ===== *)
theory Mgx_Request
  imports Mgx_Conn Mgx_Thread_Pool
begin

text \<open>
  \<^verbatim>\<open>src/net/mgx_socket_request.cpp\<close>, receiving side: the per-connection state machine that
  cuts the TCP byte stream into packages, whatever the segmentation, and hands complete
  messages to the thread pool.
\<close>

section \<open>Operations\<close>

text \<open>The two globals of a worker process the handlers work on.\<close>

record worker =
  wk_sock :: mgx_socket
  wk_pool :: th_pool

abbreviation wconn :: "worker \<Rightarrow> conn_ptr \<Rightarrow> mgx_conn" where
  "wconn w c \<equiv> conns (wk_sock w) c"

definition upd_wconn :: "conn_ptr \<Rightarrow> (mgx_conn \<Rightarrow> mgx_conn) \<Rightarrow> worker \<Rightarrow> worker" where
  [mgx_defs]: "upd_wconn c f w = w\<lparr> wk_sock := upd_conn c f (wk_sock w) \<rparr>"

text \<open>What \<open>recv\<close> reports: the bytes it stored (none at end of stream) or an error.\<close>

datatype recv_ret = Recv_n bytes | Recv_err errno

text \<open>
  The environment of one call of the read handler: the clock, the result of \<open>recv\<close>, the
  address and the (uninitialised) content that \<open>new char[]\<close> would return.
\<close>

record recv_io =
  ri_now :: int
  ri_ret :: recv_ret
  ri_addr :: addr
  ri_junk :: bytes

definition raw_bytes :: "bytes \<Rightarrow> nat \<Rightarrow> bytes" where
  "raw_bytes junk n = take n (junk @ replicate n 0)"

lemma length_raw_bytes [simp]: "length (raw_bytes junk n) = n"
  by (simp add: raw_bytes_def)

definition patch :: "nat \<Rightarrow> bytes \<Rightarrow> bytes \<Rightarrow> bytes" where
  "patch off bs mem = take off mem @ bs @ drop (off + length bs) mem"

text \<open>The store performed by \<open>recv(fd, precv_buf, ...)\<close>.\<close>

definition store_recv :: "conn_ptr \<Rightarrow> bytes \<Rightarrow> mgx_socket \<Rightarrow> mgx_socket" where
  "store_recv c bs s =
     (case precv_buf (conns s c) of
        RP_null \<Rightarrow> raise_fault Out_of_bounds s
      | RP_hdr off \<Rightarrow>
          if off + length bs \<le> length (hdr_buf (conns s c))
          then upd_conn c (\<lambda>k. k\<lparr> hdr_buf := patch off bs (hdr_buf k) \<rparr>) s
          else raise_fault Out_of_bounds s
      | RP_mem a off \<Rightarrow>
          (case bufs s a of
             None \<Rightarrow> raise_fault Bad_deref s
           | Some b \<Rightarrow>
               if off + length bs \<le> length (buf_data b)
               then s\<lparr> bufs := (bufs s)(a \<mapsto> b\<lparr> buf_data := patch off bs (buf_data b) \<rparr>) \<rparr>
               else raise_fault Out_of_bounds s))"

text \<open>\<open>recv_process\<close>: the returned size and the state after the error handling.\<close>

definition recv_process :: "int \<Rightarrow> conn_ptr \<Rightarrow> recv_ret \<Rightarrow> mgx_socket \<Rightarrow> int \<times> mgx_socket" where
  "recv_process now c ret s =
     (case ret of
        Recv_n bs \<Rightarrow>
          if bs = [] then (-1, insert_recy_conn_queue now c s)
          else (int (length bs), s)
      | Recv_err e \<Rightarrow>
          if e = EAGAIN then (-1, s)
          else if e = EINTR then (-1, s)
          else (-1, close_conn c s))"

definition restore_recv :: "mgx_conn \<Rightarrow> mgx_conn" where
  "restore_recv k = k\<lparr> recv_stat := PKG_HDR_START, precv_buf := RP_hdr 0,
     rest_recv_size := word_of_nat m_pkg_hdr_size \<rparr>"

definition read_request_handler_process_v2 :: "int \<Rightarrow> conn_ptr \<Rightarrow> worker \<Rightarrow> worker" where
  "read_request_handler_process_v2 now c w =
     (let a = (case precv_mem_addr (wconn w c) of None \<Rightarrow> 0 | Some a \<Rightarrow> a);
          w1 = w\<lparr> wk_pool := insert_msg_to_queue_and_signal now a (wk_pool w) \<rparr>
      in upd_wconn c (\<lambda>k. restore_recv (k\<lparr> precv_mem_addr := None \<rparr>)) w1)"

definition read_request_handler_process_v1 :: "recv_io \<Rightarrow> conn_ptr \<Rightarrow> worker \<Rightarrow> worker" where
  "read_request_handler_process_v1 io c w =
     (let k = wconn w c;
          size = unat (pkg_size (load_pkg_hdr (hdr_buf k)))
      in if size < m_pkg_hdr_size \<or> size > PKG_MAX_SIZE - 1000
         then upd_wconn c restore_recv w
         else
           let a = ri_addr io;
               buf = \<lparr> buf_hdr = mk_msg_hdr c (m_cur_seq k),
                       buf_data = patch 0 (take m_pkg_hdr_size (hdr_buf k))
                                    (raw_bytes (ri_junk io) size) \<rparr>;
               w1 = upd_wconn c (\<lambda>k. k\<lparr> precv_mem_addr := Some a \<rparr>)
                      (w\<lparr> wk_sock := new_buf a buf (wk_sock w) \<rparr>)
           in if size = m_pkg_hdr_size then read_request_handler_process_v2 (ri_now io) c w1
              else upd_wconn c (\<lambda>k. k\<lparr> recv_stat := PKG_BODY_START,
                     precv_buf := RP_mem a m_pkg_hdr_size,
                     rest_recv_size := word_of_nat (size - m_pkg_hdr_size) \<rparr>) w1)"

definition advance :: "nat \<Rightarrow> mgx_conn \<Rightarrow> mgx_conn" where
  "advance n k =
     k\<lparr> precv_buf := (case precv_buf k of RP_null \<Rightarrow> RP_null | RP_hdr off \<Rightarrow> RP_hdr (off + n)
                      | RP_mem a off \<Rightarrow> RP_mem a (off + n)),
        rest_recv_size := rest_recv_size k - word_of_nat n \<rparr>"

definition read_request_handler :: "recv_io \<Rightarrow> conn_ptr \<Rightarrow> worker \<Rightarrow> worker" where
  "read_request_handler io c w =
     (let (n, s1) = recv_process (ri_now io) c (ri_ret io) (wk_sock w)
      in if n \<le> 0 then w\<lparr> wk_sock := s1 \<rparr>
         else
           let bs = (case ri_ret io of Recv_n bs \<Rightarrow> bs | Recv_err _ \<Rightarrow> []);
               w1 = w\<lparr> wk_sock := store_recv c bs s1 \<rparr>;
               k = wconn w1 c;
               st = recv_stat k
           in if st = PKG_HDR_START then
                (if n = int m_pkg_hdr_size then read_request_handler_process_v1 io c w1
                 else upd_wconn c (\<lambda>k. advance (nat n) (k\<lparr> recv_stat := PKG_HDR_RECEIVING \<rparr>)) w1)
              else if st = PKG_HDR_RECEIVING then
                (if n = int (unat (rest_recv_size k)) then read_request_handler_process_v1 io c w1
                 else upd_wconn c (advance (nat n)) w1)
              else if st = PKG_BODY_START then
                (if n = int (unat (rest_recv_size k))
                 then read_request_handler_process_v2 (ri_now io) c w1
                 else upd_wconn c (\<lambda>k. advance (nat n) (k\<lparr> recv_stat := PKG_BODY_RECEIVING \<rparr>)) w1)
              else if st = PKG_BODY_RECEIVING then
                (if n = int (unat (rest_recv_size k))
                 then read_request_handler_process_v2 (ri_now io) c w1
                 else upd_wconn c (advance (nat n)) w1)
              else w1)"

section \<open>Specification: framing of a byte stream\<close>

text \<open>
  The specification forgets buffers and states: it cuts a byte sequence into frames. A header
  whose size field is out of range is skipped.
\<close>

definition frame_size :: "bytes \<Rightarrow> nat" where
  "frame_size bs = unat (pkg_size (load_pkg_hdr bs))"

definition bad_size :: "nat \<Rightarrow> bool" where
  "bad_size n \<longleftrightarrow> n < m_pkg_hdr_size \<or> n > PKG_MAX_SIZE - 1000"

function split_frames :: "bytes \<Rightarrow> bytes list \<times> bytes" where
  "split_frames bs =
     (if length bs < m_pkg_hdr_size then ([], bs)
      else if bad_size (frame_size bs) then split_frames (drop m_pkg_hdr_size bs)
      else if length bs < frame_size bs then ([], bs)
      else (let (fs, r) = split_frames (drop (frame_size bs) bs)
            in (take (frame_size bs) bs # fs, r)))"
  by pat_completeness auto
termination
  by (relation "measure length") (auto simp: m_pkg_hdr_size_def bad_size_def)

declare split_frames.simps [simp del]

lemma frame_size_append:
  "m_pkg_hdr_size \<le> length bs \<Longrightarrow> frame_size (bs @ cs) = frame_size bs"
  by (simp add: frame_size_def load_pkg_hdr_def m_pkg_hdr_size_def)

lemma frame_size_take:
  "m_pkg_hdr_size \<le> n \<Longrightarrow> frame_size (take n bs) = frame_size bs"
  by (simp add: frame_size_def load_pkg_hdr_def m_pkg_hdr_size_def min_def drop_take)

lemma split_frames_append:
  "split_frames (xs @ ys) =
     (let (f1, r1) = split_frames xs; (f2, r2) = split_frames (r1 @ ys) in (f1 @ f2, r2))"
proof (induction xs rule: split_frames.induct)
  case (1 xs)
  consider (short) "length xs < m_pkg_hdr_size"
    | (bad) "m_pkg_hdr_size \<le> length xs" "bad_size (frame_size xs)"
    | (part) "m_pkg_hdr_size \<le> length xs" "\<not> bad_size (frame_size xs)" "length xs < frame_size xs"
    | (full) "m_pkg_hdr_size \<le> length xs" "\<not> bad_size (frame_size xs)" "frame_size xs \<le> length xs"
    by linarith
  then show ?case
  proof cases
    case short
    then show ?thesis by (simp add: split_frames.simps [of xs])
  next
    case bad
    then show ?thesis
      using 1(1)
      by (simp add: split_frames.simps [of xs] split_frames.simps [of "xs @ ys"] frame_size_append)
  next
    case part
    then show ?thesis by (simp add: split_frames.simps [of xs])
  next
    case full
    then show ?thesis
      using 1(2)
      by (simp add: split_frames.simps [of xs] split_frames.simps [of "xs @ ys"] frame_size_append
          split: prod.splits)
  qed
qed

section \<open>Relating the connection state to the unframed bytes\<close>

text \<open>
  \<open>recv_rel c w pend\<close>: the connection has received \<open>pend\<close> since the last frame boundary, and
  its fields are where these bytes put them: collecting a header in \<open>hdr_buf\<close>, or a body in
  the message buffer.
\<close>

definition hdr_rel :: "mgx_conn \<Rightarrow> bytes \<Rightarrow> bool" where
  "hdr_rel k pend \<longleftrightarrow>
     length pend < m_pkg_hdr_size \<and>
     recv_stat k = (if pend = [] then PKG_HDR_START else PKG_HDR_RECEIVING) \<and>
     precv_buf k = RP_hdr (length pend) \<and>
     unat (rest_recv_size k) = m_pkg_hdr_size - length pend \<and>
     take (length pend) (hdr_buf k) = pend \<and> precv_mem_addr k = None"

definition body_rel :: "conn_ptr \<Rightarrow> mgx_socket \<Rightarrow> addr set \<Rightarrow> bytes \<Rightarrow> bool" where
  "body_rel c s queued pend \<longleftrightarrow>
     (\<exists>a b. m_pkg_hdr_size \<le> length pend \<and> \<not> bad_size (frame_size pend) \<and>
        length pend < frame_size pend \<and>
        recv_stat (conns s c) =
          (if length pend = m_pkg_hdr_size then PKG_BODY_START else PKG_BODY_RECEIVING) \<and>
        precv_buf (conns s c) = RP_mem a (length pend) \<and>
        unat (rest_recv_size (conns s c)) = frame_size pend - length pend \<and>
        precv_mem_addr (conns s c) = Some a \<and> bufs s a = Some b \<and>
        buf_hdr b = mk_msg_hdr c (m_cur_seq (conns s c)) \<and>
        length (buf_data b) = frame_size pend \<and> take (length pend) (buf_data b) = pend \<and>
        a \<notin> queued)"

definition recv_rel :: "conn_ptr \<Rightarrow> worker \<Rightarrow> bytes \<Rightarrow> bool" where
  "recv_rel c w pend \<longleftrightarrow>
     length (hdr_buf (wconn w c)) = PKG_HDR_BUF_SIZE \<and>
     set (m_msg_queue (wk_pool w)) \<subseteq> dom (bufs (wk_sock w)) \<and>
     (hdr_rel (wconn w c) pend \<or>
      body_rel c (wk_sock w) (set (m_msg_queue (wk_pool w))) pend)"

text \<open>The messages waiting in the pool, as buffers.\<close>

definition delivered :: "worker \<Rightarrow> mgx_buf option list" where
  "delivered w = map (bufs (wk_sock w)) (m_msg_queue (wk_pool w))"

definition msg_of :: "conn_ptr \<Rightarrow> u64 \<Rightarrow> bytes \<Rightarrow> mgx_buf option" where
  "msg_of c seq f = Some \<lparr> buf_hdr = mk_msg_hdr c seq, buf_data = f \<rparr>"

text \<open>One step of the implementation against one step of the specification.\<close>

definition recv_sim :: "conn_ptr \<Rightarrow> worker \<Rightarrow> bytes \<Rightarrow> worker \<Rightarrow> bool" where
  "recv_sim c w stream w' \<longleftrightarrow>
     recv_rel c w' (snd (split_frames stream)) \<and>
     delivered w' = delivered w @ map (msg_of c (m_cur_seq (wconn w c))) (fst (split_frames stream)) \<and>
     m_cur_seq (wconn w' c) = m_cur_seq (wconn w c) \<and>
     faults (wk_sock w') = faults (wk_sock w)"

lemma length_patch [simp]: "off + length bs \<le> length mem \<Longrightarrow> length (patch off bs mem) = length mem"
  by (simp add: patch_def)

lemma take_patch:
  "off \<le> length mem \<Longrightarrow> take (off + length bs) (patch off bs mem) = take off mem @ bs"
  by (simp add: patch_def min_def)

lemma patch_zero: "patch 0 bs mem = bs @ drop (length bs) mem"
  by (simp add: patch_def)

lemmas hdr_consts = m_pkg_hdr_size_def PKG_HDR_BUF_SIZE_def

lemma int_eq_uint: "(int n = uint x) = (n = unat x)" for x :: "'a::len word"
proof -
  have "(int n = uint x) = (int n = int (unat x))" by simp
  also have "\<dots> = (n = unat x)" by (rule of_nat_eq_iff)
  finally show ?thesis .
qed

lemma handler_data:
  assumes "ri_ret io = Recv_n bs" and "bs \<noteq> []"
  shows "read_request_handler io c w =
     (let w1 = w\<lparr> wk_sock := store_recv c bs (wk_sock w) \<rparr>;
          n = length bs; k = wconn w1 c; st = recv_stat k
      in if st = PKG_HDR_START then
           (if n = m_pkg_hdr_size then read_request_handler_process_v1 io c w1
            else upd_wconn c (\<lambda>k. advance n (k\<lparr> recv_stat := PKG_HDR_RECEIVING \<rparr>)) w1)
         else if st = PKG_HDR_RECEIVING then
           (if n = unat (rest_recv_size k) then read_request_handler_process_v1 io c w1
            else upd_wconn c (advance n) w1)
         else if st = PKG_BODY_START then
           (if n = unat (rest_recv_size k) then read_request_handler_process_v2 (ri_now io) c w1
            else upd_wconn c (\<lambda>k. advance n (k\<lparr> recv_stat := PKG_BODY_RECEIVING \<rparr>)) w1)
         else if st = PKG_BODY_RECEIVING then
           (if n = unat (rest_recv_size k) then read_request_handler_process_v2 (ri_now io) c w1
            else upd_wconn c (advance n) w1)
         else w1)"
  using assms by (simp add: read_request_handler_def recv_process_def Let_def int_eq_uint)

lemma split_frames_short: "length bs < m_pkg_hdr_size \<Longrightarrow> split_frames bs = ([], bs)"
  by (simp add: split_frames.simps [of bs])

lemma split_frames_partial:
  "m_pkg_hdr_size \<le> length bs \<Longrightarrow> \<not> bad_size (frame_size bs) \<Longrightarrow> length bs < frame_size bs \<Longrightarrow>
   split_frames bs = ([], bs)"
  by (simp add: split_frames.simps [of bs])

lemma split_frames_exact:
  "m_pkg_hdr_size \<le> length bs \<Longrightarrow> \<not> bad_size (frame_size bs) \<Longrightarrow> length bs = frame_size bs \<Longrightarrow>
   split_frames bs = ([bs], [])"
  by (simp add: split_frames.simps [of bs] split_frames_short hdr_consts)

lemma split_frames_bad:
  "length bs = m_pkg_hdr_size \<Longrightarrow> bad_size (frame_size bs) \<Longrightarrow> split_frames bs = ([], [])"
  by (simp add: split_frames.simps [of bs] split_frames_short hdr_consts)

lemma unat_word_small: "n < 2 ^ 32 \<Longrightarrow> unat (word_of_nat n :: u32) = n"
  using unat_word_of_nat_id [where ?'a = 32] by simp

lemma frame_size_less: "frame_size bs < 2 ^ 16"
  unfolding frame_size_def using unsigned_less [of "pkg_size (load_pkg_hdr bs)", where ?'a = nat] by simp

text \<open>A complete header \<open>h\<close>: what \<open>read_request_handler_process_v1\<close> does for each size.\<close>

lemma process_v1_cases:
  assumes "length (hdr_buf (wconn w c)) = PKG_HDR_BUF_SIZE" and "take m_pkg_hdr_size (hdr_buf (wconn w c)) = h"
  shows "bad_size (frame_size h) \<Longrightarrow> read_request_handler_process_v1 io c w = upd_wconn c restore_recv w"
    and "frame_size h = m_pkg_hdr_size \<Longrightarrow> read_request_handler_process_v1 io c w =
      read_request_handler_process_v2 (ri_now io) c
        (upd_wconn c (\<lambda>k. k\<lparr> precv_mem_addr := Some (ri_addr io) \<rparr>)
          (w\<lparr> wk_sock := new_buf (ri_addr io)
             \<lparr> buf_hdr = mk_msg_hdr c (m_cur_seq (wconn w c)), buf_data = h \<rparr> (wk_sock w) \<rparr>))"
    and "\<not> bad_size (frame_size h) \<Longrightarrow> frame_size h \<noteq> m_pkg_hdr_size \<Longrightarrow> read_request_handler_process_v1 io c w =
      upd_wconn c (\<lambda>k. k\<lparr> recv_stat := PKG_BODY_START, precv_buf := RP_mem (ri_addr io) m_pkg_hdr_size,
          rest_recv_size := word_of_nat (frame_size h - m_pkg_hdr_size) \<rparr>)
        (upd_wconn c (\<lambda>k. k\<lparr> precv_mem_addr := Some (ri_addr io) \<rparr>)
          (w\<lparr> wk_sock := new_buf (ri_addr io)
             \<lparr> buf_hdr = mk_msg_hdr c (m_cur_seq (wconn w c)),
               buf_data = h @ drop m_pkg_hdr_size (raw_bytes (ri_junk io) (frame_size h)) \<rparr> (wk_sock w) \<rparr>))"
proof -
  have len: "length h = m_pkg_hdr_size"
    using assms by (auto simp: hdr_consts)
  have n: "unat (pkg_size (load_pkg_hdr (hdr_buf (wconn w c)))) = frame_size h"
    using frame_size_take [of m_pkg_hdr_size "hdr_buf (wconn w c)"] assms(2) by (simp add: frame_size_def)
  have small: "m_pkg_hdr_size \<le> PKG_MAX_SIZE - 1000"
    by (simp add: m_pkg_hdr_size_def PKG_MAX_SIZE_def)
  note d = read_request_handler_process_v1_def Let_def n assms(2)
  show "bad_size (frame_size h) \<Longrightarrow> read_request_handler_process_v1 io c w = upd_wconn c restore_recv w"
    by (simp add: d bad_size_def)
  show "frame_size h = m_pkg_hdr_size \<Longrightarrow> read_request_handler_process_v1 io c w =
      read_request_handler_process_v2 (ri_now io) c
        (upd_wconn c (\<lambda>k. k\<lparr> precv_mem_addr := Some (ri_addr io) \<rparr>)
          (w\<lparr> wk_sock := new_buf (ri_addr io)
             \<lparr> buf_hdr = mk_msg_hdr c (m_cur_seq (wconn w c)), buf_data = h \<rparr> (wk_sock w) \<rparr>))"
    using small by (simp add: d len patch_zero)
  show "\<not> bad_size (frame_size h) \<Longrightarrow> frame_size h \<noteq> m_pkg_hdr_size \<Longrightarrow> read_request_handler_process_v1 io c w =
      upd_wconn c (\<lambda>k. k\<lparr> recv_stat := PKG_BODY_START, precv_buf := RP_mem (ri_addr io) m_pkg_hdr_size,
          rest_recv_size := word_of_nat (frame_size h - m_pkg_hdr_size) \<rparr>)
        (upd_wconn c (\<lambda>k. k\<lparr> precv_mem_addr := Some (ri_addr io) \<rparr>)
          (w\<lparr> wk_sock := new_buf (ri_addr io)
             \<lparr> buf_hdr = mk_msg_hdr c (m_cur_seq (wconn w c)),
               buf_data = h @ drop m_pkg_hdr_size (raw_bytes (ri_junk io) (frame_size h)) \<rparr> (wk_sock w) \<rparr>))"
    by (simp add: d len patch_zero bad_size_def)
qed

lemma process_v1_sim:
  assumes hb: "length (hdr_buf (wconn w c)) = PKG_HDR_BUF_SIZE"
    and q: "set (m_msg_queue (wk_pool w)) \<subseteq> dom (bufs (wk_sock w))"
    and h: "take m_pkg_hdr_size (hdr_buf (wconn w c)) = h"
    and fresh: "ri_addr io \<notin> dom (bufs (wk_sock w))"
    and mem: "precv_mem_addr (wconn w c) = None"
  shows "recv_sim c w h (read_request_handler_process_v1 io c w)"
proof -
  have len: "length h = m_pkg_hdr_size"
    using hb h by (auto simp: hdr_consts)
  have nq: "ri_addr io \<notin> set (m_msg_queue (wk_pool w))"
    using q fresh by auto
  then have same: "map ((bufs (wk_sock w))(ri_addr io \<mapsto> b)) (m_msg_queue (wk_pool w)) =
      map (bufs (wk_sock w)) (m_msg_queue (wk_pool w))" for b
    by (auto intro: map_cong)
  note v1 = process_v1_cases [OF hb h, of io]
  consider (bad) "bad_size (frame_size h)" | (nobody) "\<not> bad_size (frame_size h)" "frame_size h = m_pkg_hdr_size"
    | (body) "\<not> bad_size (frame_size h)" "frame_size h \<noteq> m_pkg_hdr_size" by blast
  then show ?thesis
  proof cases
    case bad
    then have "split_frames h = ([], [])"
      using len by (simp add: split_frames_bad)
    then show ?thesis
      using hb q mem v1(1) bad
      by (simp add: recv_sim_def recv_rel_def hdr_rel_def delivered_def upd_wconn_def upd_conn_def
          restore_recv_def hdr_consts)
  next
    case nobody
    then have sp: "split_frames h = ([h], [])"
      using len by (simp add: split_frames_exact)
    then show ?thesis
      using hb q same v1(2) nobody
      by (auto simp: recv_sim_def recv_rel_def hdr_rel_def delivered_def upd_wconn_def upd_conn_def
          restore_recv_def read_request_handler_process_v2_def new_buf_def msg_of_def hdr_consts)
  next
    case body
    then have gt: "m_pkg_hdr_size < frame_size h" by (simp add: bad_size_def)
    then have sp: "split_frames h = ([], h)"
      using body len by (simp add: split_frames_partial)
    have small: "frame_size h - m_pkg_hdr_size < 2 ^ 32"
      using frame_size_less [of h] by simp
    show ?thesis
      using hb q same nq gt body len unat_word_small [OF small] v1(3)
      by (auto simp: recv_sim_def recv_rel_def body_rel_def delivered_def upd_wconn_def upd_conn_def
          new_buf_def sp)
  qed
qed

lemma recv_sim_cong:
  "delivered w1 = delivered w \<Longrightarrow> m_cur_seq (wconn w1 c) = m_cur_seq (wconn w c) \<Longrightarrow>
   faults (wk_sock w1) = faults (wk_sock w) \<Longrightarrow> recv_sim c w1 st w' = recv_sim c w st w'"
  by (simp add: recv_sim_def)

lemmas stat_distinct = pkg_stat_defs

lemma upd_wconn_same_stat:
  assumes "recv_stat (wconn w c) = st"
  shows "upd_wconn c (\<lambda>k. f (k\<lparr> recv_stat := st \<rparr>)) w = upd_wconn c f w"
  unfolding assms [symmetric] by (simp add: upd_wconn_def upd_conn_def)

text \<open>What the handler does with data, by the phase it is in: \<open>w1\<close> is the worker after the store.\<close>

lemma handler_hdr_phase:
  assumes ret: "ri_ret io = Recv_n bs" "bs \<noteq> []"
    and st: "w\<lparr> wk_sock := store_recv c bs (wk_sock w) \<rparr> = w1"
    and stat: "recv_stat (wconn w1 c) = (if n = 0 then PKG_HDR_START else PKG_HDR_RECEIVING)"
    and rest: "unat (rest_recv_size (wconn w1 c)) = m_pkg_hdr_size - n" "n < m_pkg_hdr_size"
  shows "read_request_handler io c w =
     (if n + length bs = m_pkg_hdr_size then read_request_handler_process_v1 io c w1
      else upd_wconn c (\<lambda>k. advance (length bs) (k\<lparr> recv_stat := PKG_HDR_RECEIVING \<rparr>)) w1)"
proof (cases "n = 0")
  case True
  with stat show ?thesis by (simp add: handler_data [OF ret] Let_def st)
next
  case False
  moreover have "(length bs = unat (rest_recv_size (wconn w1 c))) = (n + length bs = m_pkg_hdr_size)"
    using rest by auto
  ultimately show ?thesis
    using stat upd_wconn_same_stat [of w1 c PKG_HDR_RECEIVING "advance (length bs)"]
    by (simp add: handler_data [OF ret] Let_def st stat_distinct)
qed

lemma handler_body_phase:
  assumes ret: "ri_ret io = Recv_n bs" "bs \<noteq> []"
    and st: "w\<lparr> wk_sock := store_recv c bs (wk_sock w) \<rparr> = w1"
    and stat: "recv_stat (wconn w1 c) = (if n = m_pkg_hdr_size then PKG_BODY_START else PKG_BODY_RECEIVING)"
    and rest: "unat (rest_recv_size (wconn w1 c)) = sz - n" "n < sz"
  shows "read_request_handler io c w =
     (if n + length bs = sz then read_request_handler_process_v2 (ri_now io) c w1
      else upd_wconn c (\<lambda>k. advance (length bs) (k\<lparr> recv_stat := PKG_BODY_RECEIVING \<rparr>)) w1)"
proof -
  have eq: "(length bs = unat (rest_recv_size (wconn w1 c))) = (n + length bs = sz)"
    using rest by auto
  show ?thesis
  proof (cases "n = m_pkg_hdr_size")
    case True
    with stat eq show ?thesis by (simp add: handler_data [OF ret] Let_def st stat_distinct)
  next
    case False
    with stat eq show ?thesis
      using upd_wconn_same_stat [of w1 c PKG_BODY_RECEIVING "advance (length bs)"]
      by (simp add: handler_data [OF ret] Let_def st stat_distinct)
  qed
qed

lemma handler_sim_hdr:
  assumes hb: "length (hdr_buf (wconn w c)) = PKG_HDR_BUF_SIZE"
    and q: "set (m_msg_queue (wk_pool w)) \<subseteq> dom (bufs (wk_sock w))"
    and rel: "hdr_rel (wconn w c) pend"
    and ret: "ri_ret io = Recv_n bs" "bs \<noteq> []"
    and le: "length bs \<le> unat (rest_recv_size (wconn w c))"
    and fresh: "ri_addr io \<notin> dom (bufs (wk_sock w))"
  shows "recv_sim c w (pend @ bs) (read_request_handler io c w)"
proof -
  define w1 where "w1 = w\<lparr> wk_sock := upd_conn c
    (\<lambda>k. k\<lparr> hdr_buf := patch (length pend) bs (hdr_buf k) \<rparr>) (wk_sock w) \<rparr>"
  have tot: "length pend + length bs \<le> m_pkg_hdr_size"
    using rel le by (auto simp: hdr_rel_def)
  have fits: "length pend + length bs \<le> length (hdr_buf (wconn w c))"
    using tot hb by (simp add: hdr_consts)
  have st: "w\<lparr> wk_sock := store_recv c bs (wk_sock w) \<rparr> = w1"
    using rel fits by (simp add: store_recv_def hdr_rel_def w1_def)
  have k1: "wconn w1 c = (wconn w c)\<lparr> hdr_buf := patch (length pend) bs (hdr_buf (wconn w c)) \<rparr>"
    by (simp add: w1_def)
  have h: "take (length pend + length bs) (hdr_buf (wconn w1 c)) = pend @ bs"
    using rel fits take_patch [of "length pend" "hdr_buf (wconn w c)" bs]
    by (simp add: k1 hdr_rel_def)
  have cong: "recv_sim c w1 xs t = recv_sim c w xs t" for xs t
    by (rule recv_sim_cong) (simp_all add: w1_def delivered_def upd_conn_def)
  have hd: "read_request_handler io c w =
     (if length pend + length bs = m_pkg_hdr_size then read_request_handler_process_v1 io c w1
      else upd_wconn c (\<lambda>k. advance (length bs) (k\<lparr> recv_stat := PKG_HDR_RECEIVING \<rparr>)) w1)"
    by (rule handler_hdr_phase [OF ret st]) (use rel in \<open>simp_all add: k1 hdr_rel_def\<close>)
  show ?thesis
  proof (cases "length pend + length bs = m_pkg_hdr_size")
    case True
    have "recv_sim c w1 (pend @ bs) (read_request_handler_process_v1 io c w1)"
      by (rule process_v1_sim)
        (use True h hb q fresh rel fits in \<open>simp_all add: k1 w1_def upd_conn_def hdr_rel_def\<close>)
    then show ?thesis using hd True by (simp add: cong)
  next
    case False
    then have lt: "length (pend @ bs) < m_pkg_hdr_size" using tot by simp
    have "unat (rest_recv_size (wconn w c) - word_of_nat (length bs)) =
        m_pkg_hdr_size - length (pend @ bs)"
      using rel unat_sub_le [OF le] by (simp add: hdr_rel_def)
    then have "recv_sim c w1 (pend @ bs)
        (upd_wconn c (\<lambda>k. advance (length bs) (k\<lparr> recv_stat := PKG_HDR_RECEIVING \<rparr>)) w1)"
      using lt rel hb q fits h ret(2)
      by (simp add: recv_sim_def recv_rel_def hdr_rel_def split_frames_short delivered_def
          upd_wconn_def advance_def k1) (simp add: w1_def upd_conn_def)
    then show ?thesis using hd False by (simp add: cong)
  qed
qed

text \<open>A piece of a body that does not complete the package.\<close>

lemma body_rel_advance:
  assumes "body_rel c s Q pend" and "bs \<noteq> []" and "length pend + length bs < frame_size pend"
  shows "body_rel c (upd_conn c (\<lambda>k. advance (length bs) (k\<lparr> recv_stat := PKG_BODY_RECEIVING \<rparr>))
      (store_recv c bs s)) Q (pend @ bs)"
    and "split_frames (pend @ bs) = ([], pend @ bs)"
proof -
  obtain a b where r: "m_pkg_hdr_size \<le> length pend" "\<not> bad_size (frame_size pend)"
      "precv_buf (conns s c) = RP_mem a (length pend)"
      "unat (rest_recv_size (conns s c)) = frame_size pend - length pend"
      "precv_mem_addr (conns s c) = Some a" "bufs s a = Some b"
      "buf_hdr b = mk_msg_hdr c (m_cur_seq (conns s c))" "length (buf_data b) = frame_size pend"
      "take (length pend) (buf_data b) = pend" "a \<notin> Q"
    using assms(1) unfolding body_rel_def by blast
  have fs: "frame_size (pend @ bs) = frame_size pend"
    using r(1) by (rule frame_size_append)
  show "split_frames (pend @ bs) = ([], pend @ bs)"
    by (rule split_frames_partial) (use assms(3) r fs in auto)
  have st: "store_recv c bs s = s\<lparr> bufs := (bufs s)(a \<mapsto> b\<lparr> buf_data := patch (length pend) bs (buf_data b) \<rparr>) \<rparr>"
    using assms(3) r by (simp add: store_recv_def)
  have "unat (rest_recv_size (conns s c) - word_of_nat (length bs)) = frame_size (pend @ bs) - length (pend @ bs)"
    using r(4) unat_sub_le [of "length bs" "rest_recv_size (conns s c)"] assms(3) fs by simp
  moreover have "m_pkg_hdr_size \<noteq> length pend + length bs"
    using r(1) assms(2) by (cases bs) auto
  moreover have "take (length pend + length bs) (patch (length pend) bs (buf_data b)) = pend @ bs"
    using r assms(3) take_patch [of "length pend" "buf_data b" bs] by simp
  ultimately show "body_rel c (upd_conn c (\<lambda>k. advance (length bs) (k\<lparr> recv_stat := PKG_BODY_RECEIVING \<rparr>))
      (store_recv c bs s)) Q (pend @ bs)"
    unfolding body_rel_def st
    by (intro exI [of _ a] exI [of _ "b\<lparr> buf_data := patch (length pend) bs (buf_data b) \<rparr>"])
      (use r fs assms(3) in \<open>simp add: advance_def upd_conn_def\<close>)
qed

lemma handler_sim_body:
  assumes hb: "length (hdr_buf (wconn w c)) = PKG_HDR_BUF_SIZE"
    and q: "set (m_msg_queue (wk_pool w)) \<subseteq> dom (bufs (wk_sock w))"
    and rel: "body_rel c (wk_sock w) (set (m_msg_queue (wk_pool w))) pend"
    and ret: "ri_ret io = Recv_n bs" "bs \<noteq> []"
    and le: "length bs \<le> unat (rest_recv_size (wconn w c))"
  shows "recv_sim c w (pend @ bs) (read_request_handler io c w)"
proof -
  define k where "k = wconn w c"
  obtain a b where r: "m_pkg_hdr_size \<le> length pend" "\<not> bad_size (frame_size pend)"
      "length pend < frame_size pend"
      "recv_stat k = (if length pend = m_pkg_hdr_size then PKG_BODY_START else PKG_BODY_RECEIVING)"
      "precv_buf k = RP_mem a (length pend)"
      "unat (rest_recv_size k) = frame_size pend - length pend"
      "precv_mem_addr k = Some a" "bufs (wk_sock w) a = Some b"
      "buf_hdr b = mk_msg_hdr c (m_cur_seq k)" "length (buf_data b) = frame_size pend"
      "take (length pend) (buf_data b) = pend" "a \<notin> set (m_msg_queue (wk_pool w))"
    using rel unfolding body_rel_def k_def by blast
  define b1 where "b1 = b\<lparr> buf_data := patch (length pend) bs (buf_data b) \<rparr>"
  define w1 where "w1 = w\<lparr> wk_sock := (wk_sock w)\<lparr> bufs := (bufs (wk_sock w))(a \<mapsto> b1) \<rparr> \<rparr>"
  have fits: "length pend + length bs \<le> frame_size pend"
    using r le by (simp add: k_def)
  have st: "w\<lparr> wk_sock := store_recv c bs (wk_sock w) \<rparr> = w1"
    using r fits by (simp add: store_recv_def w1_def b1_def flip: k_def)
  have k1: "wconn w1 c = k" by (simp add: w1_def k_def)
  have same: "map ((bufs (wk_sock w))(a \<mapsto> x)) (m_msg_queue (wk_pool w)) =
      map (bufs (wk_sock w)) (m_msg_queue (wk_pool w))" for x
    using r(12) by (auto intro: map_cong)
  have hd: "read_request_handler io c w =
     (if length pend + length bs = frame_size pend
      then read_request_handler_process_v2 (ri_now io) c w1
      else upd_wconn c (\<lambda>k. advance (length bs) (k\<lparr> recv_stat := PKG_BODY_RECEIVING \<rparr>)) w1)"
    by (rule handler_body_phase [OF ret st]) (use r in \<open>simp_all add: k1\<close>)
  show ?thesis
  proof (cases "length pend + length bs = frame_size pend")
    case True
    then have "split_frames (pend @ bs) = ([pend @ bs], [])"
      using r frame_size_append [OF r(1)] by (simp add: split_frames_exact)
    moreover have "b1 = \<lparr> buf_hdr = mk_msg_hdr c (m_cur_seq k), buf_data = pend @ bs \<rparr>"
      using take_patch [of "length pend" "buf_data b" bs] True r by (simp add: b1_def)
    ultimately show ?thesis
      using hd True hb q r same
      by (auto simp: recv_sim_def recv_rel_def hdr_rel_def delivered_def upd_wconn_def upd_conn_def
          restore_recv_def read_request_handler_process_v2_def msg_of_def k1 w1_def hdr_consts
          simp flip: k_def)
  next
    case False
    with fits have "length pend + length bs < frame_size pend" by simp
    note adv = body_rel_advance [OF rel ret(2) this]
    have "store_recv c bs (wk_sock w) = wk_sock w1" using arg_cong [OF st, of wk_sock] by simp
    with hd False hb q same adv k1 show ?thesis
      by (auto simp: recv_sim_def recv_rel_def delivered_def upd_wconn_def advance_def w1_def k_def)
  qed
qed

lemma handler_sim:
  assumes "recv_rel c w pend" and "ri_ret io = Recv_n bs" "bs \<noteq> []"
    and "length bs \<le> unat (rest_recv_size (wconn w c))"
    and "ri_addr io \<notin> dom (bufs (wk_sock w))"
  shows "recv_sim c w (pend @ bs) (read_request_handler io c w)"
  using assms handler_sim_hdr handler_sim_body unfolding recv_rel_def by metis

section \<open>Runs of the read handler\<close>

fun recv_run :: "conn_ptr \<Rightarrow> recv_io list \<Rightarrow> worker \<Rightarrow> worker" where
  "recv_run c [] w = w"
| "recv_run c (io # ios) w = recv_run c ios (read_request_handler io c w)"

fun io_bytes :: "recv_ret \<Rightarrow> bytes" where
  "io_bytes (Recv_n bs) = bs"
| "io_bytes (Recv_err e) = []"

definition run_bytes :: "recv_io list \<Rightarrow> bytes" where
  "run_bytes ios = concat (map (io_bytes \<circ> ri_ret) ios)"

text \<open>
  The documented behaviour of the environment: \<open>recv\<close> returns at least one and at most the
  requested number of bytes, and \<open>new\<close> returns an address that is not in use.
\<close>

fun recv_contract :: "conn_ptr \<Rightarrow> recv_io list \<Rightarrow> worker \<Rightarrow> bool" where
  "recv_contract c [] w = True"
| "recv_contract c (io # ios) w =
     (io_bytes (ri_ret io) \<noteq> [] \<and>
      length (io_bytes (ri_ret io)) \<le> unat (rest_recv_size (wconn w c)) \<and>
      ri_addr io \<notin> dom (bufs (wk_sock w)) \<and>
      recv_contract c ios (read_request_handler io c w))"

lemma recv_run_sim:
  assumes "recv_rel c w pend" and "recv_contract c ios w"
  shows "recv_rel c (recv_run c ios w) (snd (split_frames (pend @ run_bytes ios))) \<and>
    delivered (recv_run c ios w) = delivered w @
      map (msg_of c (m_cur_seq (wconn w c))) (fst (split_frames (pend @ run_bytes ios))) \<and>
    faults (wk_sock (recv_run c ios w)) = faults (wk_sock w)"
  using assms
proof (induction ios arbitrary: w pend)
  case Nil
  have "split_frames pend = ([], pend)"
    using Nil(1)
    by (auto simp: recv_rel_def hdr_rel_def body_rel_def split_frames_short split_frames_partial)
  with Nil show ?case by (simp add: run_bytes_def)
next
  case (Cons io ios)
  then obtain bs where bs: "ri_ret io = Recv_n bs"
    by (cases "ri_ret io") auto
  let ?w1 = "read_request_handler io c w"
  have "recv_sim c w (pend @ bs) ?w1"
    by (rule handler_sim) (use Cons.prems bs in auto)
  then have sim: "recv_rel c ?w1 (snd (split_frames (pend @ bs)))"
    "delivered ?w1 = delivered w @ map (msg_of c (m_cur_seq (wconn w c))) (fst (split_frames (pend @ bs)))"
    "m_cur_seq (wconn ?w1 c) = m_cur_seq (wconn w c)" "faults (wk_sock ?w1) = faults (wk_sock w)"
    by (simp_all add: recv_sim_def)
  have eq: "pend @ run_bytes (io # ios) = (pend @ bs) @ run_bytes ios"
    by (simp add: run_bytes_def bs)
  obtain f1 r1 where f1: "split_frames (pend @ bs) = (f1, r1)" by fastforce
  obtain f2 r2 where f2: "split_frames (r1 @ run_bytes ios) = (f2, r2)" by fastforce
  have "split_frames (pend @ run_bytes (io # ios)) = (f1 @ f2, r2)"
    unfolding eq using split_frames_append [of "pend @ bs" "run_bytes ios"] f1 f2 by simp
  with Cons.IH [OF sim(1)] Cons.prems show ?case
    by (simp add: sim f1 f2)
qed

text \<open>A connection that has just been handed out by the pool is at a frame boundary.\<close>

lemma recv_rel_ready:
  assumes "ready_conn fd (wconn w c)" and "length (hdr_buf (wconn w c)) = PKG_HDR_BUF_SIZE"
    and "set (m_msg_queue (wk_pool w)) \<subseteq> dom (bufs (wk_sock w))"
  shows "recv_rel c w []"
  using assms by (simp add: recv_rel_def hdr_rel_def ready_conn_def m_pkg_hdr_size_def)

section \<open>Properties\<close>

text \<open>
  C12: packet reassembly is correct for every segmentation. On a freshly accepted connection,
  let \<open>recv\<close> deliver the stream in arbitrary non-empty pieces. The messages queued for the
  workers are exactly the frames of the concatenated stream, in order, each with the
  connection and its sequence number in front; no write leaves its buffer; and the connection
  state represents the incomplete rest.
\<close>

theorem reassembly_independent_of_segmentation:
  assumes "ready_conn fd (wconn w c)" and "length (hdr_buf (wconn w c)) = PKG_HDR_BUF_SIZE"
    and "set (m_msg_queue (wk_pool w)) \<subseteq> dom (bufs (wk_sock w))"
    and "recv_contract c ios w" and "split_frames (run_bytes ios) = (fs, rest)"
  shows "delivered (recv_run c ios w) = delivered w @ map (msg_of c (m_cur_seq (wconn w c))) fs \<and>
    recv_rel c (recv_run c ios w) rest \<and>
    faults (wk_sock (recv_run c ios w)) = faults (wk_sock w)"
  using recv_run_sim [OF recv_rel_ready [OF assms(1-3)] assms(4)] assms(5) by simp

definition demo_worker :: worker where
  "demo_worker =
     \<lparr> wk_sock = Mgx_socket\<lparr> conns := (\<lambda>_. new_conn)(16 := get_one_to_use 0 new_conn) \<rparr>,
       wk_pool = Mgx_th_pool \<rparr>"

text \<open>A ping of eight bytes that arrives in pieces of two and six bytes.\<close>

definition demo_ios :: "recv_io list" where
  "demo_ios =
     [\<lparr> ri_now = 1, ri_ret = Recv_n [8, 0], ri_addr = 64, ri_junk = [] \<rparr>,
      \<lparr> ri_now = 1, ri_ret = Recv_n [0, 0, 0, 0, 0, 0], ri_addr = 64, ri_junk = [] \<rparr>]"

lemma demo_worker_ready:
  "ready_conn 0 (wconn demo_worker 16)" "length (hdr_buf (wconn demo_worker 16)) = PKG_HDR_BUF_SIZE"
  "m_msg_queue (wk_pool demo_worker) = []" "bufs (wk_sock demo_worker) = Map.empty"
  "m_cur_seq (wconn demo_worker 16) = 1" "unat (rest_recv_size (wconn demo_worker 16)) = 8"
  by (simp_all add: demo_worker_def ready_conn_def get_one_to_use_def new_conn_def m_pkg_hdr_size_def
      Mgx_th_pool_def Mgx_socket_def)

lemma demo_recv_contract: "recv_contract 16 demo_ios demo_worker"
proof -
  let ?io = "\<lparr> ri_now = 1, ri_ret = Recv_n [8, 0], ri_addr = 64, ri_junk = [] \<rparr>"
  have "recv_sim 16 demo_worker ([] @ [8, 0]) (read_request_handler ?io 16 demo_worker)"
    by (rule handler_sim)
      (use demo_worker_ready in \<open>auto intro!: recv_rel_ready simp: dom_def\<close>)
  then have "recv_rel 16 (read_request_handler ?io 16 demo_worker) [8, 0]"
    by (simp add: recv_sim_def split_frames_short m_pkg_hdr_size_def)
  then have "unat (rest_recv_size (wconn (read_request_handler ?io 16 demo_worker) 16)) = 6"
    by (auto simp: recv_rel_def hdr_rel_def body_rel_def m_pkg_hdr_size_def)
  moreover have "bufs (wk_sock (read_request_handler ?io 16 demo_worker)) = Map.empty"
    by (simp add: handler_data Let_def store_recv_def demo_worker_def get_one_to_use_def
        new_conn_def Mgx_socket_def pkg_stat_defs m_pkg_hdr_size_def PKG_HDR_BUF_SIZE_def upd_wconn_def)
  ultimately show ?thesis
    by (simp add: demo_ios_def demo_worker_ready)
qed

lemma demo_ping_frame: "split_frames [8, 0, 0, 0, 0, 0, 0, 0] = ([[8, 0, 0, 0, 0, 0, 0, 0]], [])"
  by (rule split_frames_exact)
    (simp_all add: frame_size_def load_pkg_hdr_def m_pkg_hdr_size_def bad_size_def PKG_MAX_SIZE_def)

theorem reassembly_independent_of_segmentation_witness:
  "delivered (recv_run 16 demo_ios demo_worker) =
     delivered demo_worker @ map (msg_of 16 1) [[8, 0, 0, 0, 0, 0, 0, 0]]"
  using reassembly_independent_of_segmentation
    [OF demo_worker_ready(1,2) _ demo_recv_contract, of "[[8, 0, 0, 0, 0, 0, 0, 0]]" "[]"]
  by (simp add: demo_worker_ready run_bytes_def demo_ios_def demo_ping_frame)

text \<open>
  C13: the other results of \<open>recv\<close>. A would-block or an interrupted call changes nothing; end
  of stream parks the connection for delayed recovery; any other error closes it and returns
  it to the pool at once. In none of these cases is a message queued.
\<close>

theorem read_handler_error_branches:
  assumes "pool_inv (wk_sock w)" and "conn_status (wk_sock w) c = In_use"
  shows "(ri_ret io = Recv_err EAGAIN \<or> ri_ret io = Recv_err EINTR \<longrightarrow>
            read_request_handler io c w = w) \<and>
    (ri_ret io = Recv_n [] \<longrightarrow>
       wk_pool (read_request_handler io c w) = wk_pool w \<and>
       conn_status (wk_sock (read_request_handler io c w)) c = In_recovery \<and>
       pool_inv (wk_sock (read_request_handler io c w))) \<and>
    (\<forall>e. ri_ret io = Recv_err e \<and> e \<noteq> EAGAIN \<and> e \<noteq> EINTR \<longrightarrow>
       wk_pool (read_request_handler io c w) = wk_pool w \<and>
       conn_status (wk_sock (read_request_handler io c w)) c = Free \<and>
       c_fd (wconn (read_request_handler io c w) c) = -1 \<and>
       pool_inv (wk_sock (read_request_handler io c w)))"
proof (intro conjI impI allI)
  show "read_request_handler io c w = w" if "ri_ret io = Recv_err EAGAIN \<or> ri_ret io = Recv_err EINTR"
    using that by (auto simp: read_request_handler_def recv_process_def)
next
  assume eof: "ri_ret io = Recv_n []"
  let ?w = "read_request_handler io c w"
  have w: "?w = w\<lparr> wk_sock := insert_recy_conn_queue (ri_now io) c (wk_sock w) \<rparr>"
    using eof by (simp add: read_request_handler_def recv_process_def)
  show "wk_pool ?w = wk_pool w" by (simp add: w)
  show "conn_status (wk_sock ?w) c = In_recovery"
    using assms by (auto simp: w conn_status_def insert_recy_fields split: if_splits)
  show "pool_inv (wk_sock ?w)"
    using assms by (simp add: w pool_inv_insert_recy)
next
  fix e
  assume err: "ri_ret io = Recv_err e \<and> e \<noteq> EAGAIN \<and> e \<noteq> EINTR"
  let ?w = "read_request_handler io c w"
  have w: "?w = w\<lparr> wk_sock := close_conn c (wk_sock w) \<rparr>"
    using err by (simp add: read_request_handler_def recv_process_def)
  show "wk_pool ?w = wk_pool w" by (simp add: w)
  show "conn_status (wk_sock ?w) c = Free"
    using assms by (auto simp: w conn_status_def close_conn_fields split: if_splits)
  show "c_fd (wconn ?w c) = -1"
    by (simp add: w close_conn_effect free_conn_effect)
  show "pool_inv (wk_sock ?w)"
    using assms by (simp add: w pool_inv_close_conn)
qed

definition demo_eof :: recv_io where
  "demo_eof = \<lparr> ri_now = 3, ri_ret = Recv_n [], ri_addr = 64, ri_junk = [] \<rparr>"

theorem read_handler_error_branches_witness:
  "conn_status (wk_sock (read_request_handler demo_eof 16
     \<lparr> wk_sock = snd (get_conn 5 48 7 demo_pool), wk_pool = Mgx_th_pool \<rparr>)) 16 = In_recovery"
  using read_handler_error_branches
    [of "\<lparr> wk_sock = snd (get_conn 5 48 7 demo_pool), wk_pool = Mgx_th_pool \<rparr>" 16 demo_eof] demo_used
  by (simp add: demo_eof_def)

end
