(* ===== verification/Mgx_Send.thy ===== *)
theory Mgx_Send
  imports Mgx_Epoll Mgx_Request
begin

text \<open>
  The sending side: \<open>send_msg\<close>, the send thread \<open>send_msg_th_func\<close> and \<open>send_uninterrupt\<close> of
  \<^verbatim>\<open>src/net/mgx_socket.cpp\<close>, and the write-readiness handler \<open>send_msg_handler\<close> of
  \<^verbatim>\<open>src/net/mgx_socket_request.cpp\<close>. A message that the kernel does not take completely
  leaves the connection with \<open>throw_send_cnt > 0\<close>; the send thread then skips the later
  messages of that connection until the handler has sent the rest.
\<close>

section \<open>Operations\<close>

definition send_msg :: "addr \<Rightarrow> mgx_socket \<Rightarrow> mgx_socket" where
  "send_msg a s = s\<lparr> m_send_list := m_send_list s @ [a], m_send_list_cnt := m_send_list_cnt s + 1,
     m_send_queue_sem := m_send_queue_sem s + 1 \<rparr>"

interpretation send_sink: message_sink send_msg m_send_list
  by unfold_locales (simp add: send_msg_def)

datatype send_ret = Send_n nat | Send_err errno

text \<open>
  \<open>send_uninterrupt\<close>: the list holds the results of the successive \<open>send\<close> calls; the result
  is the returned value and the calls not used, or \<open>None\<close> while every call is interrupted.
\<close>

fun send_uninterrupt :: "send_ret list \<Rightarrow> (int \<times> send_ret list) option" where
  "send_uninterrupt [] = None"
| "send_uninterrupt (Send_n n # outs) = Some (int n, outs)"
| "send_uninterrupt (Send_err e # outs) =
     (if e = EAGAIN then Some (-1, outs)
      else if e = EINTR then send_uninterrupt outs
      else Some (-2, outs))"

text \<open>The socket with the bytes accepted by the kernel, newest last.\<close>

record send_sys =
  ss_sock :: mgx_socket
  ss_wire :: "(conn_ptr \<times> bytes) list"

definition payload :: "bool \<Rightarrow> mgx_buf \<Rightarrow> bytes" where
  "payload use_http b =
     (if use_http then takeWhile (\<lambda>x. x \<noteq> 0) (buf_data b)
      else take (unat (pkg_size (load_pkg_hdr (buf_data b)))) (buf_data b))"

text \<open>\<open>rest_send_size\<close>: the package size of the header, or \<open>strlen\<close> in the HTTP build.\<close>

definition send_size_of :: "bool \<Rightarrow> mgx_buf \<Rightarrow> u32" where
  "send_size_of use_http b =
     (if use_http then word_of_nat (length (takeWhile (\<lambda>x. x \<noteq> 0) (buf_data b)))
      else ucast (pkg_size (load_pkg_hdr (buf_data b))))"

definition arm_epollout :: "conn_ptr \<Rightarrow> mgx_socket \<Rightarrow> mgx_socket" where
  "arm_epollout c s =
     snd (epoll_oper_event True (c_fd (conns s c)) EPOLL_CTL_MOD EPOLLOUT ADD c s)"

definition drop_send_mem :: "conn_ptr \<Rightarrow> mgx_socket \<Rightarrow> mgx_socket" where
  "drop_send_mem c s =
     upd_conn c (\<lambda>k. k\<lparr> psend_mem_addr := None \<rparr>) (delete_opt (psend_mem_addr (conns s c)) s)"

text \<open>The four-way branch on the result of \<open>send_uninterrupt\<close>.\<close>

definition after_send :: "int \<Rightarrow> conn_ptr \<Rightarrow> mgx_socket \<Rightarrow> mgx_socket" where
  "after_send n c s =
     (let k = conns s c
      in if n > 0 then
           (if n = int (unat (rest_send_size k))
            then drop_send_mem c (upd_conn c (\<lambda>k. k\<lparr> throw_send_cnt := 0 \<rparr>) s)
            else arm_epollout c (upd_conn c (\<lambda>k. k\<lparr>
                   psend_buf := map_option (\<lambda>(a, off). (a, off + n)) (psend_buf k),
                   rest_send_size := rest_send_size k - word_of_int n,
                   throw_send_cnt := throw_send_cnt k + 1 \<rparr>) s))
         else if n = 0 then upd_conn c (\<lambda>k. k\<lparr> throw_send_cnt := 0 \<rparr>) s
         else if n = -1
         then arm_epollout c (upd_conn c (\<lambda>k. k\<lparr> throw_send_cnt := throw_send_cnt k + 1 \<rparr>) s)
         else drop_send_mem c (upd_conn c (\<lambda>k. k\<lparr> throw_send_cnt := 0 \<rparr>) s))"

text \<open>Taking one message off the list and trying to send it.\<close>

definition send_one ::
  "bool \<Rightarrow> addr \<Rightarrow> mgx_buf \<Rightarrow> addr list \<Rightarrow> send_ret list \<Rightarrow> send_sys \<Rightarrow>
   (send_ret list \<times> send_sys) option" where
  "send_one uh a b others outs y =
     (let c = mh_pconn (buf_hdr b);
          s1 = upd_conn c (\<lambda>k. k\<lparr> psend_buf := Some (a, 0), rest_send_size := send_size_of uh b,
                                  psend_mem_addr := Some a \<rparr>) (ss_sock y);
          s2 = s1\<lparr> m_send_list := others, m_send_list_cnt := m_send_list_cnt s1 - 1 \<rparr>
      in case send_uninterrupt outs of
           None \<Rightarrow> None
         | Some (n, outs') \<Rightarrow>
             Some (outs', y\<lparr> ss_sock := after_send n c s2,
                             ss_wire := (if n > 0 then ss_wire y @ [(c, take (nat n) (payload uh b))]
                                         else ss_wire y) \<rparr>))"

text \<open>
  The \<open>while (it != m_send_list.end())\<close> loop; the list is split at the iterator. In the branch
  for a stale message the code erases the entry, which moves the iterator to the next one, and
  then deletes what the iterator points to.
\<close>

fun send_list_loop ::
  "bool \<Rightarrow> addr list \<Rightarrow> addr list \<Rightarrow> send_ret list \<Rightarrow> send_sys \<Rightarrow> (send_ret list \<times> send_sys) option"
  where
  "send_list_loop uh pre [] outs y = Some (outs, y)"
| "send_list_loop uh pre (a # post) outs y =
     (case bufs (ss_sock y) a of
        None \<Rightarrow> Some (outs, y\<lparr> ss_sock := raise_fault Bad_deref (ss_sock y) \<rparr>)
      | Some b \<Rightarrow>
          (let k = conns (ss_sock y) (mh_pconn (buf_hdr b))
           in if m_cur_seq k \<noteq> mh_cur_seq (buf_hdr b) then
                let s1 = (ss_sock y)\<lparr> m_send_list_cnt := m_send_list_cnt (ss_sock y) - 1,
                                      m_send_list := pre @ post \<rparr>;
                    s2 = (case post of [] \<Rightarrow> raise_fault Bad_deref s1 | a' # _ \<Rightarrow> delete_buf a' s1)
                in send_list_loop uh pre post outs (y\<lparr> ss_sock := s2 \<rparr>)
              else if throw_send_cnt k > 0 then send_list_loop uh (pre @ [a]) post outs y
              else (case send_one uh a b (pre @ post) outs y of
                      None \<Rightarrow> None
                    | Some (outs', y') \<Rightarrow> send_list_loop uh pre post outs' y')))"

text \<open>One round of the thread, after \<open>sem_wait\<close> returned.\<close>

definition send_msg_th_round ::
  "bool \<Rightarrow> send_ret list \<Rightarrow> send_sys \<Rightarrow> (send_ret list \<times> send_sys) option" where
  "send_msg_th_round uh outs y =
     (let s1 = (ss_sock y)\<lparr> m_send_queue_sem := m_send_queue_sem (ss_sock y) - 1 \<rparr>;
          y1 = y\<lparr> ss_sock := s1 \<rparr>
      in if m_send_list_cnt s1 > 0 then send_list_loop uh [] (m_send_list s1) outs y1
         else Some (outs, y1))"

text \<open>
  \<open>send_msg_handler\<close>. The buffer argument of its \<open>send_uninterrupt\<close> call is
  \<open>c->psend_mem_addr\<close>, the start of the allocation; \<open>img\<close> gives the bytes of the message
  header stored there.
\<close>

definition mem_image :: "(mgx_msg_hdr \<Rightarrow> bytes) \<Rightarrow> mgx_buf \<Rightarrow> bytes" where
  "mem_image img b = img (buf_hdr b) @ buf_data b"

definition send_msg_handler ::
  "(mgx_msg_hdr \<Rightarrow> bytes) \<Rightarrow> conn_ptr \<Rightarrow> send_ret list \<Rightarrow> send_sys \<Rightarrow>
   (send_ret list \<times> send_sys) option" where
  "send_msg_handler img c outs y =
     (case send_uninterrupt outs of
        None \<Rightarrow> None
      | Some (n, outs') \<Rightarrow>
          (let s = ss_sock y; k = conns s c;
               src = (case psend_mem_addr k of None \<Rightarrow> [] | Some a \<Rightarrow>
                        (case bufs s a of None \<Rightarrow> [] | Some b \<Rightarrow> mem_image img b));
               y1 = (if n > 0 then y\<lparr> ss_wire := ss_wire y @ [(c, take (nat n) src)] \<rparr> else y);
               fin = (\<lambda>s. drop_send_mem c (upd_conn c (\<lambda>k. k\<lparr> throw_send_cnt := 0 \<rparr>)
                        (s\<lparr> m_send_queue_sem := m_send_queue_sem s + 1 \<rparr>)))
           in if n > 0 then
                if n = int (unat (rest_send_size k)) then
                  Some (outs', y1\<lparr> ss_sock := fin (snd (epoll_oper_event True (c_fd k)
                     EPOLL_CTL_MOD EPOLLOUT REMOVE c s)) \<rparr>)
                else
                  Some (outs', y1\<lparr> ss_sock := upd_conn c (\<lambda>k. k\<lparr>
                     psend_buf := map_option (\<lambda>(a, off). (a, off + n)) (psend_buf k),
                     rest_send_size := rest_send_size k - word_of_int n \<rparr>) s \<rparr>)
              else if n = -1 then Some (outs', y1)
              else Some (outs', y1\<lparr> ss_sock := fin s \<rparr>)))"

section \<open>Effects\<close>

lemma arm_epollout_frame [simp]:
  "bufs (arm_epollout c s) = bufs s" "faults (arm_epollout c s) = faults s"
  "m_send_list (arm_epollout c s) = m_send_list s"
  "m_send_list_cnt (arm_epollout c s) = m_send_list_cnt s"
  "conns (arm_epollout c s) = (conns s)(c := (conns s c)
     \<lparr> c_events := c_events (conns s c) OR EPOLLOUT \<rparr>)"
  by (simp_all add: arm_epollout_def epoll_oper_event_mod mod_events_def)
    (simp add: upd_conn_def)

lemma delete_buf_send [simp]:
  "m_send_list (delete_buf a s) = m_send_list s"
  "m_send_list_cnt (delete_buf a s) = m_send_list_cnt s"
  "bufs (delete_buf a s) = (bufs s)(a := None)"
  "bufs s a = Some b \<Longrightarrow> faults (delete_buf a s) = faults s"
  by (auto simp: delete_buf_def raise_fault_def split: option.split)

lemma drop_send_mem_frame [simp]:
  "conns (drop_send_mem c s) = (conns s)(c := (conns s c)\<lparr> psend_mem_addr := None \<rparr>)"
  "m_send_list (drop_send_mem c s) = m_send_list s"
  "m_send_list_cnt (drop_send_mem c s) = m_send_list_cnt s"
  by (simp_all add: drop_send_mem_def) (simp_all add: upd_conn_def delete_opt_def split: option.split)

lemma drop_send_mem_live:
  assumes "psend_mem_addr (conns s c) = Some a" and "bufs s a = Some b"
  shows "bufs (drop_send_mem c s) = (bufs s)(a := None)" and "faults (drop_send_mem c s) = faults s"
  using assms by (simp_all add: drop_send_mem_def delete_opt_def)

text \<open>
  What the branch after a send may touch: the connection it is about (its sequence number
  stays), the buffer of the message being sent, and the counters.
\<close>

lemma after_send_effect:
  assumes "psend_mem_addr (conns s c) = Some a" and "bufs s a = Some b"
  shows "m_send_list (after_send n c s) = m_send_list s"
    and "m_send_list_cnt (after_send n c s) = m_send_list_cnt s"
    and "faults (after_send n c s) = faults s"
    and "x \<noteq> a \<Longrightarrow> bufs (after_send n c s) x = bufs s x"
    and "d \<noteq> c \<Longrightarrow> conns (after_send n c s) d = conns s d"
    and "m_cur_seq (conns (after_send n c s) d) = m_cur_seq (conns s d)"
proof -
  let ?t = "upd_conn c (\<lambda>k. k\<lparr> throw_send_cnt := 0 \<rparr>) s"
  have t: "psend_mem_addr (conns ?t c) = Some a" "bufs ?t a = Some b"
    using assms by simp_all
  note live = drop_send_mem_live [OF t]
  show "m_send_list (after_send n c s) = m_send_list s"
    and "m_send_list_cnt (after_send n c s) = m_send_list_cnt s"
    and "faults (after_send n c s) = faults s"
    and "x \<noteq> a \<Longrightarrow> bufs (after_send n c s) x = bufs s x"
    and "d \<noteq> c \<Longrightarrow> conns (after_send n c s) d = conns s d"
    by (simp_all add: after_send_def Let_def live)
  show "m_cur_seq (conns (after_send n c s) d) = m_cur_seq (conns s d)"
    by (cases "d = c") (simp_all add: after_send_def Let_def)
qed

text \<open>A list whose messages are live and belong to the current use of their connection.\<close>

definition live_msg :: "send_sys \<Rightarrow> (addr \<Rightarrow> conn_ptr) \<Rightarrow> addr \<Rightarrow> bool" where
  "live_msg y dest a \<longleftrightarrow>
     (\<exists>b. bufs (ss_sock y) a = Some b \<and> mh_pconn (buf_hdr b) = dest a \<and>
        m_cur_seq (conns (ss_sock y) (dest a)) = mh_cur_seq (buf_hdr b))"

lemma send_one_effect:
  assumes "send_one uh a b others outs y = Some (outs', y')"
    and "bufs (ss_sock y) a = Some b" and "mh_pconn (buf_hdr b) = c"
  shows "m_send_list (ss_sock y') = others"
    and "m_send_list_cnt (ss_sock y') = m_send_list_cnt (ss_sock y) - 1"
    and "faults (ss_sock y') = faults (ss_sock y)"
    and "x \<noteq> a \<Longrightarrow> bufs (ss_sock y') x = bufs (ss_sock y) x"
    and "d \<noteq> c \<Longrightarrow> conns (ss_sock y') d = conns (ss_sock y) d"
    and "m_cur_seq (conns (ss_sock y') d) = m_cur_seq (conns (ss_sock y) d)"
proof -
  define s2 where "s2 = (upd_conn c (\<lambda>k. k\<lparr> psend_buf := Some (a, 0), rest_send_size := send_size_of uh b,
      psend_mem_addr := Some a \<rparr>) (ss_sock y))\<lparr> m_send_list := others,
      m_send_list_cnt := m_send_list_cnt (ss_sock y) - 1 \<rparr>"
  obtain n where n: "ss_sock y' = after_send n c s2"
    using assms by (auto simp: send_one_def Let_def s2_def split: option.splits)
  have "psend_mem_addr (conns s2 c) = Some a" "bufs s2 a = Some b"
    using assms by (simp_all add: s2_def)
  note eff = after_send_effect [OF this]
  show "m_send_list (ss_sock y') = others"
    and "m_send_list_cnt (ss_sock y') = m_send_list_cnt (ss_sock y) - 1"
    and "faults (ss_sock y') = faults (ss_sock y)"
    and "x \<noteq> a \<Longrightarrow> bufs (ss_sock y') x = bufs (ss_sock y) x"
    and "d \<noteq> c \<Longrightarrow> conns (ss_sock y') d = conns (ss_sock y) d"
    by (simp_all add: n eff) (simp_all add: s2_def)
  show "m_cur_seq (conns (ss_sock y') d) = m_cur_seq (conns (ss_sock y) d)"
    by (simp add: n eff) (cases "d = c"; simp add: s2_def)
qed

lemma live_msg_send_one:
  assumes "send_one uh a b others outs y = Some (outs', y')"
    and "bufs (ss_sock y) a = Some b" and "x \<noteq> a" and "live_msg y dest x"
  shows "live_msg y' dest x"
  using assms(3,4) send_one_effect(4,6) [OF assms(1,2) refl] by (auto simp: live_msg_def)

text \<open>The other messages stay current when the first one is sent.\<close>

lemma live_msgs_send_one:
  assumes "send_one uh a b others outs y = Some (outs', y')" and "bufs (ss_sock y) a = Some b"
    and "distinct (a # post)" and "\<forall>x \<in> set (a # post). live_msg y dest x"
  shows "\<forall>x \<in> set post. live_msg y' dest x"
proof
  fix x assume "x \<in> set post"
  with assms(3,4) have "x \<noteq> a" "live_msg y dest x" by auto
  then show "live_msg y' dest x" by (rule live_msg_send_one [OF assms(1,2)])
qed

text \<open>One turn of the loop at a current message.\<close>

lemma send_list_loop_live:
  assumes "live_msg y dest a"
  obtains b where "bufs (ss_sock y) a = Some b" "mh_pconn (buf_hdr b) = dest a"
    "send_list_loop uh pre (a # post) outs y =
      (if 0 < throw_send_cnt (conns (ss_sock y) (dest a)) then send_list_loop uh (pre @ [a]) post outs y
       else case send_one uh a b (pre @ post) outs y of None \<Rightarrow> None
            | Some (outs', y') \<Rightarrow> send_list_loop uh pre post outs' y')"
  using assms that by (auto simp: live_msg_def Let_def)

section \<open>Per-connection order\<close>

abbreviation msgs_to :: "(addr \<Rightarrow> conn_ptr) \<Rightarrow> conn_ptr \<Rightarrow> addr list \<Rightarrow> addr list" where
  "msgs_to dest c l \<equiv> filter (\<lambda>a. dest a = c) l"

text \<open>The loop over a part of the list whose messages are current; \<open>l2\<close> is what follows it.\<close>

lemma send_list_loop_order:
  assumes "send_list_loop uh pre (post @ l2) outs y = Some (outs', y')"
    and "m_send_list (ss_sock y) = pre @ post @ l2"
    and "distinct (post @ l2)" and "\<forall>a \<in> set post. live_msg y dest a"
  shows "\<exists>taken rest o1 y1. send_list_loop uh (pre @ rest) l2 o1 y1 = Some (outs', y') \<and>
    m_send_list (ss_sock y1) = pre @ rest @ l2 \<and> length post = length taken + length rest \<and>
    (\<forall>c. msgs_to dest c post = msgs_to dest c taken @ msgs_to dest c rest) \<and>
    (\<forall>c. 0 < throw_send_cnt (conns (ss_sock y) c) \<longrightarrow> msgs_to dest c taken = []) \<and>
    m_send_list_cnt (ss_sock y1) = m_send_list_cnt (ss_sock y) - int (length taken) \<and>
    faults (ss_sock y1) = faults (ss_sock y) \<and> (\<forall>x \<in> set l2. bufs (ss_sock y1) x = bufs (ss_sock y) x) \<and>
    (\<forall>d. m_cur_seq (conns (ss_sock y1) d) = m_cur_seq (conns (ss_sock y) d))"
  using assms
proof (induction post arbitrary: pre outs y)
  case Nil
  then show ?case by (intro exI [of _ "[]"] exI [of _ outs] exI [of _ y]) simp
next
  case (Cons a post)
  have "live_msg y dest a" using Cons.prems(4) by simp
  then obtain b where b: "bufs (ss_sock y) a = Some b" "mh_pconn (buf_hdr b) = dest a"
    and turn: "send_list_loop uh pre (a # post @ l2) outs y =
      (if 0 < throw_send_cnt (conns (ss_sock y) (dest a)) then send_list_loop uh (pre @ [a]) (post @ l2) outs y
       else case send_one uh a b (pre @ post @ l2) outs y of None \<Rightarrow> None
            | Some (outs', y') \<Rightarrow> send_list_loop uh pre (post @ l2) outs' y')"
    by (rule send_list_loop_live)
  show ?case
  proof (cases "0 < throw_send_cnt (conns (ss_sock y) (dest a))")
    case True
    with Cons.prems(1) have loop: "send_list_loop uh (pre @ [a]) (post @ l2) outs y = Some (outs', y')"
      using turn by simp
    have p: "m_send_list (ss_sock y) = (pre @ [a]) @ post @ l2" "distinct (post @ l2)"
      "\<forall>x \<in> set post. live_msg y dest x"
      using Cons.prems(2-4) by auto
    from Cons.IH [OF loop p] obtain taken rest o1 y1 where
      "send_list_loop uh ((pre @ [a]) @ rest) l2 o1 y1 = Some (outs', y')"
      "m_send_list (ss_sock y1) = (pre @ [a]) @ rest @ l2" "length post = length taken + length rest"
      "\<forall>c. msgs_to dest c post = msgs_to dest c taken @ msgs_to dest c rest"
      "\<forall>c. 0 < throw_send_cnt (conns (ss_sock y) c) \<longrightarrow> msgs_to dest c taken = []"
      "m_send_list_cnt (ss_sock y1) = m_send_list_cnt (ss_sock y) - int (length taken)"
      "faults (ss_sock y1) = faults (ss_sock y)" "\<forall>x \<in> set l2. bufs (ss_sock y1) x = bufs (ss_sock y) x"
      "\<forall>d. m_cur_seq (conns (ss_sock y1) d) = m_cur_seq (conns (ss_sock y) d)"
      by blast
    with True show ?thesis
      by (intro exI [of _ taken] exI [of _ "a # rest"] exI [of _ o1] exI [of _ y1]) simp
  next
    case False
    with Cons.prems(1) obtain o2 y2 where one: "send_one uh a b (pre @ post @ l2) outs y = Some (o2, y2)"
      and loop: "send_list_loop uh pre (post @ l2) o2 y2 = Some (outs', y')"
      using turn by (auto split: option.splits)
    note eff = send_one_effect [OF one b]
    have d: "distinct (a # post)" using Cons.prems(3) by simp
    have p: "m_send_list (ss_sock y2) = pre @ post @ l2" "distinct (post @ l2)" "\<forall>x \<in> set post. live_msg y2 dest x"
      using Cons.prems(3) eff(1) live_msgs_send_one [OF one b(1) d Cons.prems(4)] by auto
    from Cons.IH [OF loop p] eff(2,3,6) obtain taken rest o1 y1 where t:
      "send_list_loop uh (pre @ rest) l2 o1 y1 = Some (outs', y')"
      "m_send_list (ss_sock y1) = pre @ rest @ l2" "length post = length taken + length rest"
      "\<forall>c. msgs_to dest c post = msgs_to dest c taken @ msgs_to dest c rest"
      "\<forall>c. 0 < throw_send_cnt (conns (ss_sock y2) c) \<longrightarrow> msgs_to dest c taken = []"
      "m_send_list_cnt (ss_sock y1) = m_send_list_cnt (ss_sock y) - 1 - int (length taken)"
      "faults (ss_sock y1) = faults (ss_sock y)" and same: "\<forall>x \<in> set l2. bufs (ss_sock y1) x = bufs (ss_sock y2) x"
      and seq: "\<forall>d. m_cur_seq (conns (ss_sock y1) d) = m_cur_seq (conns (ss_sock y) d)"
      by auto
    have "0 < throw_send_cnt (conns (ss_sock y) c) \<longrightarrow> msgs_to dest c (a # taken) = []" for c
      using False t(5) eff(5) [of c] by (cases "c = dest a") auto
    moreover have "bufs (ss_sock y1) x = bufs (ss_sock y) x" if "x \<in> set l2" for x
      using that same eff(4) [of x] Cons.prems(3) by auto
    ultimately show ?thesis
      using t seq by (intro exI [of _ "a # taken"] exI [of _ rest] exI [of _ o1] exI [of _ y1]) simp
  qed
qed

text \<open>
  The loop at a stale message: the entry is erased and the loop ends with a bad access, behind the
  end of the list or at the message whose buffer was freed in place of the stale one.
\<close>

lemma send_list_loop_stale:
  assumes "bufs (ss_sock y) a = Some b" and "m_cur_seq (conns (ss_sock y) (mh_pconn (buf_hdr b))) \<noteq> mh_cur_seq (buf_hdr b)"
    and "\<forall>x \<in> set post. bufs (ss_sock y) x \<noteq> None"
  shows "\<exists>y'. send_list_loop uh pre (a # post) outs y = Some (outs, y') \<and>
    m_send_list (ss_sock y') = pre @ post \<and> m_send_list_cnt (ss_sock y') = m_send_list_cnt (ss_sock y) - 1 \<and>
    ss_wire y' = ss_wire y \<and> faults (ss_sock y') = Bad_deref # faults (ss_sock y) \<and>
    (\<forall>x. x \<notin> set post \<longrightarrow> bufs (ss_sock y') x = bufs (ss_sock y) x)"
proof (cases post)
  case Nil
  with assms(1,2) show ?thesis by (simp add: Let_def raise_fault_def)
next
  case (Cons a' post')
  with assms(3) obtain b' where "bufs (ss_sock y) a' = Some b'" by auto
  with Cons assms(1,2) show ?thesis by (auto simp: Let_def raise_fault_def delete_buf_def)
qed

section \<open>Complete sends\<close>

text \<open>A non-empty message whose size field agrees with what the buffer holds.\<close>

definition sendable :: "bool \<Rightarrow> mgx_buf \<Rightarrow> bool" where
  "sendable uh b \<longleftrightarrow> payload uh b \<noteq> [] \<and> unat (send_size_of uh b) = length (payload uh b)"

lemma send_one_full:
  assumes b: "bufs (ss_sock y) a = Some b" "sendable uh b"
  shows "\<exists>y'. send_one uh a b others (Send_n (length (payload uh b)) # outs) y = Some (outs, y') \<and>
    ss_wire y' = ss_wire y @ [(mh_pconn (buf_hdr b), payload uh b)] \<and>
    bufs (ss_sock y') a = None \<and>
    throw_send_cnt (conns (ss_sock y') (mh_pconn (buf_hdr b))) = 0"
proof -
  define c where "c = mh_pconn (buf_hdr b)"
  define s2 where "s2 = (upd_conn c (\<lambda>k. k\<lparr> psend_buf := Some (a, 0), rest_send_size := send_size_of uh b,
      psend_mem_addr := Some a \<rparr>) (ss_sock y))\<lparr> m_send_list := others,
      m_send_list_cnt := m_send_list_cnt (ss_sock y) - 1 \<rparr>"
  let ?n = "int (length (payload uh b))"
  have pos: "0 < ?n" and sz: "?n = int (unat (rest_send_size (conns s2 c)))"
    using b(2) by (simp_all add: sendable_def s2_def)
  have after: "after_send ?n c s2 = drop_send_mem c (upd_conn c (\<lambda>k. k\<lparr> throw_send_cnt := 0 \<rparr>) s2)"
    using pos sz by (simp add: after_send_def Let_def)
  have "bufs (after_send ?n c s2) a = None"
    unfolding after using b(1) by (simp add: drop_send_mem_def delete_opt_def s2_def)
  moreover have "throw_send_cnt (conns (after_send ?n c s2) c) = 0"
    by (simp add: after)
  ultimately show ?thesis
    using pos by (simp add: send_one_def Let_def c_def [symmetric] s2_def [symmetric])
qed

lemma send_list_loop_full:
  assumes "distinct (post @ l2)" and "\<forall>a \<in> set post. live_msg y dest a"
    and "\<forall>a \<in> set post. \<exists>b. bufs (ss_sock y) a = Some b \<and> sendable uh b \<and> payload uh b = data a"
    and "\<forall>a \<in> set post. throw_send_cnt (conns (ss_sock y) (dest a)) = 0"
    and "m_send_list (ss_sock y) = pre @ post @ l2"
  shows "\<exists>y'. send_list_loop uh pre (post @ l2) (map (\<lambda>a. Send_n (length (data a))) post @ outs) y =
      send_list_loop uh pre l2 outs y' \<and>
    ss_wire y' = ss_wire y @ map (\<lambda>a. (dest a, data a)) post \<and>
    (\<forall>a \<in> set post. bufs (ss_sock y') a = None) \<and>
    (\<forall>x. x \<notin> set post \<longrightarrow> bufs (ss_sock y') x = bufs (ss_sock y) x) \<and>
    m_send_list_cnt (ss_sock y') = m_send_list_cnt (ss_sock y) - int (length post) \<and>
    faults (ss_sock y') = faults (ss_sock y) \<and>
    (\<forall>d. throw_send_cnt (conns (ss_sock y) d) = 0 \<longrightarrow> throw_send_cnt (conns (ss_sock y') d) = 0) \<and>
    (\<forall>d. m_cur_seq (conns (ss_sock y') d) = m_cur_seq (conns (ss_sock y) d)) \<and>
    m_send_list (ss_sock y') = pre @ l2"
  using assms
proof (induction post arbitrary: y)
  case Nil
  then show ?case by auto
next
  case (Cons a post)
  let ?outs = "map (\<lambda>a. Send_n (length (data a))) post @ outs"
  from Cons.prems(2,3) obtain b where b: "bufs (ss_sock y) a = Some b" "mh_pconn (buf_hdr b) = dest a"
    "m_cur_seq (conns (ss_sock y) (dest a)) = mh_cur_seq (buf_hdr b)" "sendable uh b" "payload uh b = data a"
    by (auto simp: live_msg_def)
  obtain y1 where one: "send_one uh a b (pre @ post @ l2) (Send_n (length (data a)) # ?outs) y = Some (?outs, y1)"
    and w1: "ss_wire y1 = ss_wire y @ [(dest a, data a)]" "bufs (ss_sock y1) a = None"
      "throw_send_cnt (conns (ss_sock y1) (dest a)) = 0"
    using send_one_full [OF b(1,4), of "pre @ post @ l2" ?outs] b by auto
  note eff = send_one_effect [OF one b(1,2)]
  have d: "distinct (a # post)" using Cons.prems(1) by simp
  have other: "\<forall>x \<in> set post. bufs (ss_sock y1) x = bufs (ss_sock y) x"
    using d eff(4) by (metis distinct.simps(2))
  have free: "\<forall>x \<in> set post. throw_send_cnt (conns (ss_sock y1) (dest x)) = 0"
    using Cons.prems(4) w1(3) eff(5) by (metis list.set_intros(2))
  have p: "distinct (post @ l2)" "\<forall>x \<in> set post. \<exists>b. bufs (ss_sock y1) x = Some b \<and> sendable uh b \<and> payload uh b = data x"
    "m_send_list (ss_sock y1) = pre @ post @ l2"
    using Cons.prems(1,3) other eff(1) by simp_all
  obtain y' where y': "send_list_loop uh pre (post @ l2) ?outs y1 = send_list_loop uh pre l2 outs y'"
    "ss_wire y' = ss_wire y1 @ map (\<lambda>a. (dest a, data a)) post"
    "\<forall>a \<in> set post. bufs (ss_sock y') a = None"
    "\<forall>x. x \<notin> set post \<longrightarrow> bufs (ss_sock y') x = bufs (ss_sock y1) x"
    "m_send_list_cnt (ss_sock y') = m_send_list_cnt (ss_sock y1) - int (length post)"
    "faults (ss_sock y') = faults (ss_sock y1)" "m_send_list (ss_sock y') = pre @ l2"
    "\<forall>d. throw_send_cnt (conns (ss_sock y1) d) = 0 \<longrightarrow> throw_send_cnt (conns (ss_sock y') d) = 0"
    "\<forall>d. m_cur_seq (conns (ss_sock y') d) = m_cur_seq (conns (ss_sock y1) d)"
    using Cons.IH [OF p(1) live_msgs_send_one [OF one b(1) d Cons.prems(2)] p(2) free p(3)] by blast
  have "send_list_loop uh pre ((a # post) @ l2) (map (\<lambda>a. Send_n (length (data a))) (a # post) @ outs) y
      = send_list_loop uh pre l2 outs y'"
    using b Cons.prems(4) one y'(1) by (simp add: Let_def)
  moreover have "bufs (ss_sock y') x = bufs (ss_sock y) x" if "x \<notin> set (a # post)" for x
    using that y'(4) eff(4) by simp
  moreover have "bufs (ss_sock y') x = None" if "x \<in> set (a # post)" for x
    using that y'(3,4) w1(2) by auto
  moreover have "throw_send_cnt (conns (ss_sock y') d) = 0" if "throw_send_cnt (conns (ss_sock y) d) = 0" for d
    using that y'(8) w1(3) eff(5) by (cases "d = dest a") auto
  ultimately show ?case
    using y'(2,5-7,9) w1(1) eff(2,3,6) by (intro exI [of _ y']) simp
qed

section \<open>Properties\<close>

definition dest_of :: "send_sys \<Rightarrow> addr \<Rightarrow> conn_ptr" where
  "dest_of y a = (case bufs (ss_sock y) a of None \<Rightarrow> 0 | Some b \<Rightarrow> mh_pconn (buf_hdr b))"

text \<open>
  The send queue as the program keeps it: counted, without duplicates, every message
  allocated. It is split in front of the first stale message, one of an earlier use of its connection.
\<close>

definition send_queue_wf :: "send_sys \<Rightarrow> bool" where
  "send_queue_wf y \<longleftrightarrow>
     distinct (m_send_list (ss_sock y)) \<and>
     m_send_list_cnt (ss_sock y) = int (length (m_send_list (ss_sock y))) \<and>
     (\<forall>a \<in> set (m_send_list (ss_sock y)). bufs (ss_sock y) a \<noteq> None)"

definition current_part :: "send_sys \<Rightarrow> addr list" where
  "current_part y = takeWhile (\<lambda>a. live_msg y (dest_of y) a) (m_send_list (ss_sock y))"

definition stale_part :: "send_sys \<Rightarrow> addr list" where
  "stale_part y = dropWhile (\<lambda>a. live_msg y (dest_of y) a) (m_send_list (ss_sock y))"

lemma send_queue_split: "m_send_list (ss_sock y) = current_part y @ stale_part y"
  by (simp add: current_part_def stale_part_def)

lemma current_part_live: "a \<in> set (current_part y) \<Longrightarrow> live_msg y (dest_of y) a"
  unfolding current_part_def by (rule set_takeWhileD [THEN conjunct2])

text \<open>What the loop does at the stale part, in any state that still has the messages and sequence numbers.\<close>

lemma stale_part_loop:
  assumes "send_queue_wf y" and "\<forall>x \<in> set (stale_part y). bufs (ss_sock z) x = bufs (ss_sock y) x"
    and "\<forall>d. m_cur_seq (conns (ss_sock z) d) = m_cur_seq (conns (ss_sock y) d)"
    and "m_send_list (ss_sock z) = pre @ stale_part y"
  shows "\<exists>y'. send_list_loop uh pre (stale_part y) outs z = Some (outs, y') \<and>
    m_send_list (ss_sock y') = pre @ tl (stale_part y) \<and>
    m_send_list_cnt (ss_sock y') = m_send_list_cnt (ss_sock z) - of_bool (stale_part y \<noteq> []) \<and>
    ss_wire y' = ss_wire z \<and>
    faults (ss_sock y') = (if stale_part y = [] then faults (ss_sock z) else Bad_deref # faults (ss_sock z)) \<and>
    (\<forall>x. x \<notin> set (stale_part y) \<longrightarrow> bufs (ss_sock y') x = bufs (ss_sock z) x) \<and>
    (stale_part y = [] \<longrightarrow> y' = z)"
proof (cases "stale_part y")
  case Nil
  with assms(4) show ?thesis by simp
next
  case (Cons a post)
  have alive: "bufs (ss_sock y) x \<noteq> None" if "x \<in> set (stale_part y)" for x
    using that assms(1) send_queue_split [of y] by (simp add: send_queue_wf_def)
  then obtain b where b: "bufs (ss_sock y) a = Some b" using Cons by fastforce
  have "\<not> live_msg y (dest_of y) a"
    using Cons unfolding stale_part_def dropWhile_eq_Cons_conv by simp
  with b have "m_cur_seq (conns (ss_sock y) (mh_pconn (buf_hdr b))) \<noteq> mh_cur_seq (buf_hdr b)"
    by (simp add: live_msg_def dest_of_def)
  with b assms(2,3) Cons have st: "bufs (ss_sock z) a = Some b"
    "m_cur_seq (conns (ss_sock z) (mh_pconn (buf_hdr b))) \<noteq> mh_cur_seq (buf_hdr b)" by simp_all
  have "\<forall>x \<in> set post. bufs (ss_sock z) x \<noteq> None"
    using alive assms(2) Cons by simp
  from send_list_loop_stale [OF st this, of uh pre outs] Cons show ?thesis by auto
qed

text \<open>The send queue without stale messages.\<close>

definition send_queue_ok :: "send_sys \<Rightarrow> bool" where
  "send_queue_ok y \<longleftrightarrow>
     distinct (m_send_list (ss_sock y)) \<and>
     m_send_list_cnt (ss_sock y) = int (length (m_send_list (ss_sock y))) \<and>
     (\<forall>a \<in> set (m_send_list (ss_sock y)). live_msg y (dest_of y) a)"

definition demo_ping :: bytes where
  "demo_ping = [8, 0, 0, 0, 0, 0, 0, 0]"

definition demo_msg :: mgx_buf where
  "demo_msg = \<lparr> buf_hdr = mk_msg_hdr 16 0, buf_data = demo_ping \<rparr>"

definition demo_send :: send_sys where
  "demo_send =
     \<lparr> ss_sock = Mgx_socket\<lparr> bufs := [64 \<mapsto> demo_msg], m_send_list := [64], m_send_list_cnt := 1,
                             m_send_queue_sem := 1 \<rparr>,
       ss_wire = [] \<rparr>"

lemma send_queue_ok_wf:
  assumes "send_queue_ok y"
  shows "send_queue_wf y" and "current_part y = m_send_list (ss_sock y)" and "stale_part y = []"
proof -
  have "\<forall>a \<in> set (m_send_list (ss_sock y)). live_msg y (dest_of y) a"
    using assms by (simp add: send_queue_ok_def)
  then show "current_part y = m_send_list (ss_sock y)" "stale_part y = []"
    by (simp_all add: current_part_def stale_part_def)
  show "send_queue_wf y" using assms by (auto simp: send_queue_ok_def send_queue_wf_def live_msg_def)
qed

lemma demo_send_ok: "send_queue_ok demo_send"
  by (simp add: send_queue_ok_def demo_send_def live_msg_def dest_of_def demo_msg_def mk_msg_hdr_def
      Mgx_socket_def new_conn_def)

text \<open>The round is the loop, in a state that differs in the semaphore only.\<close>

definition woken :: "send_sys \<Rightarrow> send_sys" where
  "woken y = y\<lparr> ss_sock := (ss_sock y)\<lparr> m_send_queue_sem := m_send_queue_sem (ss_sock y) - 1 \<rparr> \<rparr>"

lemma woken_fields [simp]:
  "bufs (ss_sock (woken y)) = bufs (ss_sock y)" "conns (ss_sock (woken y)) = conns (ss_sock y)"
  "ss_wire (woken y) = ss_wire y" "faults (ss_sock (woken y)) = faults (ss_sock y)"
  "m_send_list_cnt (ss_sock (woken y)) = m_send_list_cnt (ss_sock y)"
  "m_send_list (ss_sock (woken y)) = m_send_list (ss_sock y)" "live_msg (woken y) = live_msg y"
  by (simp_all add: woken_def live_msg_def fun_eq_iff)

lemma send_round_loop:
  assumes "send_queue_wf y"
  shows "send_msg_th_round uh outs y = send_list_loop uh [] (current_part y @ stale_part y) outs (woken y)"
proof (cases "m_send_list (ss_sock y)")
  case Nil
  with assms send_queue_split [of y] show ?thesis
    by (simp add: send_msg_th_round_def send_queue_wf_def woken_def)
next
  case (Cons a l)
  with assms show ?thesis
    by (simp add: send_msg_th_round_def send_queue_wf_def woken_def Let_def send_queue_split [symmetric])
qed

text \<open>
  C14: order per connection. Whatever the kernel accepts, one round of the send thread that returns keeps
  the messages of each connection in order: those it took off the list, followed by those it
  left, are the messages that were queued for that connection, the counter stays exact and no
  buffer is used after it was freed. This holds for the messages in front of the first stale one
  (one of an earlier use of its connection); there the round stops with a bad access (C16). Without a
  stale message it holds for the whole list.
\<close>

theorem send_round_keeps_connection_order:
  assumes "send_queue_wf y" and "send_msg_th_round uh outs y = Some (outs', y')"
  shows "\<exists>taken rest. m_send_list (ss_sock y') = rest @ tl (stale_part y) \<and>
    (\<forall>c. msgs_to (dest_of y) c (current_part y) = msgs_to (dest_of y) c taken @ msgs_to (dest_of y) c rest) \<and>
    m_send_list_cnt (ss_sock y') = int (length (m_send_list (ss_sock y'))) \<and>
    faults (ss_sock y') = (if stale_part y = [] then faults (ss_sock y) else Bad_deref # faults (ss_sock y))"
proof -
  have "m_send_list (ss_sock (woken y)) = [] @ current_part y @ stale_part y" "distinct (current_part y @ stale_part y)"
    "\<forall>a \<in> set (current_part y). live_msg (woken y) (dest_of y) a"
    using assms(1) by (simp_all add: send_queue_wf_def current_part_live flip: send_queue_split)
  from send_list_loop_order [OF assms(2) [unfolded send_round_loop [OF assms(1)]] this]
  obtain taken rest o1 y1 where t: "send_list_loop uh rest (stale_part y) o1 y1 = Some (outs', y')"
    "m_send_list (ss_sock y1) = rest @ stale_part y" "length (current_part y) = length taken + length rest"
    "\<forall>c. msgs_to (dest_of y) c (current_part y) = msgs_to (dest_of y) c taken @ msgs_to (dest_of y) c rest"
    "m_send_list_cnt (ss_sock y1) = m_send_list_cnt (ss_sock y) - int (length taken)"
    "faults (ss_sock y1) = faults (ss_sock y)" "\<forall>x \<in> set (stale_part y). bufs (ss_sock y1) x = bufs (ss_sock y) x"
    "\<forall>d. m_cur_seq (conns (ss_sock y1) d) = m_cur_seq (conns (ss_sock y) d)"
    by auto
  from stale_part_loop [OF assms(1) t(7,8,2), of uh o1] t(1,6) have
    "m_send_list (ss_sock y') = rest @ tl (stale_part y)"
    "m_send_list_cnt (ss_sock y') = m_send_list_cnt (ss_sock y1) - of_bool (stale_part y \<noteq> [])"
    "faults (ss_sock y') = (if stale_part y = [] then faults (ss_sock y) else Bad_deref # faults (ss_sock y))"
    by auto
  moreover have "m_send_list_cnt (ss_sock y1) = int (length rest + length (stale_part y))"
    using t(3,5) assms(1) arg_cong [OF send_queue_split [of y], of length] by (simp add: send_queue_wf_def)
  ultimately show ?thesis
    using t(4) by (intro exI [of _ taken] exI [of _ rest]) (cases "stale_part y"; simp)
qed

theorem send_round_keeps_connection_order_witness:
  "\<exists>y' taken. send_msg_th_round False [Send_err EAGAIN] demo_send = Some ([], y') \<and>
    msgs_to (dest_of demo_send) 16 [64] =
      msgs_to (dest_of demo_send) 16 taken @ msgs_to (dest_of demo_send) 16 (m_send_list (ss_sock y'))"
proof -
  have "\<exists>y'. send_msg_th_round False [Send_err EAGAIN] demo_send = Some ([], y')"
    by (simp add: send_msg_th_round_def demo_send_def send_one_def Let_def demo_msg_def
        mk_msg_hdr_def Mgx_socket_def new_conn_def)
  then obtain y' where y': "send_msg_th_round False [Send_err EAGAIN] demo_send = Some ([], y')" ..
  moreover have "current_part demo_send = [64]" "stale_part demo_send = []"
    using send_queue_ok_wf(2,3) [OF demo_send_ok] by (simp_all add: demo_send_def)
  ultimately show ?thesis
    using send_round_keeps_connection_order [OF send_queue_ok_wf(1) [OF demo_send_ok] y']
    by (metis append_Nil2 list.sel(2))
qed

lemma send_round_upto:
  assumes "send_queue_wf y"
    and "\<forall>a \<in> set (current_part y). throw_send_cnt (conns (ss_sock y) (dest_of y a)) = 0"
    and "\<forall>a \<in> set (current_part y). \<exists>b. bufs (ss_sock y) a = Some b \<and> sendable uh b \<and> payload uh b = data a"
  shows "\<exists>y'. send_msg_th_round uh (map (\<lambda>a. Send_n (length (data a))) (current_part y)) y = Some ([], y') \<and>
    ss_wire y' = ss_wire y @ map (\<lambda>a. (dest_of y a, data a)) (current_part y) \<and>
    m_send_list (ss_sock y') = tl (stale_part y) \<and>
    m_send_list_cnt (ss_sock y') = int (length (tl (stale_part y))) \<and>
    (\<forall>a \<in> set (current_part y). bufs (ss_sock y') a = None) \<and>
    faults (ss_sock y') = (if stale_part y = [] then faults (ss_sock y) else Bad_deref # faults (ss_sock y)) \<and>
    (\<forall>x. x \<notin> set (m_send_list (ss_sock y)) \<longrightarrow> bufs (ss_sock y') x = bufs (ss_sock y) x) \<and>
    (stale_part y = [] \<longrightarrow>
      (\<forall>d. throw_send_cnt (conns (ss_sock y) d) = 0 \<longrightarrow> throw_send_cnt (conns (ss_sock y') d) = 0))"
proof -
  let ?cur = "current_part y" and ?st = "stale_part y"
  have d: "distinct (?cur @ ?st)"
    using assms(1) unfolding send_queue_wf_def send_queue_split [symmetric] by blast
  have cnt: "m_send_list_cnt (ss_sock y) = int (length ?cur + length ?st)"
    using assms(1) unfolding send_queue_wf_def length_append [symmetric] send_queue_split [symmetric] by blast
  have pre: "\<forall>a \<in> set ?cur. live_msg (woken y) (dest_of y) a" "m_send_list (ss_sock (woken y)) = [] @ ?cur @ ?st"
    using current_part_live by (simp_all add: send_queue_split [symmetric])
  obtain z where
    z: "send_list_loop uh [] (?cur @ ?st) (map (\<lambda>a. Send_n (length (data a))) ?cur @ []) (woken y) = send_list_loop uh [] ?st [] z"
    "ss_wire z = ss_wire y @ map (\<lambda>a. (dest_of y a, data a)) ?cur" "\<forall>a \<in> set ?cur. bufs (ss_sock z) a = None"
    "\<forall>x. x \<notin> set ?cur \<longrightarrow> bufs (ss_sock z) x = bufs (ss_sock y) x"
    "m_send_list_cnt (ss_sock z) = m_send_list_cnt (ss_sock y) - int (length ?cur)"
    "faults (ss_sock z) = faults (ss_sock y)" "m_send_list (ss_sock z) = [] @ ?st"
    "\<forall>d. throw_send_cnt (conns (ss_sock y) d) = 0 \<longrightarrow> throw_send_cnt (conns (ss_sock z) d) = 0"
    "\<forall>d. m_cur_seq (conns (ss_sock z) d) = m_cur_seq (conns (ss_sock y) d)"
    using send_list_loop_full [OF d pre(1) _ _ pre(2), of uh data "[]", unfolded woken_fields, OF assms(3,2)] by blast
  have "\<forall>x \<in> set ?st. bufs (ss_sock z) x = bufs (ss_sock y) x"
    using d z(4) by auto
  from stale_part_loop [OF assms(1) this z(9,7), of uh "[]"] obtain y' where
    y': "send_list_loop uh [] ?st [] z = Some ([], y')" "m_send_list (ss_sock y') = tl ?st"
    "m_send_list_cnt (ss_sock y') = m_send_list_cnt (ss_sock z) - of_bool (?st \<noteq> [])" "ss_wire y' = ss_wire z"
    "faults (ss_sock y') = (if ?st = [] then faults (ss_sock z) else Bad_deref # faults (ss_sock z))"
    "\<forall>x. x \<notin> set ?st \<longrightarrow> bufs (ss_sock y') x = bufs (ss_sock z) x" "?st = [] \<longrightarrow> y' = z" unfolding append_Nil by blast
  have "m_send_list_cnt (ss_sock y') = int (length (tl ?st))"
    using y'(3) z(5) cnt by (cases ?st) simp_all
  moreover have "\<forall>a \<in> set ?cur. bufs (ss_sock y') a = None"
    using d y'(6) z(3) by auto
  moreover have "\<forall>x. x \<notin> set (m_send_list (ss_sock y)) \<longrightarrow> bufs (ss_sock y') x = bufs (ss_sock y) x"
    using y'(6) z(4) by (simp add: send_queue_split)
  ultimately show ?thesis
    using y'(1,2,4,5,7) z(1,2,6,8) by (intro exI [of _ y']) (simp add: send_round_loop [OF assms(1)])
qed

lemma send_round_full:
  assumes "send_queue_ok y" and "m_send_list (ss_sock y) = l"
    and "\<forall>a \<in> set l. throw_send_cnt (conns (ss_sock y) (dest_of y a)) = 0"
    and "\<forall>a \<in> set l. \<exists>b. bufs (ss_sock y) a = Some b \<and> sendable uh b \<and> payload uh b = data a"
  shows "\<exists>y'. send_msg_th_round uh (map (\<lambda>a. Send_n (length (data a))) l) y = Some ([], y') \<and>
    ss_wire y' = ss_wire y @ map (\<lambda>a. (dest_of y a, data a)) l \<and>
    m_send_list (ss_sock y') = [] \<and> m_send_list_cnt (ss_sock y') = 0 \<and>
    (\<forall>a \<in> set l. bufs (ss_sock y') a = None) \<and> faults (ss_sock y') = faults (ss_sock y) \<and>
    (\<forall>x. x \<notin> set l \<longrightarrow> bufs (ss_sock y') x = bufs (ss_sock y) x) \<and>
    (\<forall>d. throw_send_cnt (conns (ss_sock y) d) = 0 \<longrightarrow> throw_send_cnt (conns (ss_sock y') d) = 0)"
  using send_round_upto [OF send_queue_ok_wf(1) [OF assms(1)], of uh data] assms(2-4)
  by (simp add: send_queue_ok_wf [OF assms(1)])

text \<open>
  C15: if no connection is blocked and the kernel takes every message completely, one round
  puts the payloads of the queued messages on the wire in queue order, up to the first stale one,
  and frees their buffers. If there is no stale message, these are all messages: the list is
  empty and the counter zero afterwards, and there is no access to freed memory. At a stale
  message the round ends with a bad access, and the messages behind it stay in the list.
\<close>

theorem send_round_delivers_all:
  assumes "send_queue_wf y"
    and "\<forall>a \<in> set (current_part y). throw_send_cnt (conns (ss_sock y) (dest_of y a)) = 0"
    and "\<forall>a \<in> set (current_part y). \<exists>b. bufs (ss_sock y) a = Some b \<and> sendable uh b \<and> payload uh b = data a"
  shows "\<exists>y'. send_msg_th_round uh (map (\<lambda>a. Send_n (length (data a))) (current_part y)) y = Some ([], y') \<and>
    ss_wire y' = ss_wire y @ map (\<lambda>a. (dest_of y a, data a)) (current_part y) \<and>
    m_send_list (ss_sock y') = tl (stale_part y) \<and>
    m_send_list_cnt (ss_sock y') = int (length (tl (stale_part y))) \<and>
    (\<forall>a \<in> set (current_part y). bufs (ss_sock y') a = None) \<and>
    faults (ss_sock y') = (if stale_part y = [] then faults (ss_sock y) else Bad_deref # faults (ss_sock y))"
  using send_round_upto [OF assms] by blast

lemma demo_ping_payload: "payload False demo_msg = demo_ping" "sendable False demo_msg"
  by (simp_all add: sendable_def payload_def send_size_of_def demo_msg_def demo_ping_def load_pkg_hdr_def)

lemma demo_send_fields:
  "m_send_list (ss_sock demo_send) = [64]" "bufs (ss_sock demo_send) 64 = Some demo_msg"
  "dest_of demo_send 64 = 16" "throw_send_cnt (conns (ss_sock demo_send) 16) = 0"
  "ss_wire demo_send = []" "mh_pconn (buf_hdr demo_msg) = 16" "length demo_ping = 8"
  by (simp_all add: demo_send_def dest_of_def Mgx_socket_def new_conn_def demo_msg_def mk_msg_hdr_def
      demo_ping_def)

theorem send_round_delivers_all_witness:
  "\<exists>y'. send_msg_th_round False [Send_n 8] demo_send = Some ([], y') \<and>
    ss_wire y' = [(16, demo_ping)] \<and> m_send_list (ss_sock y') = []"
  using send_round_delivers_all [OF send_queue_ok_wf(1) [OF demo_send_ok], of False "\<lambda>_. demo_ping"]
  by (auto simp: demo_send_fields demo_ping_payload send_queue_ok_wf(2,3) [OF demo_send_ok])

text \<open>
  C16: the branch for stale messages frees the wrong buffer. When the message at the iterator
  belongs to an earlier use of its connection, its own buffer stays allocated for ever, the
  buffer of the next message is freed although that message stays in the list, and the next
  turn of the loop reads it.
\<close>

theorem stale_branch_frees_successor:
  assumes "bufs (ss_sock y) a = Some b"
    and "m_cur_seq (conns (ss_sock y) (mh_pconn (buf_hdr b))) \<noteq> mh_cur_seq (buf_hdr b)"
    and "bufs (ss_sock y) a' = Some b'" and "a \<noteq> a'"
  shows "\<exists>y'. send_list_loop uh pre (a # a' # post) outs y = Some (outs, y') \<and>
    bufs (ss_sock y') a = Some b \<and> bufs (ss_sock y') a' = None \<and>
    m_send_list (ss_sock y') = pre @ a' # post \<and> faults (ss_sock y') = Bad_deref # faults (ss_sock y)"
  using assms by (simp add: Let_def raise_fault_def delete_buf_def)

definition demo_stale :: send_sys where
  "demo_stale =
     \<lparr> ss_sock = Mgx_socket\<lparr> bufs := [64 \<mapsto> \<lparr> buf_hdr = mk_msg_hdr 16 5, buf_data = demo_ping \<rparr>,
                                      80 \<mapsto> demo_msg],
                             m_send_list := [64, 80], m_send_list_cnt := 2 \<rparr>,
       ss_wire = [] \<rparr>"

theorem stale_branch_frees_successor_witness:
  "\<exists>y'. send_list_loop False [] [64, 80] [] demo_stale = Some ([], y') \<and>
    bufs (ss_sock y') 80 = None \<and> m_send_list (ss_sock y') = [80]"
  using stale_branch_frees_successor [of demo_stale 64 "\<lparr> buf_hdr = mk_msg_hdr 16 5, buf_data = demo_ping \<rparr>"
      80 demo_msg False "[]" "[]" "[]"]
  by (auto simp: demo_stale_def mk_msg_hdr_def Mgx_socket_def new_conn_def)

text \<open>
  A partial send is recorded for the write handler: the connection is blocked for the send
  thread, \<open>psend_buf\<close> and \<open>rest_send_size\<close> describe exactly the bytes that are left, the buffer
  stays allocated, and \<open>EPOLLOUT\<close> is requested with the tagged connection pointer.
\<close>

theorem partial_send_recorded:
  assumes "bufs (ss_sock y) a = Some b" and "sendable uh b" and "mh_pconn (buf_hdr b) = c"
    and "throw_send_cnt (conns (ss_sock y) c) = 0" and "0 < n" and "n < length (payload uh b)"
  shows "\<exists>y'. send_one uh a b others (Send_n n # outs) y = Some (outs, y') \<and>
    ss_wire y' = ss_wire y @ [(c, take n (payload uh b))] \<and>
    throw_send_cnt (conns (ss_sock y') c) = 1 \<and> psend_buf (conns (ss_sock y') c) = Some (a, int n) \<and>
    unat (rest_send_size (conns (ss_sock y') c)) = length (drop n (payload uh b)) \<and>
    bufs (ss_sock y') a = Some b \<and>
    c_events (conns (ss_sock y') c) = c_events (conns (ss_sock y) c) OR EPOLLOUT \<and>
    faults (ss_sock y') = faults (ss_sock y)"
proof -
  define s2 where "s2 = (upd_conn c (\<lambda>k. k\<lparr> psend_buf := Some (a, 0), rest_send_size := send_size_of uh b,
      psend_mem_addr := Some a \<rparr>) (ss_sock y))\<lparr> m_send_list := others,
      m_send_list_cnt := m_send_list_cnt (ss_sock y) - 1 \<rparr>"
  have sz: "unat (send_size_of uh b) = length (payload uh b)" using assms(2) by (simp add: sendable_def)
  have k2: "conns s2 c = (conns (ss_sock y) c)\<lparr> psend_buf := Some (a, 0),
      rest_send_size := send_size_of uh b, psend_mem_addr := Some a \<rparr>" by (simp add: s2_def)
  have after: "after_send (int n) c s2 = arm_epollout c (upd_conn c (\<lambda>k. k\<lparr>
        psend_buf := map_option (\<lambda>(a, off). (a, off + int n)) (psend_buf k),
        rest_send_size := rest_send_size k - word_of_int (int n),
        throw_send_cnt := throw_send_cnt k + 1 \<rparr>) s2)"
    using assms(5,6) sz by (simp add: after_send_def Let_def k2 int_eq_uint)
  have rest: "unat (send_size_of uh b - word_of_nat n) = length (payload uh b) - n"
    using unat_sub_le [of n "send_size_of uh b"] sz assms(6) by simp
  have "send_one uh a b others (Send_n n # outs) y = Some (outs, y\<lparr> ss_sock := after_send (int n) c s2,
      ss_wire := ss_wire y @ [(c, take n (payload uh b))] \<rparr>)"
    using assms(3,5) by (simp add: send_one_def Let_def s2_def)
  then show ?thesis
    using assms(1,4) rest by (simp add: after k2) (simp add: s2_def)
qed

theorem partial_send_recorded_witness:
  "\<exists>y'. send_one False 64 demo_msg [] [Send_n 3] demo_send = Some ([], y') \<and>
    psend_buf (conns (ss_sock y') 16) = Some (64, 3) \<and>
    unat (rest_send_size (conns (ss_sock y') 16)) = length (drop 3 demo_ping)"
  using partial_send_recorded [OF demo_send_fields(2), of False 16 3 "[]" "[]"]
  by (auto simp: demo_send_fields demo_ping_payload)

text \<open>
  C18: the write handler does not continue where the partial send stopped. It passes
  \<open>psend_mem_addr\<close> to \<open>send\<close>, the start of the allocation, instead of \<open>psend_buf\<close>: with the kernel
  accepting the whole rest, the bytes it puts on the wire are the first bytes of the internal
  message header and of the package, never the rest of the payload, and the message is then
  dropped as complete.
\<close>

theorem write_handler_restarts_at_allocation:
  assumes "psend_mem_addr (conns (ss_sock y) c) = Some a" and "bufs (ss_sock y) a = Some b"
    and "rest_send_size (conns (ss_sock y) c) = r" and "0 < unat r"
  shows "\<exists>y'. send_msg_handler img c (Send_n (unat r) # outs) y = Some (outs, y') \<and>
    ss_wire y' = ss_wire y @ [(c, take (unat r) (img (buf_hdr b) @ buf_data b))] \<and>
    bufs (ss_sock y') a = None \<and> throw_send_cnt (conns (ss_sock y') c) = 0"
proof -
  have "0 < int (unat r)" using assms(4) by (simp only: of_nat_0_less_iff)
  then have "0 < uint r" and "uint r \<noteq> -1" by simp_all
  with assms show ?thesis
    by (simp add: send_msg_handler_def Let_def mem_image_def epoll_oper_event_mod)
      (simp add: drop_send_mem_def delete_opt_def)
qed

definition demo_rest :: send_sys where
  "demo_rest = \<lparr> ss_sock = Mgx_socket\<lparr> bufs := [64 \<mapsto> demo_msg], conns := (\<lambda>_. new_conn)(16 :=
       new_conn\<lparr> psend_mem_addr := Some 64, psend_buf := Some (64, 3), rest_send_size := 5,
                 throw_send_cnt := 1 \<rparr>) \<rparr>, ss_wire = [] \<rparr>"

lemma demo_rest_fields:
  "psend_mem_addr (conns (ss_sock demo_rest) 16) = Some 64" "bufs (ss_sock demo_rest) 64 = Some demo_msg"
  "rest_send_size (conns (ss_sock demo_rest) 16) = 5" "ss_wire demo_rest = []"
  by (simp_all add: demo_rest_def)

theorem write_handler_restarts_at_allocation_witness:
  "\<exists>y'. send_msg_handler (\<lambda>h. le_enc 8 (unat (mh_pconn h)) @ le_enc 8 (unat (mh_cur_seq h))) 16
      [Send_n 5] demo_rest = Some ([], y') \<and> ss_wire y' = [(16, [16, 0, 0, 0, 0])]"
proof -
  have enc: "le_enc 8 16 = [16, 0, 0, 0, 0, 0, 0, 0]" by code_simp
  show ?thesis
    using write_handler_restarts_at_allocation [OF demo_rest_fields(1-3), of
        "\<lambda>h. le_enc 8 (unat (mh_pconn h)) @ le_enc 8 (unat (mh_cur_seq h))" "[]"]
    by (auto simp: demo_rest_fields demo_send_fields enc)
qed

end
