(* ===== verification/Mgx_Logic.thy ===== *)
theory Mgx_Logic
  imports Mgx_Crc32 Mgx_Send
begin

text \<open>
  \<^verbatim>\<open>src/bussiness/mgx_logic_socket.cpp\<close>: what a worker does with a complete message. The
  checksum, the sequence number and the package type are tested, then the handler of the type
  runs. Handlers answer through the send list of \<^verbatim>\<open>src/net/mgx_socket.cpp\<close>.
\<close>

section \<open>Operations\<close>

datatype PKG_TYPE = PING | REGISTER | LOGIN

fun pkg_type_val :: "PKG_TYPE \<Rightarrow> u16" where
  "pkg_type_val PING = 0"
| "pkg_type_val REGISTER = 1"
| "pkg_type_val LOGIN = 2"

datatype pkg_handler = Ping_handler | Register_handler | Login_handler

definition pkg_handlers :: "pkg_handler option list" where
  "pkg_handlers = [Some Ping_handler, Some Register_handler, Some Login_handler, None]"

definition PKG_HANDLERS_CNT :: nat where
  "PKG_HANDLERS_CNT = length pkg_handlers"

text \<open>
  The environment of a handler: the clock, the address the next \<open>new char[]\<close> returns, the log
  level, and the room that is left in the line buffer of \<open>mgx_log\<close> when it reaches the argument.
\<close>

record logic_env =
  le_now :: int
  le_addr :: addr
  le_log_level :: int
  le_room :: nat

definition MGX_LOG_DEBUG :: int where "MGX_LOG_DEBUG = 8"

text \<open>
  \<open>mgx_log(MGX_LOG_DEBUG, "... %s", pkg_body)\<close> reads the body up to a zero byte or until the line
  is full; a null pointer or the end of the buffer before that is a bad read.
\<close>

definition log_body :: "logic_env \<Rightarrow> bytes option \<Rightarrow> mgx_socket \<Rightarrow> mgx_socket" where
  "log_body e body s =
     (if MGX_LOG_DEBUG > le_log_level e then s
      else case body of
             None \<Rightarrow> if le_room e = 0 then s else raise_fault Bad_deref s
           | Some bs \<Rightarrow> if 0 \<in> set bs \<or> le_room e \<le> length bs then s else raise_fault Bad_deref s)"

definition send_msg_with_nobody ::
  "logic_env \<Rightarrow> mgx_msg_hdr \<Rightarrow> u16 \<Rightarrow> mgx_socket \<Rightarrow> mgx_socket" where
  "send_msg_with_nobody e hdr ptype s =
     send_msg (le_addr e)
       (new_buf (le_addr e)
          \<lparr> buf_hdr = hdr,
            buf_data = store_pkg_hdr \<lparr> pkg_size = word_of_nat m_pkg_hdr_size, pkg_type = ptype, crc32 = 0 \<rparr> \<rparr>
          s)"

definition ping_handler ::
  "logic_env \<Rightarrow> mgx_msg_hdr \<Rightarrow> bytes option \<Rightarrow> u16 \<Rightarrow> mgx_socket \<Rightarrow> bool \<times> mgx_socket" where
  "ping_handler e hdr body bsize s =
     (if bsize \<noteq> 0 then (False, s)
      else (True, send_msg_with_nobody e hdr (pkg_type_val PING)
                    (upd_conn (mh_pconn hdr) (\<lambda>c. c\<lparr> last_ping_time := le_now e \<rparr>) s)))"

text \<open>\<open>char send_pkg_body[65000] = "register succeed"\<close>: the text, filled up with zeros.\<close>

definition send_pkg_body :: bytes where
  "send_pkg_body =
     (let text = map (\<lambda>ch. word_of_nat (of_char ch)) ''register succeed''
      in text @ replicate (65000 - length text) 0)"

definition register_handler ::
  "logic_env \<Rightarrow> mgx_msg_hdr \<Rightarrow> bytes option \<Rightarrow> u16 \<Rightarrow> mgx_socket \<Rightarrow> bool \<times> mgx_socket" where
  "register_handler e hdr body bsize s =
     (let s1 = log_body e body s;
          ph = \<lparr> pkg_size = word_of_nat (m_pkg_hdr_size + length send_pkg_body),
                 pkg_type = pkg_type_val REGISTER, crc32 = get_crc32 send_pkg_body \<rparr>
      in (True, send_msg (le_addr e)
                  (new_buf (le_addr e) \<lparr> buf_hdr = hdr, buf_data = store_pkg_hdr ph @ send_pkg_body \<rparr> s1)))"

definition login_handler ::
  "logic_env \<Rightarrow> mgx_msg_hdr \<Rightarrow> bytes option \<Rightarrow> u16 \<Rightarrow> mgx_socket \<Rightarrow> bool \<times> mgx_socket" where
  "login_handler e hdr body bsize s = (True, log_body e body s)"

fun run_handler ::
  "pkg_handler \<Rightarrow> logic_env \<Rightarrow> mgx_msg_hdr \<Rightarrow> bytes option \<Rightarrow> u16 \<Rightarrow> mgx_socket \<Rightarrow> bool \<times> mgx_socket" where
  "run_handler Ping_handler = ping_handler"
| "run_handler Register_handler = register_handler"
| "run_handler Login_handler = login_handler"

text \<open>
  The body a message carries according to its header: none if the size is the header size. A
  size below the header size, or beyond the buffer, makes \<open>get_crc32\<close> read out of bounds.
\<close>

definition body_readable :: "mgx_pkg_hdr \<Rightarrow> bytes \<Rightarrow> bool" where
  "body_readable ph data \<longleftrightarrow>
     m_pkg_hdr_size \<le> unat (pkg_size ph) \<and> unat (pkg_size ph) \<le> length data"

definition pkg_body_of :: "mgx_pkg_hdr \<Rightarrow> bytes \<Rightarrow> bytes option" where
  "pkg_body_of ph data =
     (if unat (pkg_size ph) = m_pkg_hdr_size then None
      else Some (take (unat (pkg_size ph) - m_pkg_hdr_size) (drop m_pkg_hdr_size data)))"

definition crc_ok :: "mgx_pkg_hdr \<Rightarrow> bytes option \<Rightarrow> bool" where
  "crc_ok ph body =
     (case body of None \<Rightarrow> crc32 ph = 0 | Some bs \<Rightarrow> get_crc32 bs = crc32 ph)"

definition th_msg_process_func :: "logic_env \<Rightarrow> addr \<Rightarrow> mgx_socket \<Rightarrow> mgx_socket" where
  "th_msg_process_func e a s =
     (case bufs s a of
        None \<Rightarrow> raise_fault Bad_deref s
      | Some b \<Rightarrow>
          let hdr = buf_hdr b;
              ph = load_pkg_hdr (buf_data b);
              body = pkg_body_of ph (buf_data b)
          in if \<not> body_readable ph (buf_data b) then raise_fault Out_of_bounds s
             else if \<not> crc_ok ph body then s
             else if m_cur_seq (conns s (mh_pconn hdr)) \<noteq> mh_cur_seq hdr then s
             else if unat (pkg_type ph) \<ge> PKG_HANDLERS_CNT then s
             else case pkg_handlers ! unat (pkg_type ph) of
                    None \<Rightarrow> s
                  | Some h \<Rightarrow>
                      snd (run_handler h e hdr body (pkg_size ph - word_of_nat m_pkg_hdr_size) s))"

text \<open>One message in \<open>Mgx_th_pool::th_func\<close>: process it, then \<open>delete[] msg_buf\<close>.\<close>

definition th_handle_msg :: "logic_env \<Rightarrow> addr \<Rightarrow> mgx_socket \<Rightarrow> mgx_socket" where
  "th_handle_msg e a s = delete_buf a (th_msg_process_func e a s)"

section \<open>Dispatch of a well-formed message\<close>

text \<open>A frame as the reassembly delivers it: the size field is the length of the buffer.\<close>

definition frame_ok :: "bytes \<Rightarrow> bool" where
  "frame_ok f \<longleftrightarrow> m_pkg_hdr_size \<le> length f \<and> frame_size f = length f"

lemma frame_ok_readable: "frame_ok f \<Longrightarrow> body_readable (load_pkg_hdr f) f"
  by (simp add: frame_ok_def frame_size_def body_readable_def)

lemma frame_ok_store:
  assumes "unat (pkg_size ph) = m_pkg_hdr_size + length bdy"
  shows "frame_ok (store_pkg_hdr ph @ bdy)"
  using assms by (simp add: frame_ok_def frame_size_def)

lemma pkg_body_of_store:
  "unat (pkg_size ph) = m_pkg_hdr_size + length bdy \<Longrightarrow>
   pkg_body_of ph (store_pkg_hdr ph @ bdy) = (if bdy = [] then None else Some bdy)"
  by (simp add: pkg_body_of_def)

lemma pkg_handlers_nth:
  "pkg_handlers ! 0 = Some Ping_handler" "pkg_handlers ! Suc 0 = Some Register_handler"
  "pkg_handlers ! 2 = Some Login_handler" "pkg_handlers ! 3 = None" "PKG_HANDLERS_CNT = 4"
  by (simp_all add: pkg_handlers_def PKG_HANDLERS_CNT_def)

text \<open>
  When printing a body with \<open>%s\<close> reads outside it: the debug level is on, and the body is missing
  while the line still has room, or it has no zero byte and ends before the line is full.
\<close>

definition log_overread :: "logic_env \<Rightarrow> bytes option \<Rightarrow> bool" where
  "log_overread e body \<longleftrightarrow> MGX_LOG_DEBUG \<le> le_log_level e \<and>
     (case body of None \<Rightarrow> le_room e \<noteq> 0 | Some bs \<Rightarrow> 0 \<notin> set bs \<and> length bs < le_room e)"

lemma log_body_overread: "log_body e body s = (if log_overread e body then raise_fault Bad_deref s else s)"
  by (auto simp: log_body_def log_overread_def split: option.split)

lemma log_body_quiet [simp]: "\<not> log_overread e body \<Longrightarrow> log_body e body s = s"
  by (simp add: log_body_overread)

text \<open>The messages for which this happens: current ones that pass the checks and are printed by their handler.\<close>

definition bad_log_read :: "logic_env \<Rightarrow> addr \<Rightarrow> mgx_socket \<Rightarrow> bool" where
  "bad_log_read e a s \<longleftrightarrow> (case bufs s a of None \<Rightarrow> False
     | Some b \<Rightarrow> let ph = load_pkg_hdr (buf_data b); body = pkg_body_of ph (buf_data b)
       in pkg_type ph \<in> {pkg_type_val REGISTER, pkg_type_val LOGIN} \<and> crc_ok ph body \<and>
          m_cur_seq (conns s (mh_pconn (buf_hdr b))) = mh_cur_seq (buf_hdr b) \<and> log_overread e body)"

text \<open>What every handler may change; the flag says whether the log line reads outside the body.\<close>

definition handler_frame :: "bool \<Rightarrow> logic_env \<Rightarrow> mgx_socket \<Rightarrow> mgx_socket \<Rightarrow> bool" where
  "handler_frame bad e s t \<longleftrightarrow>
     faults t = (if bad then Bad_deref # faults s else faults s) \<and> (\<forall>x. x \<noteq> le_addr e \<longrightarrow> bufs t x = bufs s x) \<and>
     (m_send_list t = m_send_list s \<or>
      m_send_list t = m_send_list s @ [le_addr e] \<and> bufs t (le_addr e) \<noteq> None) \<and>
     (\<forall>c. m_cur_seq (conns t c) = m_cur_seq (conns s c) \<and>
          recv_stat (conns t c) = recv_stat (conns s c))"

lemma handler_frame_refl [simp]: "handler_frame False e s s"
  by (simp add: handler_frame_def)

lemma handler_frame_ping: "handler_frame False e s (snd (ping_handler e hdr body bsize s))"
  by (simp add: handler_frame_def ping_handler_def send_msg_with_nobody_def send_msg_def new_buf_def
      upd_conn_def)

lemma handler_frame_register:
  "handler_frame (log_overread e body) e s (snd (register_handler e hdr body bsize s))"
  by (simp add: handler_frame_def register_handler_def send_msg_def new_buf_def Let_def log_body_overread
      raise_fault_def)

lemma handler_frame_login:
  "handler_frame (log_overread e body) e s (snd (login_handler e hdr body bsize s))"
  by (simp add: handler_frame_def login_handler_def log_body_overread raise_fault_def)

lemma handler_frame_run:
  "handler_frame (h \<noteq> Ping_handler \<and> log_overread e body) e s (snd (run_handler h e hdr body bsize s))"
  by (cases h) (simp_all add: handler_frame_ping handler_frame_register handler_frame_login)

text \<open>The type of a package selects its handler.\<close>

lemma pkg_handlers_select:
  "unat t < PKG_HANDLERS_CNT \<Longrightarrow> pkg_handlers ! unat t =
     (if t = pkg_type_val PING then Some Ping_handler else if t = pkg_type_val REGISTER then Some Register_handler
      else if t = pkg_type_val LOGIN then Some Login_handler else None)"
proof -
  assume "unat t < PKG_HANDLERS_CNT"
  then have "unat t = 0 \<or> unat t = 1 \<or> unat t = 2 \<or> unat t = 3"
    by (simp add: pkg_handlers_nth) linarith
  moreover have "t = word_of_nat (unat t)" by simp
  ultimately show ?thesis
    by (elim disjE) (simp_all add: pkg_handlers_nth)
qed

lemma handler_frame_dispatch:
  assumes "bufs s a = Some b" and "frame_ok (buf_data b)"
  shows "handler_frame (bad_log_read e a s) e s (th_msg_process_func e a s)"
proof -
  let ?ph = "load_pkg_hdr (buf_data b)" and ?body = "pkg_body_of (load_pkg_hdr (buf_data b)) (buf_data b)"
  have small: "t \<in> {pkg_type_val REGISTER, pkg_type_val LOGIN} \<Longrightarrow> unat t < PKG_HANDLERS_CNT" for t
    by (auto simp: pkg_handlers_nth)
  show ?thesis
  proof (cases "crc_ok ?ph ?body \<and> m_cur_seq (conns s (mh_pconn (buf_hdr b))) = mh_cur_seq (buf_hdr b) \<and>
      unat (pkg_type ?ph) < PKG_HANDLERS_CNT")
    case False
    then have "\<not> bad_log_read e a s"
      using small assms(1) by (auto simp: bad_log_read_def Let_def)
    with False assms(1) frame_ok_readable [OF assms(2)] show ?thesis
      by (auto simp: th_msg_process_func_def Let_def)
  next
    case True
    then show ?thesis
      using assms(1) frame_ok_readable [OF assms(2)]
        handler_frame_ping handler_frame_register handler_frame_login
      by (simp add: th_msg_process_func_def bad_log_read_def Let_def pkg_handlers_select)
  qed
qed

section \<open>Properties\<close>

text \<open>
  C19: damaged packages are discarded. If the body that arrived differs from the body the
  checksum was computed for only inside a window of at most 32 bits, the worker leaves the
  whole state unchanged.
\<close>

theorem corrupted_body_discarded:
  assumes "bufs s a = Some b" and "buf_data b = store_pkg_hdr ph @ got"
    and "unat (pkg_size ph) = m_pkg_hdr_size + length got" and "crc32 ph = get_crc32 sent"
    and "msg_bits sent = p @ u @ q" and "msg_bits got = p @ v @ q"
    and "length u = length v" and "length u \<le> 32" and "u \<noteq> v"
  shows "th_msg_process_func e a s = s"
proof -
  have ne: "get_crc32 sent \<noteq> get_crc32 got"
    by (rule crc.burst [OF assms(5-9)])
  have "got \<noteq> []"
    using assms(6,7,9) by (auto simp: msg_bits_def)
  then show ?thesis
    using assms(1-4) ne frame_ok_readable [OF frame_ok_store [OF assms(3)]]
    by (simp add: th_msg_process_func_def Let_def pkg_body_of_store crc_ok_def)
qed


definition demo_env :: logic_env where
  "demo_env = \<lparr> le_now = 100, le_addr = 96, le_log_level = 6, le_room = 200 \<rparr>"

definition demo_login :: mgx_buf where
  "demo_login = \<lparr> buf_hdr = mk_msg_hdr 16 0,
     buf_data = store_pkg_hdr \<lparr> pkg_size = 8, pkg_type = 2, crc32 = 0 \<rparr> \<rparr>"

lemma demo_login_frame: "frame_ok (buf_data demo_login)"
  using frame_ok_store [of "\<lparr> pkg_size = 8, pkg_type = 2, crc32 = 0 \<rparr>" "[]"]
  by (simp add: demo_login_def m_pkg_hdr_size_def)


theorem corrupted_body_discarded_witness:
  "th_msg_process_func demo_env 64 (Mgx_socket\<lparr> bufs := [64 \<mapsto>
      \<lparr> buf_hdr = mk_msg_hdr 16 0,
        buf_data = store_pkg_hdr \<lparr> pkg_size = 9, pkg_type = 2, crc32 = get_crc32 [7] \<rparr> @ [5] \<rparr>] \<rparr>) =
   Mgx_socket\<lparr> bufs := [64 \<mapsto>
      \<lparr> buf_hdr = mk_msg_hdr 16 0,
        buf_data = store_pkg_hdr \<lparr> pkg_size = 9, pkg_type = 2, crc32 = get_crc32 [7] \<rparr> @ [5] \<rparr>] \<rparr>"
  by (rule corrupted_body_discarded [where p = "[]" and u = "byte_bits 7" and v = "byte_bits 5" and q = "[]"
        and sent = "[7]" and got = "[5]" and ph = "\<lparr> pkg_size = 9, pkg_type = 2, crc32 = get_crc32 [7] \<rparr>"
        and b = "\<lparr> buf_hdr = mk_msg_hdr 16 0,
          buf_data = store_pkg_hdr \<lparr> pkg_size = 9, pkg_type = 2, crc32 = get_crc32 [7] \<rparr> @ [5] \<rparr>"])
    (simp_all add: msg_bits_def m_pkg_hdr_size_def, simp add: byte_bits_def upt_rec)

text \<open>
  With debug logging a package without a body crashes the worker. The registration and
  the login handler print the body with \<open>%s\<close>, and for a header-only package the body pointer is
  null: the message passes every check and the null pointer is read.
\<close>

theorem bodyless_request_reads_null:
  assumes "bufs s a = Some b" and "buf_data b = store_pkg_hdr ph" and "unat (pkg_size ph) = m_pkg_hdr_size"
    and "crc32 ph = 0" and "pkg_type ph = pkg_type_val REGISTER \<or> pkg_type ph = pkg_type_val LOGIN"
    and "m_cur_seq (conns s (mh_pconn (buf_hdr b))) = mh_cur_seq (buf_hdr b)"
    and "MGX_LOG_DEBUG \<le> le_log_level e" and "0 < le_room e"
  shows "faults (th_msg_process_func e a s) = Bad_deref # faults s"
proof -
  have "load_pkg_hdr (buf_data b) = ph"
    using assms(2) by simp
  moreover have "body_readable ph (buf_data b)"
    using assms(2,3) by (simp add: body_readable_def)
  ultimately show ?thesis
    using assms(1,3-8)
    by (auto simp: th_msg_process_func_def Let_def pkg_body_of_def crc_ok_def pkg_handlers_nth log_body_def
        register_handler_def login_handler_def raise_fault_def send_msg_def new_buf_def)
qed

theorem bodyless_request_reads_null_witness:
  "faults (th_msg_process_func (demo_env\<lparr> le_log_level := 8 \<rparr>) 64
     (Mgx_socket\<lparr> bufs := [64 \<mapsto> demo_login] \<rparr>)) = [Bad_deref]"
  using bodyless_request_reads_null [of "Mgx_socket\<lparr> bufs := [64 \<mapsto> demo_login] \<rparr>" 64 demo_login
      "\<lparr> pkg_size = 8, pkg_type = 2, crc32 = 0 \<rparr>" "demo_env\<lparr> le_log_level := 8 \<rparr>"]
  by (simp add: demo_env_def demo_login_def MGX_LOG_DEBUG_def Mgx_socket_def m_pkg_hdr_size_def
      mk_msg_hdr_def new_conn_def)

text \<open>
  The reply to a registration carries a correct size field and checksum, but with its
  fixed body of 65000 bytes it is a package of 65008 bytes: the send thread sends all of them,
  and a peer that applies the limit of the program's own receiver rejects the header and
  misreads the body as further headers.
\<close>

lemma length_send_pkg_body: "length send_pkg_body = 65000"
  by (simp add: send_pkg_body_def Let_def)

lemma register_reply_hdr:
  "unat (word_of_nat (m_pkg_hdr_size + length send_pkg_body) :: u16) = m_pkg_hdr_size + length send_pkg_body"
  by (rule unat_word_of_nat_id) (simp add: length_send_pkg_body m_pkg_hdr_size_def)

theorem register_reply_exceeds_limit:
  "\<exists>b. bufs (snd (register_handler e hdr body bsize s)) (le_addr e) = Some b \<and>
     length (buf_data b) = 65008 \<and> frame_ok (buf_data b) \<and> payload False b = buf_data b \<and>
     crc_ok (load_pkg_hdr (buf_data b)) (pkg_body_of (load_pkg_hdr (buf_data b)) (buf_data b)) \<and>
     split_frames (buf_data b) = split_frames (drop m_pkg_hdr_size (buf_data b))"
proof -
  define ph where "ph = \<lparr> pkg_size = (word_of_nat (m_pkg_hdr_size + length send_pkg_body) :: u16),
    pkg_type = pkg_type_val REGISTER, crc32 = get_crc32 send_pkg_body \<rparr>"
  define b where "b = \<lparr> buf_hdr = hdr, buf_data = store_pkg_hdr ph @ send_pkg_body \<rparr>"
  have size: "unat (pkg_size ph) = m_pkg_hdr_size + length send_pkg_body"
    by (simp only: ph_def mgx_pkg_hdr.select_convs register_reply_hdr)
  have crc: "crc32 ph = get_crc32 send_pkg_body" by (simp add: ph_def)
  from size have fr: "frame_ok (buf_data b)"
    unfolding b_def mgx_buf.select_convs by (rule frame_ok_store)
  have ne: "send_pkg_body \<noteq> []" using length_send_pkg_body by auto
  have "bad_size (frame_size (buf_data b))"
    by (simp add: b_def frame_size_def size length_send_pkg_body bad_size_def PKG_MAX_SIZE_def m_pkg_hdr_size_def)
  then have "split_frames (buf_data b) = split_frames (drop m_pkg_hdr_size (buf_data b))"
    using fr by (subst split_frames.simps) (simp add: frame_ok_def)
  moreover have "bufs (snd (register_handler e hdr body bsize s)) (le_addr e) = Some b"
    by (simp add: register_handler_def Let_def send_msg_def new_buf_def b_def ph_def)
  moreover have "payload False b = buf_data b"
    by (simp add: payload_def b_def size)
  moreover have "length (buf_data b) = 65008"
    by (simp add: b_def length_send_pkg_body m_pkg_hdr_size_def)
  moreover have "crc_ok (load_pkg_hdr (buf_data b)) (pkg_body_of (load_pkg_hdr (buf_data b)) (buf_data b))"
    using ne by (simp add: b_def pkg_body_of_store [OF size] crc_ok_def crc)
  ultimately show ?thesis using fr by blast
qed

end
