(* ===== verification/Mgx_Serve.thy ===== *)
theory Mgx_Serve
  imports Mgx_Logic "HOL-Library.Multiset"
begin

text \<open>
  What the package protocol promises to a client, and how the receiving side
  (\<^verbatim>\<open>src/net/mgx_socket_request.cpp\<close>), the pool threads (\<^verbatim>\<open>src/misc/mgx_thread_pool.cpp\<close>,
  \<^verbatim>\<open>src/bussiness/mgx_logic_socket.cpp\<close>) and the send thread (\<^verbatim>\<open>src/net/mgx_socket.cpp\<close>) keep it
  together: the reply to every frame, the ownership of message buffers along the way, and the
  fields of a connection that the later stages leave to the reader.
\<close>

section \<open>Specification: the reply to a frame\<close>

definition ping_pkg :: bytes where
  "ping_pkg = store_pkg_hdr \<lparr> pkg_size = word_of_nat m_pkg_hdr_size, pkg_type = pkg_type_val PING, crc32 = 0 \<rparr>"

definition register_pkg :: bytes where
  "register_pkg = store_pkg_hdr \<lparr> pkg_size = word_of_nat (m_pkg_hdr_size + length send_pkg_body),
     pkg_type = pkg_type_val REGISTER, crc32 = get_crc32 send_pkg_body \<rparr> @ send_pkg_body"

text \<open>
  A ping without a body is answered by itself, an intact registration by the fixed package, and
  nothing else is answered.
\<close>

definition is_registration :: "bytes \<Rightarrow> bool" where
  "is_registration f \<longleftrightarrow> pkg_type (load_pkg_hdr f) = pkg_type_val REGISTER \<and>
     crc_ok (load_pkg_hdr f) (pkg_body_of (load_pkg_hdr f) f)"

definition reply_of :: "bytes \<Rightarrow> bytes option" where
  "reply_of f = (if f = ping_pkg then Some ping_pkg else if is_registration f then Some register_pkg else None)"

definition replies :: "bytes list \<Rightarrow> bytes list" where
  "replies fs = List.map_filter reply_of fs"

lemma replies_simps [simp]:
  "replies [] = []"
  "replies (f # fs) = (case reply_of f of None \<Rightarrow> replies fs | Some d \<Rightarrow> d # replies fs)"
  by (simp_all add: replies_def List.map_filter_simps split: option.split)

text \<open>Frames and replies of several clients, each with its connection.\<close>

definition reply_msgs :: "(conn_ptr \<times> bytes) list \<Rightarrow> (conn_ptr \<times> bytes) list" where
  "reply_msgs ms = List.map_filter (\<lambda>(c, f). map_option (Pair c) (reply_of f)) ms"

lemma reply_msgs_simps [simp]:
  "reply_msgs [] = []"
  "reply_msgs ((c, f) # ms) = (case reply_of f of None \<Rightarrow> reply_msgs ms | Some d \<Rightarrow> (c, d) # reply_msgs ms)"
  by (simp_all add: reply_msgs_def List.map_filter_simps split: option.split)

definition of_client :: "conn_ptr \<Rightarrow> (conn_ptr \<times> 'a) list \<Rightarrow> 'a list" where
  "of_client c ms = map snd (filter (\<lambda>m. fst m = c) ms)"

lemma of_client_simps [simp]:
  "of_client c [] = []" "of_client c ((d, x) # ms) = (if d = c then x # of_client c ms else of_client c ms)"
  "of_client c (ms @ ns) = of_client c ms @ of_client c ns"
  by (simp_all add: of_client_def)

lemma of_client_tagged [simp]: "of_client c (map (Pair d) xs) = (if d = c then xs else [])"
  by (cases "d = c") (simp_all add: of_client_def comp_def)

lemma reply_msgs_of_client: "of_client c (reply_msgs ms) = replies (of_client c ms)"
  by (induction ms) (auto split: option.split)

lemma reply_msgs_reply: "(c, d) \<in> set (reply_msgs ms) \<Longrightarrow> \<exists>f. (c, f) \<in> set ms \<and> reply_of f = Some d"
  by (induction ms) (fastforce split: option.splits)+

text \<open>The time of the last ping of a client, given the clock of the thread that handles each frame.\<close>

fun ping_time :: "conn_ptr \<Rightarrow> int \<Rightarrow> (logic_env \<times> conn_ptr \<times> bytes) list \<Rightarrow> int" where
  "ping_time c t [] = t"
| "ping_time c t ((e, d, f) # ems) = ping_time c (if d = c \<and> f = ping_pkg then le_now e else t) ems"

text \<open>
  The frames that pieces of several streams complete, in the order in which they are completed, and
  the incomplete rest of each stream.
\<close>

fun arrivals :: "(conn_ptr \<Rightarrow> bytes) \<Rightarrow> (conn_ptr \<times> bytes) list \<Rightarrow> (conn_ptr \<times> bytes) list \<times> (conn_ptr \<Rightarrow> bytes)" where
  "arrivals pend [] = ([], pend)"
| "arrivals pend ((c, bs) # ins) =
     (let (fs, r) = split_frames (pend c @ bs); (ms, p) = arrivals (pend(c := r)) ins
      in (map (Pair c) fs @ ms, p))"

lemma split_frames_rest: "split_frames (snd (split_frames bs)) = ([], snd (split_frames bs))"
  using split_frames_append [of bs "[]"] by (auto simp: Let_def split: prod.splits)

text \<open>For every client these are the frames of its own stream: the other clients do not matter.\<close>

lemma arrivals_of_client:
  "split_frames (pend c) = ([], pend c) \<Longrightarrow>
   split_frames (pend c @ concat (of_client c ins)) = (of_client c (fst (arrivals pend ins)), snd (arrivals pend ins) c)"
proof (induction ins arbitrary: pend)
  case Nil
  then show ?case by simp
next
  case (Cons i ins)
  obtain d bs where i: "i = (d, bs)" by (cases i)
  obtain fs r where fr: "split_frames (pend d @ bs) = (fs, r)" by fastforce
  obtain ms q where ms: "arrivals (pend(d := r)) ins = (ms, q)" by fastforce
  have "split_frames r = ([], r)" using split_frames_rest [of "pend d @ bs"] fr by simp
  then have "split_frames ((pend(d := r)) c) = ([], (pend(d := r)) c)" using Cons.prems by simp
  from Cons.IH [of "pend(d := r)", OF this]
  have IH: "split_frames ((pend(d := r)) c @ concat (of_client c ins)) = (of_client c ms, q c)"
    by (simp only: ms fst_conv snd_conv)
  show ?case
  proof (cases "d = c")
    case True
    with IH ms fr split_frames_append [of "pend c @ bs" "concat (of_client c ins)"] show ?thesis
      by (simp add: i)
  next
    case False
    with IH ms fr show ?thesis by (simp add: i)
  qed
qed

lemma ping_pkg_facts:
  "length ping_pkg = m_pkg_hdr_size" "frame_size ping_pkg = m_pkg_hdr_size"
  "load_pkg_hdr ping_pkg = \<lparr> pkg_size = 8, pkg_type = 0, crc32 = 0 \<rparr>"
  by (simp_all add: ping_pkg_def frame_size_def m_pkg_hdr_size_def)

lemma ping_pkg_ne: "ping_pkg \<noteq> []"
  using ping_pkg_facts(1) by (auto simp: m_pkg_hdr_size_def)

lemma load_register_pkg: "load_pkg_hdr register_pkg = \<lparr> pkg_size = word_of_nat (m_pkg_hdr_size + length send_pkg_body),
     pkg_type = pkg_type_val REGISTER, crc32 = get_crc32 send_pkg_body \<rparr>"
  by (simp add: register_pkg_def)

lemma register_pkg_size: "unat (pkg_size (load_pkg_hdr register_pkg)) = length register_pkg"
proof -
  have "unat (pkg_size (load_pkg_hdr register_pkg)) = m_pkg_hdr_size + length send_pkg_body"
    unfolding load_register_pkg mgx_pkg_hdr.select_convs by (rule register_reply_hdr)
  then show ?thesis by (simp add: register_pkg_def)
qed

text \<open>Every reply is a message that the send thread can send completely.\<close>

lemma reply_sendable:
  assumes "reply_of f = Some d" and "buf_data b = d"
  shows "sendable False b" and "payload False b = d"
proof -
  have "d = ping_pkg \<or> d = register_pkg"
    using assms(1) by (auto simp: reply_of_def split: if_splits)
  moreover have "register_pkg \<noteq> []"
    using length_send_pkg_body by (auto simp: register_pkg_def)
  ultimately have "unat (pkg_size (load_pkg_hdr d)) = length d" "d \<noteq> []"
    using register_pkg_size ping_pkg_ne by (auto simp: ping_pkg_facts m_pkg_hdr_size_def)
  moreover have "unat (ucast (pkg_size (load_pkg_hdr d)) :: u32) = unat (pkg_size (load_pkg_hdr d))"
    using frame_size_less [of d] by (simp add: frame_size_def unsigned_ucast_eq take_bit_nat_eq_self)
  ultimately show "sendable False b" and "payload False b = d"
    using assms(2) by (simp_all add: sendable_def payload_def send_size_of_def)
qed

section \<open>Frames\<close>

lemma split_frames_ok: "f \<in> set (fst (split_frames bs)) \<Longrightarrow> frame_ok f"
proof (induction bs rule: split_frames.induct)
  case (1 bs)
  show ?case
  proof (cases "length bs < m_pkg_hdr_size \<or> bad_size (frame_size bs) \<or> length bs < frame_size bs")
    case True
    with 1 show ?thesis by (auto simp: split_frames.simps [of bs] split: if_splits)
  next
    case False
    then have "frame_size (take (frame_size bs) bs) = frame_size bs"
      by (intro frame_size_take) (simp add: bad_size_def)
    then have "frame_ok (take (frame_size bs) bs)"
      using False by (simp add: frame_ok_def bad_size_def)
    with False 1 show ?thesis by (auto simp: split_frames.simps [of bs] split: prod.splits)
  qed
qed

lemma store_load_pkg_hdr:
  assumes "length f = m_pkg_hdr_size"
  shows "store_pkg_hdr (load_pkg_hdr f) = f"
proof -
  have enc: "le_enc n (le_val (take n (drop k f))) = take n (drop k f)" if "n + k \<le> 8" for n k
  proof -
    have "length (take n (drop k f)) = n" using assms that by (simp add: m_pkg_hdr_size_def)
    then show ?thesis using le_enc_le_val [of "take n (drop k f)"] by simp
  qed
  have small: "le_val (take n (drop k f)) < 256 ^ n" for n k
  proof -
    have "(256 :: nat) ^ length (take n (drop k f)) \<le> 256 ^ n"
      by (rule power_increasing) simp_all
    with le_val_less show ?thesis by (rule less_le_trans)
  qed
  have "unat (word_of_nat (le_val (take 2 (drop k f))) :: u16) = le_val (take 2 (drop k f))" for k
    by (rule unat_word_of_nat_id) (use small [of 2 k] in simp)
  moreover have "unat (word_of_nat (le_val (take 4 (drop k f))) :: u32) = le_val (take 4 (drop k f))" for k
    by (rule unat_word_of_nat_id) (use small [of 4 k] in simp)
  ultimately have "store_pkg_hdr (load_pkg_hdr f) = take 2 f @ take 2 (drop 2 f) @ take 4 (drop 4 f)"
    using enc [of 2 0] enc [of 2 2] enc [of 4 4] spec [of _ 0]
    by (simp add: store_pkg_hdr_def load_pkg_hdr_def) (metis drop_0)
  also have "\<dots> = f"
    using assms append_take_drop_id [of 2 "drop 2 f"] by (simp add: m_pkg_hdr_size_def)
  finally show ?thesis .
qed

text \<open>A ping that the handler accepts is the eight bytes of \<open>ping_pkg\<close>.\<close>

lemma accepted_ping:
  assumes "frame_ok f"
  shows "f = ping_pkg \<longleftrightarrow> pkg_type (load_pkg_hdr f) = pkg_type_val PING \<and>
    pkg_size (load_pkg_hdr f) - word_of_nat m_pkg_hdr_size = 0 \<and>
    crc_ok (load_pkg_hdr f) (pkg_body_of (load_pkg_hdr f) f)"
proof
  assume "f = ping_pkg"
  then show "pkg_type (load_pkg_hdr f) = pkg_type_val PING \<and> pkg_size (load_pkg_hdr f) - word_of_nat m_pkg_hdr_size = 0 \<and>
      crc_ok (load_pkg_hdr f) (pkg_body_of (load_pkg_hdr f) f)"
    by (simp add: ping_pkg_facts m_pkg_hdr_size_def crc_ok_def pkg_body_of_def)
next
  assume p: "pkg_type (load_pkg_hdr f) = pkg_type_val PING \<and>
      pkg_size (load_pkg_hdr f) - word_of_nat m_pkg_hdr_size = 0 \<and>
      crc_ok (load_pkg_hdr f) (pkg_body_of (load_pkg_hdr f) f)"
  then have size: "pkg_size (load_pkg_hdr f) = word_of_nat m_pkg_hdr_size" by simp
  then have "length f = m_pkg_hdr_size"
    using assms by (simp add: frame_ok_def frame_size_def m_pkg_hdr_size_def)
  moreover have "crc32 (load_pkg_hdr f) = 0"
    using p size by (simp add: crc_ok_def pkg_body_of_def m_pkg_hdr_size_def)
  ultimately have "f = store_pkg_hdr (load_pkg_hdr f)"
    "load_pkg_hdr f = \<lparr> pkg_size = word_of_nat m_pkg_hdr_size, pkg_type = pkg_type_val PING, crc32 = 0 \<rparr>"
    using p size store_load_pkg_hdr [of f] by (simp_all add: mgx_pkg_hdr.equality)
  then show "f = ping_pkg" by (simp add: ping_pkg_def)
qed

section \<open>Handling the frames\<close>

text \<open>One message in a pool thread: the frame decides what happens.\<close>

lemma handle_frame:
  assumes "bufs s a = msg_of c seq f" and "frame_ok f" and "m_cur_seq (conns s c) = seq"
    and "\<not> bad_log_read e a s" and "le_addr e \<noteq> a"
  shows "th_handle_msg e a s =
     (let s1 = (if f = ping_pkg then upd_conn c (\<lambda>k. k\<lparr> last_ping_time := le_now e \<rparr>) s else s);
          s2 = (case reply_of f of None \<Rightarrow> s1
                | Some d \<Rightarrow> send_msg (le_addr e) (new_buf (le_addr e) \<lparr> buf_hdr = mk_msg_hdr c seq, buf_data = d \<rparr> s1))
      in s2\<lparr> bufs := (bufs s2)(a := None) \<rparr>)"
proof -
  let ?ph = "load_pkg_hdr f" and ?body = "pkg_body_of (load_pkg_hdr f) f"
  let ?n = "pkg_size ?ph - word_of_nat m_pkg_hdr_size"
  have p: "th_msg_process_func e a s =
     (if \<not> crc_ok ?ph ?body then s
      else if 4 \<le> unat (pkg_type ?ph) then s
      else case pkg_handlers ! unat (pkg_type ?ph) of None \<Rightarrow> s
           | Some h \<Rightarrow> snd (run_handler h e (mk_msg_hdr c seq) ?body ?n s))"
    using assms(1,3) frame_ok_readable [OF assms(2)]
    by (simp add: th_msg_process_func_def msg_of_def Let_def mk_msg_hdr_def pkg_handlers_nth split: option.split)
  have quiet: "\<not> log_overread e ?body"
    if "pkg_type ?ph = pkg_type_val REGISTER \<or> pkg_type ?ph = pkg_type_val LOGIN" "crc_ok ?ph ?body"
    using that assms(1,3,4) by (auto simp: bad_log_read_def msg_of_def Let_def mk_msg_hdr_def)
  have ty: "pkg_type ?ph = word_of_nat (unat (pkg_type ?ph))" by simp
  have "unat (pkg_type ?ph) = 0 \<or> unat (pkg_type ?ph) = 1 \<or> unat (pkg_type ?ph) = 2 \<or>
      unat (pkg_type ?ph) = 3 \<or> 4 \<le> unat (pkg_type ?ph)" by linarith
  then have "th_msg_process_func e a s =
     (let s1 = (if f = ping_pkg then upd_conn c (\<lambda>k. k\<lparr> last_ping_time := le_now e \<rparr>) s else s)
      in case reply_of f of None \<Rightarrow> s1
         | Some d \<Rightarrow> send_msg (le_addr e) (new_buf (le_addr e) \<lparr> buf_hdr = mk_msg_hdr c seq, buf_data = d \<rparr> s1))"
  proof (elim disjE)
    assume t: "unat (pkg_type ?ph) = 0"
    then have "pkg_type ?ph = pkg_type_val PING" "\<not> is_registration f"
      using ty by (simp_all add: is_registration_def)
    then show ?thesis
      using t accepted_ping [OF assms(2)]
      by (auto simp: p pkg_handlers_nth ping_handler_def Let_def reply_of_def send_msg_with_nobody_def
          mk_msg_hdr_def ping_pkg_def)
  next
    assume t: "unat (pkg_type ?ph) = 1"
    then have "pkg_type ?ph = pkg_type_val REGISTER"
      using ty by simp
    then show ?thesis
      using t accepted_ping [OF assms(2)] quiet
      by (auto simp: p pkg_handlers_nth register_handler_def Let_def reply_of_def is_registration_def
          register_pkg_def)
  next
    assume t: "unat (pkg_type ?ph) = 2"
    then have "f \<noteq> ping_pkg" "\<not> is_registration f" "pkg_type ?ph = pkg_type_val LOGIN"
      using ty by (auto simp: is_registration_def ping_pkg_facts)
    then show ?thesis
      using t quiet by (simp add: p pkg_handlers_nth login_handler_def Let_def reply_of_def)
  next
    assume t: "unat (pkg_type ?ph) = 3"
    then have "f \<noteq> ping_pkg" "\<not> is_registration f"
      by (auto simp: is_registration_def ping_pkg_facts)
    then show ?thesis
      using t by (simp add: p pkg_handlers_nth Let_def reply_of_def)
  next
    assume t: "4 \<le> unat (pkg_type ?ph)"
    then have "f \<noteq> ping_pkg" "\<not> is_registration f"
      by (auto simp: is_registration_def ping_pkg_facts)
    then show ?thesis
      using t by (simp add: p Let_def reply_of_def)
  qed
  moreover have "bufs s a = Some \<lparr> buf_hdr = mk_msg_hdr c seq, buf_data = f \<rparr>"
    using assms(1) by (simp add: msg_of_def)
  ultimately show ?thesis
    using assms(5) by (auto simp: th_handle_msg_def delete_buf_def Let_def new_buf_def send_msg_def split: option.split)
qed

text \<open>
  The messages of a queue in the order in which the pool threads handle them, each with the
  environment of its thread; handling a message is one step. A new reply is at an address that is
  not in use at that time, and no debug line reads outside the message it prints.
\<close>

fun handle_all :: "logic_env list \<Rightarrow> addr list \<Rightarrow> mgx_socket \<Rightarrow> mgx_socket" where
  "handle_all (e # es) (a # as) s = handle_all es as (th_handle_msg e a s)"
| "handle_all es as s = s"

fun work_contract :: "logic_env list \<Rightarrow> addr list \<Rightarrow> mgx_socket \<Rightarrow> bool" where
  "work_contract (e # es) (a # as) s \<longleftrightarrow>
     le_addr e \<notin> dom (bufs s) \<and> \<not> bad_log_read e a s \<and> work_contract es as (th_handle_msg e a s)"
| "work_contract es as s \<longleftrightarrow> es = [] \<and> as = []"

text \<open>The frames the messages carry, each with its connection, in the order of handling.\<close>

definition handled :: "mgx_socket \<Rightarrow> addr list \<Rightarrow> (conn_ptr \<times> bytes) list" where
  "handled s as = map (\<lambda>a. case bufs s a of None \<Rightarrow> (0, []) | Some b \<Rightarrow> (mh_pconn (buf_hdr b), buf_data b)) as"

lemma handled_order:
  assumes "map (bufs s) q = map (\<lambda>(c, f). msg_of c (seq c) f) ms"
  shows "handled s q = ms" and "mset as = mset q \<Longrightarrow> mset (handled s as) = mset ms"
    and "set as \<subseteq> set q \<Longrightarrow> map (bufs s) as = map (\<lambda>(c, f). msg_of c (seq c) f) (handled s as)"
proof -
  have at: "\<exists>c f. bufs s a = msg_of c (seq c) f" if "a \<in> set q" for a
  proof -
    have "bufs s a \<in> set (map (\<lambda>(c, f). msg_of c (seq c) f) ms)"
      using that by (metis assms image_eqI list.set_map)
    then show ?thesis by auto
  qed
  show q: "handled s q = ms"
    using assms
  proof (induction q arbitrary: ms)
    case Nil
    then show ?case by (simp add: handled_def)
  next
    case (Cons a q)
    then obtain c f ms' where "ms = (c, f) # ms'" by (cases ms) auto
    with Cons show ?case by (auto simp: handled_def msg_of_def mk_msg_hdr_def)
  qed
  show "mset (handled s as) = mset ms" if "mset as = mset q"
    unfolding q [symmetric] handled_def mset_map that ..
  show "map (bufs s) as = map (\<lambda>(c, f). msg_of c (seq c) f) (handled s as)" if "set as \<subseteq> set q"
    unfolding handled_def map_map
    by (rule map_cong) (use at that in \<open>fastforce simp: msg_of_def mk_msg_hdr_def\<close>)+
qed

lemma mset_of_client: "mset ms = mset ns \<Longrightarrow> mset (of_client c ms) = mset (of_client c ns)"
  by (simp add: of_client_def)

lemma mset_replies: "mset fs = mset gs \<Longrightarrow> mset (replies fs) = mset (replies gs)"
proof -
  have "replies fs = map (\<lambda>f. the (reply_of f)) (filter (\<lambda>f. reply_of f \<noteq> None) fs)" for fs
    by (induction fs) auto
  then show "mset fs = mset gs \<Longrightarrow> mset (replies fs) = mset (replies gs)" by simp
qed

text \<open>What handling a frame does to each part of the state.\<close>

lemma handle_frame_parts:
  assumes "bufs s a = msg_of c seq f" and "frame_ok f" and "m_cur_seq (conns s c) = seq"
    and "\<not> bad_log_read e a s" and "le_addr e \<notin> dom (bufs s)"
  shows "conns (th_handle_msg e a s) =
      (conns s)(c := (conns s c)\<lparr> last_ping_time := if f = ping_pkg then le_now e else last_ping_time (conns s c) \<rparr>)"
    and "bufs (th_handle_msg e a s) = (case reply_of f of None \<Rightarrow> bufs s
      | Some d \<Rightarrow> (bufs s)(le_addr e := msg_of c seq d))(a := None)"
    and "m_send_list (th_handle_msg e a s) = m_send_list s @ (case reply_of f of None \<Rightarrow> [] | Some d \<Rightarrow> [le_addr e])"
    and "m_send_list_cnt (th_handle_msg e a s) = m_send_list_cnt s + (case reply_of f of None \<Rightarrow> 0 | Some d \<Rightarrow> 1)"
    and "faults (th_handle_msg e a s) = faults s"
proof -
  have "le_addr e \<noteq> a" using assms(1,5) by (auto simp: msg_of_def)
  note h = handle_frame [OF assms(1-4) this]
  show "conns (th_handle_msg e a s) =
      (conns s)(c := (conns s c)\<lparr> last_ping_time := if f = ping_pkg then le_now e else last_ping_time (conns s c) \<rparr>)"
    by (simp add: h Let_def send_msg_def new_buf_def upd_conn_def split: option.split)
  show "bufs (th_handle_msg e a s) = (case reply_of f of None \<Rightarrow> bufs s
      | Some d \<Rightarrow> (bufs s)(le_addr e := msg_of c seq d))(a := None)"
    "m_send_list (th_handle_msg e a s) = m_send_list s @ (case reply_of f of None \<Rightarrow> [] | Some d \<Rightarrow> [le_addr e])"
    "m_send_list_cnt (th_handle_msg e a s) = m_send_list_cnt s + (case reply_of f of None \<Rightarrow> 0 | Some d \<Rightarrow> 1)"
    "faults (th_handle_msg e a s) = faults s"
    by (simp_all add: h Let_def send_msg_def new_buf_def msg_of_def split: option.split)
qed

text \<open>
  All messages of a queue are handled in order: the replies are appended to the send list at new
  addresses, the messages are freed, and every other buffer stays.
\<close>

lemma handle_frames:
  assumes "map (bufs s) as = map (\<lambda>(c, f). msg_of c (seq c) f) ms" and "distinct as"
    and "\<forall>(c, f) \<in> set ms. frame_ok f" and "\<forall>c. m_cur_seq (conns s c) = seq c" and "work_contract es as s"
  shows "\<exists>rs. m_send_list (handle_all es as s) = m_send_list s @ rs \<and>
    m_send_list_cnt (handle_all es as s) = m_send_list_cnt s + int (length rs) \<and>
    map (bufs (handle_all es as s)) rs = map (\<lambda>(c, d). msg_of c (seq c) d) (reply_msgs ms) \<and> distinct rs \<and>
    set rs \<inter> (dom (bufs s) - set as) = {} \<and>
    dom (bufs (handle_all es as s)) \<subseteq> dom (bufs s) - set as \<union> set rs \<and>
    (\<forall>x \<in> dom (bufs s) - set as. bufs (handle_all es as s) x = bufs s x) \<and>
    (\<forall>c. conns (handle_all es as s) c = (conns s c)
      \<lparr> last_ping_time := ping_time c (last_ping_time (conns s c)) (zip es ms) \<rparr>) \<and>
    faults (handle_all es as s) = faults s"
  using assms
proof (induction es as s arbitrary: ms rule: handle_all.induct)
  case (1 e es a as s)
  then obtain c f ms' where ms: "ms = (c, f) # ms'" by (cases ms) auto
  have fa: "bufs s a = msg_of c (seq c) f" "frame_ok f" "m_cur_seq (conns s c) = seq c"
    "\<not> bad_log_read e a s" "le_addr e \<notin> dom (bufs s)"
    using 1(2-) by (simp_all add: ms)
  define t where "t = th_handle_msg e a s"
  note parts = handle_frame_parts [OF fa, folded t_def]
  have later: "x \<in> dom (bufs s) \<and> x \<noteq> a \<and> x \<noteq> le_addr e" if "x \<in> set as" for x
  proof -
    have "bufs s x \<in> set (map (\<lambda>(c, f). msg_of c (seq c) f) ms)"
      using that 1(2) by (metis image_eqI list.set_intros(2) list.set_map)
    then show ?thesis
      using that 1(3) fa(5) by (auto simp: msg_of_def)
  qed
  have keep: "bufs t x = bufs s x" if "x \<noteq> a" "x \<noteq> le_addr e" for x
    using that by (auto simp: parts(2) split: option.split)
  have p: "map (bufs t) as = map (\<lambda>(c, f). msg_of c (seq c) f) ms'" "distinct as" "\<forall>(c, f) \<in> set ms'. frame_ok f"
    "\<forall>c. m_cur_seq (conns t c) = seq c" "work_contract es as t"
    using 1(2-) later keep by (auto simp: ms parts(1) t_def [symmetric] cong: map_cong)
  obtain rs where rs: "m_send_list (handle_all es as t) = m_send_list t @ rs"
    "m_send_list_cnt (handle_all es as t) = m_send_list_cnt t + int (length rs)"
    "map (bufs (handle_all es as t)) rs = map (\<lambda>(c, d). msg_of c (seq c) d) (reply_msgs ms')" "distinct rs"
    "set rs \<inter> (dom (bufs t) - set as) = {}" "dom (bufs (handle_all es as t)) \<subseteq> dom (bufs t) - set as \<union> set rs"
    "\<forall>x \<in> dom (bufs t) - set as. bufs (handle_all es as t) x = bufs t x"
    "\<forall>c. conns (handle_all es as t) c = (conns t c)
       \<lparr> last_ping_time := ping_time c (last_ping_time (conns t c)) (zip es ms') \<rparr>"
    "faults (handle_all es as t) = faults t"
    using 1(1) [of ms', folded t_def, OF p] by blast
  have old: "x \<in> dom (bufs t) - set as \<and> bufs t x = bufs s x" if "x \<in> dom (bufs s) - set (a # as)" for x
  proof -
    have "x \<noteq> a" "x \<noteq> le_addr e" using that fa(5) by auto
    with that keep show ?thesis by auto
  qed
  have disj: "set rs \<inter> (dom (bufs s) - set (a # as)) = {}"
    using rs(5) old by blast
  have same: "\<forall>x \<in> dom (bufs s) - set (a # as). bufs (handle_all es as t) x = bufs s x"
    using rs(7) old by simp
  have cn: "\<forall>d. conns (handle_all es as t) d = (conns s d)
      \<lparr> last_ping_time := ping_time d (last_ping_time (conns s d)) (zip (e # es) ms) \<rparr>"
    by (auto simp: rs(8) parts(1) ms)
  show ?case
  proof (cases "reply_of f")
    case None
    then have "dom (bufs t) \<subseteq> dom (bufs s) - {a}"
      by (auto simp: parts(2))
    with rs(6) have "dom (bufs (handle_all es as t)) \<subseteq> dom (bufs s) - set (a # as) \<union> set rs"
      by auto
    with None rs(1-4,9) disj same cn show ?thesis
      by (intro exI [of _ rs]) (simp add: t_def [symmetric] parts ms)
  next
    case (Some d)
    let ?r = "le_addr e"
    have r: "bufs t ?r = msg_of c (seq c) d" "?r \<in> dom (bufs t) - set as"
      using Some later fa(1,5) by (auto simp: parts(2) msg_of_def)
    have "dom (bufs t) \<subseteq> insert ?r (dom (bufs s) - {a})"
      using Some by (auto simp: parts(2))
    with rs(6) have "dom (bufs (handle_all es as t)) \<subseteq> dom (bufs s) - set (a # as) \<union> set (?r # rs)"
      by auto
    moreover have "bufs (handle_all es as t) ?r = msg_of c (seq c) d" "?r \<notin> set rs"
      using rs(5,7) r by auto
    moreover have "set (?r # rs) \<inter> (dom (bufs s) - set (a # as)) = {}"
      using disj fa(5) by auto
    ultimately show ?thesis
      using Some rs(1-4,9) same cn by (intro exI [of _ "?r # rs"]) (simp add: t_def [symmetric] parts ms)
  qed
qed auto

section \<open>Receiving from several clients\<close>

text \<open>
  A run of the read handler on the connections of several clients, in any order, and what is
  documented of the environment of each call.
\<close>

fun recv_runs :: "(conn_ptr \<times> recv_io) list \<Rightarrow> worker \<Rightarrow> worker" where
  "recv_runs [] w = w"
| "recv_runs ((c, io) # cios) w = recv_runs cios (read_request_handler io c w)"

fun recv_contracts :: "conn_ptr set \<Rightarrow> (conn_ptr \<times> recv_io) list \<Rightarrow> worker \<Rightarrow> bool" where
  "recv_contracts C [] w = True"
| "recv_contracts C ((c, io) # cios) w \<longleftrightarrow>
     c \<in> C \<and> io_bytes (ri_ret io) \<noteq> [] \<and>
     length (io_bytes (ri_ret io)) \<le> unat (rest_recv_size (wconn w c)) \<and>
     ri_addr io \<notin> dom (bufs (wk_sock w)) \<and> recv_contracts C cios (read_request_handler io c w)"

definition inputs :: "(conn_ptr \<times> recv_io) list \<Rightarrow> (conn_ptr \<times> bytes) list" where
  "inputs cios = map (\<lambda>(c, io). (c, io_bytes (ri_ret io))) cios"

text \<open>The phase of a connection decides who owns the memory it receives into.\<close>

lemma recv_rel_cases:
  assumes "recv_rel c w pend"
  obtains n where "recv_stat (wconn w c) \<in> {PKG_HDR_START, PKG_HDR_RECEIVING}" "precv_mem_addr (wconn w c) = None"
      "precv_buf (wconn w c) = RP_hdr n"
  | a n where "recv_stat (wconn w c) \<in> {PKG_BODY_START, PKG_BODY_RECEIVING}" "precv_mem_addr (wconn w c) = Some a"
      "precv_buf (wconn w c) = RP_mem a n" "a \<in> dom (bufs (wk_sock w))" "a \<notin> set (m_msg_queue (wk_pool w))"
proof -
  from assms consider "hdr_rel (wconn w c) pend" | "body_rel c (wk_sock w) (set (m_msg_queue (wk_pool w))) pend"
    by (auto simp: recv_rel_def)
  then show ?thesis
  proof cases
    case 1
    then show ?thesis by (intro that(1)) (simp_all add: hdr_rel_def split: if_splits)
  next
    case 2
    then show ?thesis unfolding body_rel_def by (elim exE) (rule that(2), auto split: if_splits)
  qed
qed

lemma recv_rel_mem:
  assumes "recv_rel c w pend" and "precv_mem_addr (wconn w c) = Some a"
  shows "a \<in> dom (bufs (wk_sock w)) - set (m_msg_queue (wk_pool w))"
  using assms by (auto elim!: recv_rel_cases)

text \<open>
  What one call of the handler with data may touch: the connection it is for, the memory of that
  connection and the new buffer. It queues at most one message, and no memory gets lost.
\<close>

abbreviation body_mem :: "worker \<Rightarrow> conn_ptr \<Rightarrow> addr set" where
  "body_mem w c \<equiv> set_option (precv_mem_addr (wconn w c))"

definition recv_frame :: "conn_ptr \<Rightarrow> addr \<Rightarrow> worker \<Rightarrow> worker \<Rightarrow> bool" where
  "recv_frame c new w w' \<longleftrightarrow>
     (\<forall>d. d \<noteq> c \<longrightarrow> wconn w' d = wconn w d) \<and>
     (\<forall>x. x \<notin> insert new (body_mem w c) \<longrightarrow> bufs (wk_sock w') x = bufs (wk_sock w) x) \<and>
     dom (bufs (wk_sock w)) \<subseteq> dom (bufs (wk_sock w')) \<and>
     (\<exists>qs. m_msg_queue (wk_pool w') = m_msg_queue (wk_pool w) @ qs \<and> distinct qs \<and>
        set qs \<union> body_mem w' c \<subseteq> insert new (body_mem w c) \<and> set qs \<inter> body_mem w' c = {} \<and>
        dom (bufs (wk_sock w')) \<subseteq> dom (bufs (wk_sock w)) \<union> set qs \<union> body_mem w' c \<and>
        body_mem w c \<subseteq> set qs \<union> body_mem w' c)"

lemma recv_frame_upd:
  "(\<And>k. precv_mem_addr (f k) = precv_mem_addr k) \<Longrightarrow> recv_frame c new w (upd_wconn c f w)"
  by (auto simp: recv_frame_def upd_wconn_def)

lemma recv_frame_process_v2:
  "precv_mem_addr (wconn w c) = Some a \<Longrightarrow> a \<in> dom (bufs (wk_sock w)) \<Longrightarrow>
   recv_frame c new w (read_request_handler_process_v2 now c w)"
  by (auto simp: recv_frame_def read_request_handler_process_v2_def Let_def upd_wconn_def restore_recv_def)

lemma recv_frame_process_v1:
  assumes "precv_mem_addr (wconn w c) = None"
  shows "recv_frame c (ri_addr io) w (read_request_handler_process_v1 io c w)"
proof -
  define size where "size = unat (pkg_size (load_pkg_hdr (hdr_buf (wconn w c))))"
  have "recv_frame c (ri_addr io) w (upd_wconn c restore_recv w)"
    by (rule recv_frame_upd) (simp add: restore_recv_def)
  then show ?thesis
    using assms
    by (auto simp: read_request_handler_process_v1_def Let_def size_def [symmetric])
      (auto simp: recv_frame_def read_request_handler_process_v2_def Let_def upd_wconn_def new_buf_def restore_recv_def)
qed

text \<open>Storing the data first makes no difference.\<close>

lemma recv_frame_store:
  assumes "recv_frame c new (w\<lparr> wk_sock := store_recv c bs (wk_sock w) \<rparr>) w'"
    and "\<forall>a n. precv_buf (wconn w c) = RP_mem a n \<longrightarrow> precv_mem_addr (wconn w c) = Some a"
  shows "recv_frame c new w w'"
proof -
  let ?s = "store_recv c bs (wk_sock w)"
  have "bufs ?s x = bufs (wk_sock w) x" if "x \<notin> body_mem w c" for x
    using that assms(2) by (auto simp: store_recv_def raise_fault_def split: recv_ptr.split option.split)
  moreover have "conns ?s d = wconn w d" if "d \<noteq> c" for d
    using that by (auto simp: store_recv_def raise_fault_def split: recv_ptr.split option.split)
  moreover have "precv_mem_addr (conns ?s c) = precv_mem_addr (wconn w c)" "dom (bufs ?s) = dom (bufs (wk_sock w))"
    by (auto simp: store_recv_def raise_fault_def split: recv_ptr.split option.split)
  ultimately show ?thesis
    using assms(1) by (auto simp: recv_frame_def)
qed

lemma recv_frame_handler:
  assumes "recv_rel c w pend" and "ri_ret io = Recv_n bs" "bs \<noteq> []"
  shows "recv_frame c (ri_addr io) w (read_request_handler io c w)"
proof (rule recv_frame_store)
  define w1 where "w1 = w\<lparr> wk_sock := store_recv c bs (wk_sock w) \<rparr>"
  have w1: "recv_stat (wconn w1 c) = recv_stat (wconn w c)" "precv_mem_addr (wconn w1 c) = precv_mem_addr (wconn w c)"
    "dom (bufs (wk_sock w1)) = dom (bufs (wk_sock w))"
    by (auto simp: w1_def store_recv_def raise_fault_def split: recv_ptr.split option.split)
  have adv: "recv_frame c new w1 (upd_wconn c (advance n) w1)"
    "recv_frame c new w1 (upd_wconn c (\<lambda>k. advance n (k\<lparr> recv_stat := st \<rparr>)) w1)" for new n st
    by (rule recv_frame_upd; simp add: advance_def)+
  have "recv_frame c (ri_addr io) w1 (read_request_handler io c w)"
    using assms(1)
  proof (cases rule: recv_rel_cases)
    case 1
    then have "recv_frame c (ri_addr io) w1 (read_request_handler_process_v1 io c w1)"
      by (intro recv_frame_process_v1) (simp add: w1)
    with 1(1) adv show ?thesis
      by (auto simp: handler_data [OF assms(2,3)] Let_def w1_def [symmetric] w1 stat_distinct)
  next
    case (2 a)
    then have "recv_frame c (ri_addr io) w1 (read_request_handler_process_v2 (ri_now io) c w1)"
      by (intro recv_frame_process_v2) (simp_all add: w1)
    with 2(1) adv show ?thesis
      by (auto simp: handler_data [OF assms(2,3)] Let_def w1_def [symmetric] w1 stat_distinct)
  qed
  then show "recv_frame c (ri_addr io) (w\<lparr> wk_sock := store_recv c bs (wk_sock w) \<rparr>) (read_request_handler io c w)"
    by (simp add: w1_def)
  show "\<forall>a n. precv_buf (wconn w c) = RP_mem a n \<longrightarrow> precv_mem_addr (wconn w c) = Some a"
    using assms(1) by (auto elim!: recv_rel_cases)
qed

text \<open>The connections \<open>C\<close>, each at its point of its stream, with memory of its own.\<close>

definition clients_rel :: "conn_ptr set \<Rightarrow> (conn_ptr \<Rightarrow> bytes) \<Rightarrow> worker \<Rightarrow> bool" where
  "clients_rel C pend w \<longleftrightarrow> (\<forall>c \<in> C. recv_rel c w (pend c)) \<and>
     (\<forall>c \<in> C. \<forall>d \<in> C. c \<noteq> d \<longrightarrow> body_mem w c \<inter> body_mem w d = {})"

text \<open>
  Apart from the buffers \<open>B\<close> that were there before, every buffer is a queued message or a body
  that is being collected, and no message is queued twice.
\<close>

definition recv_own :: "conn_ptr set \<Rightarrow> addr set \<Rightarrow> worker \<Rightarrow> bool" where
  "recv_own C B w \<longleftrightarrow> distinct (m_msg_queue (wk_pool w)) \<and>
     dom (bufs (wk_sock w)) \<subseteq> B \<union> set (m_msg_queue (wk_pool w)) \<union> (\<Union>c \<in> C. body_mem w c)"

lemma owned_trans:
  "D' \<subseteq> D \<union> Q \<union> M \<Longrightarrow> D \<subseteq> B \<union> P \<union> U \<Longrightarrow> U \<subseteq> Q \<union> U' \<Longrightarrow> M \<subseteq> U' \<Longrightarrow> D' \<subseteq> B \<union> (P \<union> Q) \<union> U'"
  by blast

text \<open>A call of the handler for one connection leaves the others where they are.\<close>

lemma recv_rel_other:
  assumes "recv_rel d w pend" and "recv_frame c new w w'" and "d \<noteq> c" and "body_mem w c \<inter> body_mem w d = {}"
    and "new \<notin> dom (bufs (wk_sock w))" and "set (m_msg_queue (wk_pool w')) \<subseteq> dom (bufs (wk_sock w'))"
  shows "recv_rel d w' pend"
proof -
  have same: "wconn w' d = wconn w d" using assms(2,3) by (simp add: recv_frame_def)
  have "body_rel d (wk_sock w') (set (m_msg_queue (wk_pool w'))) pend"
    if b: "body_rel d (wk_sock w) (set (m_msg_queue (wk_pool w))) pend"
  proof -
    from b obtain a where a: "precv_mem_addr (wconn w d) = Some a"
      unfolding body_rel_def by blast
    with recv_rel_mem [OF assms(1)] assms(4,5)
    have n: "a \<noteq> new" "a \<notin> body_mem w c" "a \<notin> set (m_msg_queue (wk_pool w))" by auto
    with assms(2) have "bufs (wk_sock w') a = bufs (wk_sock w) a" "a \<notin> set (m_msg_queue (wk_pool w'))"
      by (auto simp: recv_frame_def)
    with b a show ?thesis unfolding body_rel_def same by auto
  qed
  with assms(1,6) same show ?thesis by (auto simp: recv_rel_def)
qed

lemma clients_step:
  assumes "clients_rel C pend w" and "c \<in> C" and "ri_ret io = Recv_n bs" "bs \<noteq> []"
    and "length bs \<le> unat (rest_recv_size (wconn w c))" and "ri_addr io \<notin> dom (bufs (wk_sock w))"
    and "split_frames (pend c @ bs) = (fs, r)" and "w' = read_request_handler io c w"
  shows "clients_rel C (pend(c := r)) w'"
    and "delivered w' = delivered w @ map (msg_of c (m_cur_seq (wconn w c))) fs"
    and "m_cur_seq (wconn w' d) = m_cur_seq (wconn w d)" and "faults (wk_sock w') = faults (wk_sock w)"
    and "recv_own C B w \<Longrightarrow> recv_own C B w'"
proof -
  have rel: "recv_rel c w (pend c)" using assms(1,2) by (simp add: clients_rel_def)
  have "recv_sim c w (pend c @ bs) w'"
    unfolding assms(8) by (rule handler_sim [OF rel assms(3-6)])
  with assms(7) have sim: "recv_rel c w' r" "delivered w' = delivered w @ map (msg_of c (m_cur_seq (wconn w c))) fs"
    "m_cur_seq (wconn w' c) = m_cur_seq (wconn w c)" "faults (wk_sock w') = faults (wk_sock w)"
    by (simp_all add: recv_sim_def)
  have fr: "recv_frame c (ri_addr io) w w'"
    unfolding assms(8) by (rule recv_frame_handler [OF rel assms(3,4)])
  then have other: "wconn w' d = wconn w d" if "d \<noteq> c" for d
    using that by (simp add: recv_frame_def)
  obtain qs where qs: "m_msg_queue (wk_pool w') = m_msg_queue (wk_pool w) @ qs" "distinct qs"
    "set qs \<union> body_mem w' c \<subseteq> insert (ri_addr io) (body_mem w c)"
    "dom (bufs (wk_sock w')) \<subseteq> dom (bufs (wk_sock w)) \<union> set qs \<union> body_mem w' c"
    "body_mem w c \<subseteq> set qs \<union> body_mem w' c"
    using fr unfolding recv_frame_def by blast
  have queue: "set (m_msg_queue (wk_pool w)) \<subseteq> dom (bufs (wk_sock w))"
    "set (m_msg_queue (wk_pool w')) \<subseteq> dom (bufs (wk_sock w'))"
    using rel sim(1) by (simp_all add: recv_rel_def)
  have mem: "body_mem w d \<subseteq> dom (bufs (wk_sock w)) - set (m_msg_queue (wk_pool w))" if "d \<in> C" for d
    using that assms(1) recv_rel_mem [of d w "pend d"] by (auto simp: clients_rel_def)
  show "delivered w' = delivered w @ map (msg_of c (m_cur_seq (wconn w c))) fs"
    and "faults (wk_sock w') = faults (wk_sock w)" by (fact sim)+
  show "m_cur_seq (wconn w' d) = m_cur_seq (wconn w d)"
    using sim(3) other by (cases "d = c") auto
  have "recv_rel d w' ((pend(c := r)) d)" if "d \<in> C" for d
  proof (cases "d = c")
    case False
    with that assms(1,2) have "recv_rel d w (pend d)" "body_mem w c \<inter> body_mem w d = {}"
      by (auto simp: clients_rel_def)
    from recv_rel_other [OF this(1) fr False this(2) assms(6) queue(2)] False show ?thesis by simp
  qed (use sim(1) in simp)
  moreover have "body_mem w' c \<inter> body_mem w' d = {}" if "d \<in> C" "d \<noteq> c" for d
  proof -
    have "body_mem w c \<inter> body_mem w d = {}" "ri_addr io \<notin> body_mem w d"
      using that assms(1,2,6) mem [of d] by (auto simp: clients_rel_def)
    with qs(3) other [OF that(2)] show ?thesis by auto
  qed
  ultimately show "clients_rel C (pend(c := r)) w'"
    using assms(1) other unfolding clients_rel_def by (metis Int_commute)
  show "recv_own C B w'" if own: "recv_own C B w"
  proof -
    have "set qs \<inter> set (m_msg_queue (wk_pool w)) = {}"
      using qs(3) mem [OF assms(2)] queue(1) assms(6) by auto
    with own qs(1,2) have "distinct (m_msg_queue (wk_pool w'))" by (auto simp: recv_own_def)
    moreover have "body_mem w d \<subseteq> set qs \<union> (\<Union>c \<in> C. body_mem w' c)" if "d \<in> C" for d
      using that qs(5) other assms(2) by (cases "d = c") auto
    then have sub: "(\<Union>c \<in> C. body_mem w c) \<subseteq> set qs \<union> (\<Union>c \<in> C. body_mem w' c)" by blast
    have "body_mem w' c \<subseteq> (\<Union>c \<in> C. body_mem w' c)" using assms(2) by blast
    from owned_trans [OF qs(4) conjunct2 [OF own [unfolded recv_own_def]] sub this]
    have "dom (bufs (wk_sock w')) \<subseteq> B \<union> set (m_msg_queue (wk_pool w')) \<union> (\<Union>c \<in> C. body_mem w' c)"
      by (simp only: qs(1) set_append)
    ultimately show ?thesis unfolding recv_own_def by blast
  qed
qed

lemma recv_runs_sim:
  assumes "clients_rel C pend w" and "recv_contracts C cios w" and "recv_own C B w"
    and "arrivals pend (inputs cios) = (ms, rest)" and "w' = recv_runs cios w"
  shows "clients_rel C rest w' \<and>
    delivered w' = delivered w @ map (\<lambda>(c, f). msg_of c (m_cur_seq (wconn w c)) f) ms \<and>
    (\<forall>d. m_cur_seq (wconn w' d) = m_cur_seq (wconn w d)) \<and> faults (wk_sock w') = faults (wk_sock w) \<and>
    recv_own C B w'"
  using assms
proof (induction cios arbitrary: pend w ms)
  case Nil
  then show ?case by (simp add: inputs_def)
next
  case (Cons cio cios)
  obtain c io where cio: "cio = (c, io)" by (cases cio)
  with Cons.prems(2) obtain bs where bs: "ri_ret io = Recv_n bs" "bs \<noteq> []"
    by (cases "ri_ret io") auto
  obtain fs r where fr: "split_frames (pend c @ bs) = (fs, r)" by fastforce
  obtain ms' where ms: "arrivals (pend(c := r)) (inputs cios) = (ms', rest)" "ms = map (Pair c) fs @ ms'"
    using Cons.prems(4) fr bs by (auto simp: cio inputs_def split: prod.splits)
  have pre: "c \<in> C" "length bs \<le> unat (rest_recv_size (wconn w c))" "ri_addr io \<notin> dom (bufs (wk_sock w))"
    "recv_contracts C cios (read_request_handler io c w)"
    using Cons.prems(2) bs by (auto simp: cio)
  note step = clients_step [OF Cons.prems(1) pre(1) bs pre(2,3) fr refl]
  have "w' = recv_runs cios (read_request_handler io c w)" using Cons.prems(5) by (simp add: cio)
  from Cons.IH [OF step(1) pre(4) step(5) [OF Cons.prems(3)] ms(1) this] step(2-4) show ?case
    by (simp add: ms(2) comp_def)
qed

lemma arrivals_ok: "\<forall>(c, f) \<in> set (fst (arrivals pend ins)). frame_ok f"
proof (induction ins arbitrary: pend)
  case Nil
  then show ?case by simp
next
  case (Cons i ins)
  obtain c bs where i: "i = (c, bs)" by (cases i)
  obtain fs r where fr: "split_frames (pend c @ bs) = (fs, r)" by fastforce
  then have "\<forall>f \<in> set fs. frame_ok f" using split_frames_ok [of _ "pend c @ bs"] by simp
  moreover obtain ms p where ms: "arrivals (pend(c := r)) ins = (ms, p)" by fastforce
  moreover from Cons.IH [of "pend(c := r)"] have "\<forall>(c, f) \<in> set ms. frame_ok f"
    by (simp only: ms fst_conv)
  ultimately show ?case using fr by (auto simp: i)
qed

section \<open>What sending leaves alone\<close>

text \<open>The fields of a connection that belong to the reader, to its owner and to the heartbeat.\<close>

definition reader_view :: "mgx_conn \<Rightarrow> _" where
  "reader_view k = (recv_stat k, precv_buf k, rest_recv_size k, precv_mem_addr k, hdr_buf k, m_cur_seq k, last_ping_time k)"

lemma reader_view_after_send:
  "reader_view (conns (after_send n c s) d) = reader_view (conns s d)"
  by (cases "d = c") (simp_all add: after_send_def Let_def reader_view_def)

lemma reader_view_send_one:
  assumes "send_one uh a b others outs y = Some (outs', y')"
  shows "reader_view (conns (ss_sock y') d) = reader_view (conns (ss_sock y) d)"
  using assms
  by (cases "d = mh_pconn (buf_hdr b)")
    (auto simp: send_one_def Let_def reader_view_after_send split: option.splits, auto simp: reader_view_def)

lemma reader_view_loop:
  "send_list_loop uh pre post outs y = Some (outs', y') \<Longrightarrow>
   reader_view (conns (ss_sock y') d) = reader_view (conns (ss_sock y) d)"
proof (induction post arbitrary: pre outs y)
  case Nil
  then show ?case by simp
next
  case (Cons a post)
  have del: "conns (delete_buf x s) = conns s" for x s
    by (simp add: delete_buf_def raise_fault_def split: option.split)
  from Cons.prems show ?case
    by (auto simp: Let_def raise_fault_def del dest!: Cons.IH reader_view_send_one [of _ _ _ _ _ _ _ _ d]
        split: option.splits if_splits list.splits)
qed

lemma reader_view_round:
  "send_msg_th_round uh outs y = Some (outs', y') \<Longrightarrow>
   reader_view (conns (ss_sock y') d) = reader_view (conns (ss_sock y) d)"
  by (auto simp: send_msg_th_round_def Let_def dest!: reader_view_loop [of _ _ _ _ _ _ _ d] split: if_splits)

section \<open>What receiving leaves alone\<close>

text \<open>What the sending side and the heartbeat work on.\<close>

definition send_view :: "conn_ptr \<Rightarrow> mgx_socket \<Rightarrow> addr list \<times> int \<times> nat \<times> int \<times> u64 \<times> int" where
  "send_view c s = (m_send_list s, m_send_list_cnt s, m_send_queue_sem s,
     throw_send_cnt (conns s c), m_cur_seq (conns s c), last_ping_time (conns s c))"

lemma send_view_upd_conn:
  "(\<And>k. throw_send_cnt (f k) = throw_send_cnt k \<and> m_cur_seq (f k) = m_cur_seq k \<and> last_ping_time (f k) = last_ping_time k) \<Longrightarrow>
   send_view d (upd_conn c f s) = send_view d s"
  by (simp add: send_view_def upd_conn_def)

lemma send_view_store_recv: "send_view d (store_recv c bs s) = send_view d s"
  by (auto simp: store_recv_def raise_fault_def send_view_def upd_conn_def
      split: recv_ptr.split option.split)

lemma send_view_process_v2:
  "send_view d (wk_sock (read_request_handler_process_v2 now c w)) = send_view d (wk_sock w)"
  by (simp add: read_request_handler_process_v2_def Let_def upd_wconn_def send_view_upd_conn restore_recv_def)

lemma send_view_process_v1:
  "send_view d (wk_sock (read_request_handler_process_v1 io c w)) = send_view d (wk_sock w)"
proof -
  have "send_view d (new_buf a b s) = send_view d s" for a b s
    by (simp add: send_view_def new_buf_def)
  then show ?thesis
    by (simp add: read_request_handler_process_v1_def Let_def upd_wconn_def send_view_upd_conn restore_recv_def
        send_view_process_v2)
qed

lemma send_view_handler:
  assumes "ri_ret io = Recv_n bs" and "bs \<noteq> []"
  shows "send_view d (wk_sock (read_request_handler io c w)) = send_view d (wk_sock w)"
  by (simp add: handler_data [OF assms] Let_def upd_wconn_def send_view_upd_conn advance_def
      send_view_process_v1 send_view_process_v2 send_view_store_recv)

lemma send_view_runs:
  "recv_contracts C cios w \<Longrightarrow> send_view d (wk_sock (recv_runs cios w)) = send_view d (wk_sock w)"
proof (induction cios arbitrary: w)
  case Nil
  then show ?case by simp
next
  case (Cons cio cios)
  obtain c io where cio: "cio = (c, io)" by (cases cio)
  with Cons.prems obtain bs where "ri_ret io = Recv_n bs" "bs \<noteq> []"
    by (cases "ri_ret io") auto
  with Cons show ?case by (simp add: cio send_view_handler)
qed

section \<open>One round of the worker\<close>

text \<open>The send thread sends the replies.\<close>

lemma send_replies:
  assumes "m_send_list s = rs" and "m_send_list_cnt s = int (length rs)" and "distinct rs"
    and "map (bufs s) rs = map (\<lambda>(c, d). msg_of c (m_cur_seq (conns s c)) d) (reply_msgs ms)"
    and "\<forall>(c, f) \<in> set ms. throw_send_cnt (conns s c) = 0"
  shows "\<exists>y'. send_msg_th_round False (map (\<lambda>m. Send_n (length (snd m))) (reply_msgs ms))
      \<lparr> ss_sock = s, ss_wire = [] \<rparr> = Some ([], y') \<and> ss_wire y' = reply_msgs ms \<and>
    m_send_list (ss_sock y') = [] \<and> m_send_list_cnt (ss_sock y') = 0 \<and>
    (\<forall>c. throw_send_cnt (conns s c) = 0 \<longrightarrow> throw_send_cnt (conns (ss_sock y') c) = 0) \<and>
    (\<forall>a \<in> set rs. bufs (ss_sock y') a = None) \<and> (\<forall>x. x \<notin> set rs \<longrightarrow> bufs (ss_sock y') x = bufs s x) \<and>
    faults (ss_sock y') = faults s"
proof -
  define y where "y = \<lparr> ss_sock = s, ss_wire = [] :: (conn_ptr \<times> bytes) list \<rparr>"
  define data where "data a = buf_data (the (bufs s a))" for a
  have b: "\<exists>c b. bufs s a = Some b \<and> sendable False b \<and> payload False b = data a \<and> mh_pconn (buf_hdr b) = c \<and>
      mh_cur_seq (buf_hdr b) = m_cur_seq (conns s c) \<and> throw_send_cnt (conns s c) = 0" if "a \<in> set rs" for a
  proof -
    have "bufs s a \<in> (\<lambda>(c, d). msg_of c (m_cur_seq (conns s c)) d) ` set (reply_msgs ms)"
      using that assms(4) by (metis image_eqI list.set_map)
    then obtain c d where cd: "(c, d) \<in> set (reply_msgs ms)" "bufs s a = msg_of c (m_cur_seq (conns s c)) d" by auto
    from reply_msgs_reply [OF cd(1)] obtain f where f: "(c, f) \<in> set ms" "reply_of f = Some d" by blast
    from cd(2) f(1) assms(5) reply_sendable [OF f(2), of "\<lparr> buf_hdr = mk_msg_hdr c (m_cur_seq (conns s c)), buf_data = d \<rparr>"]
    show ?thesis by (auto simp: msg_of_def data_def mk_msg_hdr_def)
  qed
  then have "send_queue_ok y"
    using assms(1-3) by (fastforce simp: send_queue_ok_def live_msg_def y_def dest_of_def)
  moreover have "m_send_list (ss_sock y) = rs" "\<forall>a \<in> set rs. throw_send_cnt (conns (ss_sock y) (dest_of y a)) = 0"
    "\<forall>a \<in> set rs. \<exists>b. bufs (ss_sock y) a = Some b \<and> sendable False b \<and> payload False b = data a"
    using assms(1) b by (fastforce simp: y_def dest_of_def)+
  moreover have wire: "map (\<lambda>a. (dest_of y a, data a)) rs = reply_msgs ms"
  proof -
    have "map (\<lambda>a. (dest_of y a, data a)) rs =
        map (\<lambda>x. (mh_pconn (buf_hdr (the x)), buf_data (the x))) (map (bufs s) rs)"
      using b by (fastforce simp: y_def dest_of_def data_def)
    also have "\<dots> = reply_msgs ms"
      by (simp add: assms(4) msg_of_def mk_msg_hdr_def comp_def case_prod_unfold)
    finally show ?thesis .
  qed
  moreover have "map (\<lambda>a. Send_n (length (data a))) rs = map (\<lambda>m. Send_n (length (snd m))) (reply_msgs ms)"
    by (simp flip: wire)
  ultimately show ?thesis
    using send_round_full [of y rs False data] by (auto simp: y_def)
qed

text \<open>The pool threads handle a queue of frames, and the send thread sends what they answer.\<close>

lemma serve_queue:
  assumes "map (bufs s) q = map (\<lambda>(c, f). msg_of c (m_cur_seq (conns s c)) f) ms" and "distinct q"
    and "\<forall>(c, f) \<in> set ms. frame_ok f" and "work_contract es q s"
    and "m_send_list s = []" and "m_send_list_cnt s = 0" and "\<forall>(c, f) \<in> set ms. throw_send_cnt (conns s c) = 0"
  shows "\<exists>y'. send_msg_th_round False (map (\<lambda>m. Send_n (length (snd m))) (reply_msgs ms))
      \<lparr> ss_sock = handle_all es q s, ss_wire = [] \<rparr> = Some ([], y') \<and> ss_wire y' = reply_msgs ms \<and>
    m_send_list (ss_sock y') = [] \<and> m_send_list_cnt (ss_sock y') = 0 \<and>
    (\<forall>c. throw_send_cnt (conns s c) = 0 \<longrightarrow> throw_send_cnt (conns (ss_sock y') c) = 0) \<and>
    (\<forall>c. reader_view (conns (ss_sock y') c) =
      reader_view ((conns s c)\<lparr> last_ping_time := ping_time c (last_ping_time (conns s c)) (zip es ms) \<rparr>)) \<and>
    dom (bufs (ss_sock y')) \<subseteq> dom (bufs s) - set q \<and>
    (\<forall>a \<in> dom (bufs s) - set q. bufs (ss_sock y') a = bufs s a) \<and> faults (ss_sock y') = faults s"
proof -
  define seq where "seq c = m_cur_seq (conns s c)" for c
  have seq: "\<forall>c. m_cur_seq (conns s c) = seq c" by (simp add: seq_def)
  from handle_frames [OF assms(1) [folded seq_def] assms(2,3) seq assms(4)] assms(5,6)
  obtain rs where h: "m_send_list (handle_all es q s) = rs" "m_send_list_cnt (handle_all es q s) = int (length rs)"
    "map (bufs (handle_all es q s)) rs = map (\<lambda>(c, d). msg_of c (seq c) d) (reply_msgs ms)" "distinct rs"
    "set rs \<inter> (dom (bufs s) - set q) = {}" "dom (bufs (handle_all es q s)) \<subseteq> dom (bufs s) - set q \<union> set rs"
    "\<forall>x \<in> dom (bufs s) - set q. bufs (handle_all es q s) x = bufs s x"
    "\<forall>c. conns (handle_all es q s) c = (conns s c)
       \<lparr> last_ping_time := ping_time c (last_ping_time (conns s c)) (zip es ms) \<rparr>"
    "faults (handle_all es q s) = faults s" by auto
  have "map (bufs (handle_all es q s)) rs =
      map (\<lambda>(c, d). msg_of c (m_cur_seq (conns (handle_all es q s) c)) d) (reply_msgs ms)"
    "\<forall>(c, f) \<in> set ms. throw_send_cnt (conns (handle_all es q s) c) = 0"
    using h(3) assms(7) by (simp_all add: h(8) seq_def)
  from send_replies [OF h(1,2,4) this] obtain y' where
    y: "send_msg_th_round False (map (\<lambda>m. Send_n (length (snd m))) (reply_msgs ms))
      \<lparr> ss_sock = handle_all es q s, ss_wire = [] \<rparr> = Some ([], y')" "ss_wire y' = reply_msgs ms"
    "m_send_list (ss_sock y') = []" "m_send_list_cnt (ss_sock y') = 0"
    "\<forall>c. throw_send_cnt (conns (handle_all es q s) c) = 0 \<longrightarrow> throw_send_cnt (conns (ss_sock y') c) = 0"
    "\<forall>a \<in> set rs. bufs (ss_sock y') a = None"
    "\<forall>x. x \<notin> set rs \<longrightarrow> bufs (ss_sock y') x = bufs (handle_all es q s) x"
    "faults (ss_sock y') = faults (handle_all es q s)" by blast
  have rv: "reader_view (conns (ss_sock y') c) =
      reader_view ((conns s c)\<lparr> last_ping_time := ping_time c (last_ping_time (conns s c)) (zip es ms) \<rparr>)" for c
    using reader_view_round [OF y(1), of c] by (simp add: h(8))
  have "dom (bufs (ss_sock y')) \<subseteq> dom (bufs s) - set q"
  proof
    fix x assume x: "x \<in> dom (bufs (ss_sock y'))"
    with y(6) have "x \<notin> set rs" by auto
    with x y(7) h(6) show "x \<in> dom (bufs s) - set q" by (auto simp: domIff)
  qed
  moreover have "\<forall>a \<in> dom (bufs s) - set q. bufs (ss_sock y') a = bufs s a"
  proof
    fix a assume a: "a \<in> dom (bufs s) - set q"
    with h(5) have "a \<notin> set rs" by blast
    with a h(7) y(7) show "bufs (ss_sock y') a = bufs s a" by simp
  qed
  moreover have "\<forall>c. throw_send_cnt (conns s c) = 0 \<longrightarrow> throw_send_cnt (conns (ss_sock y') c) = 0"
    using y(5) by (simp add: h(8))
  ultimately show ?thesis
    using y(1-4,8) h(9) rv by simp
qed

text \<open>The reader goes on where it was.\<close>

lemma recv_rel_later:
  assumes "recv_rel c w pend" and "reader_view (conns s' c) = reader_view ((wconn w c)\<lparr> last_ping_time := t \<rparr>)"
    and "\<forall>a. precv_mem_addr (wconn w c) = Some a \<longrightarrow> bufs s' a = bufs (wk_sock w) a" and "m_msg_queue p = []"
  shows "recv_rel c \<lparr> wk_sock = s', wk_pool = p \<rparr> pend"
proof -
  have v: "recv_stat (conns s' c) = recv_stat (wconn w c)" "precv_buf (conns s' c) = precv_buf (wconn w c)"
    "rest_recv_size (conns s' c) = rest_recv_size (wconn w c)" "hdr_buf (conns s' c) = hdr_buf (wconn w c)"
    "precv_mem_addr (conns s' c) = precv_mem_addr (wconn w c)" "m_cur_seq (conns s' c) = m_cur_seq (wconn w c)"
    using assms(2) by (simp_all add: reader_view_def)
  have "body_rel c s' {} pend" if "body_rel c (wk_sock w) Q pend" for Q
    using that assms(3) by (fastforce simp: body_rel_def v)
  then show ?thesis
    using assms(1,4) by (auto simp: recv_rel_def hdr_rel_def v)
qed

text \<open>The clients of a run, and what they have pending.\<close>

lemma recv_contracts_clients: "recv_contracts C cios w \<Longrightarrow> fst ` set (inputs cios) \<subseteq> C"
proof (induction cios arbitrary: w)
  case Nil
  then show ?case by (simp add: inputs_def)
next
  case (Cons cio cios)
  obtain c io where cio: "cio = (c, io)" by (cases cio)
  with Cons.prems have "c \<in> C" "recv_contracts C cios (read_request_handler io c w)" by simp_all
  with Cons.IH show ?case by (simp add: cio inputs_def)
qed

lemma arrivals_clients: "fst ` set (fst (arrivals pend ins)) \<subseteq> fst ` set ins"
proof (induction ins arbitrary: pend)
  case Nil
  then show ?case by simp
next
  case (Cons i ins)
  obtain c bs where i: "i = (c, bs)" by (cases i)
  obtain fs r where fr: "split_frames (pend c @ bs) = (fs, r)" by fastforce
  obtain ms p where ms: "arrivals (pend(c := r)) ins = (ms, p)" by fastforce
  from Cons.IH [of "pend(c := r)"] have "fst ` set ms \<subseteq> fst ` set ins" by (simp only: ms fst_conv)
  then show ?case using fr ms by (auto simp: i)
qed

lemma reply_msgs_clients: "fst ` set (reply_msgs ms) \<subseteq> fst ` set ms"
  by (auto dest!: reply_msgs_reply intro: rev_image_eqI)

lemma recv_rel_pending: "recv_rel c w pend \<Longrightarrow> split_frames pend = ([], pend)"
  by (auto simp: recv_rel_def hdr_rel_def body_rel_def split_frames_short split_frames_partial)

lemma clients_rel_later:
  assumes "clients_rel C pend w" and "\<And>c. reader_view (conns s' c) = reader_view ((wconn w c)\<lparr> last_ping_time := t c \<rparr>)"
    and "\<forall>a \<in> dom (bufs (wk_sock w)) - set (m_msg_queue (wk_pool w)). bufs s' a = bufs (wk_sock w) a"
    and "m_msg_queue p = []"
  shows "clients_rel C pend \<lparr> wk_sock = s', wk_pool = p \<rparr>"
proof -
  have "recv_rel c \<lparr> wk_sock = s', wk_pool = p \<rparr> (pend c)" if "c \<in> C" for c
  proof -
    have rel: "recv_rel c w (pend c)" using that assms(1) by (simp add: clients_rel_def)
    show ?thesis
      by (rule recv_rel_later [OF rel assms(2) _ assms(4)]) (use recv_rel_mem [OF rel] assms(3) in blast)
  qed
  moreover have "precv_mem_addr (conns s' c) = precv_mem_addr (wconn w c)" for c
    using assms(2) [of c] by (simp add: reader_view_def)
  ultimately show ?thesis using assms(1) by (simp add: clients_rel_def)
qed

section \<open>Two clients\<close>

text \<open>Before a header is complete, the rest of it is what the reader asks for.\<close>

lemma recv_rel_short:
  "recv_rel c w pend \<Longrightarrow> length pend < m_pkg_hdr_size \<Longrightarrow>
   unat (rest_recv_size (wconn w c)) = m_pkg_hdr_size - length pend"
  by (auto simp: recv_rel_def hdr_rel_def body_rel_def)

lemma recv_frame_dom:
  "recv_frame c new w w' \<Longrightarrow> body_mem w c \<subseteq> dom (bufs (wk_sock w)) \<Longrightarrow>
   dom (bufs (wk_sock w')) \<subseteq> insert new (dom (bufs (wk_sock w)))"
  unfolding recv_frame_def by blast

lemma dom_handler:
  assumes "recv_rel c w pend" and "ri_ret io = Recv_n bs" "bs \<noteq> []"
  shows "dom (bufs (wk_sock (read_request_handler io c w))) \<subseteq> insert (ri_addr io) (dom (bufs (wk_sock w)))"
  by (rule recv_frame_dom [OF recv_frame_handler [OF assms]])
    (use recv_rel_mem [OF assms(1)] in auto)

text \<open>Two clients ping; the ping of one arrives between the two pieces of the other.\<close>

definition demo_two :: worker where
  "demo_two = \<lparr> wk_sock = Mgx_socket\<lparr> conns := (\<lambda>_. new_conn)
     (16 := get_one_to_use 0 new_conn, 32 := get_one_to_use 0 new_conn) \<rparr>, wk_pool = Mgx_th_pool \<rparr>"

definition demo_io :: "addr \<Rightarrow> bytes \<Rightarrow> recv_io" where
  "demo_io a bs = \<lparr> ri_now = 1, ri_ret = Recv_n bs, ri_addr = a, ri_junk = [] \<rparr>"

definition demo_cios :: "(conn_ptr \<times> recv_io) list" where
  "demo_cios = [(16, demo_io 64 [8, 0]), (32, demo_io 72 [8, 0, 0, 0, 0, 0, 0, 0]), (16, demo_io 80 [0, 0, 0, 0, 0, 0])]"

lemma demo_two_clients: "clients_rel {16, 32} (\<lambda>_. []) demo_two"
proof -
  have ready: "ready_conn 0 (wconn demo_two c)" "length (hdr_buf (wconn demo_two c)) = PKG_HDR_BUF_SIZE"
    "precv_mem_addr (wconn demo_two c) = None" "m_msg_queue (wk_pool demo_two) = []" if "c \<in> {16, 32}" for c
    using that by (auto simp: demo_two_def ready_conn_def get_one_to_use_def new_conn_def m_pkg_hdr_size_def
        Mgx_th_pool_def Mgx_socket_def)
  have "recv_rel c demo_two []" if "c \<in> {16, 32}" for c
    by (rule recv_rel_ready) (use ready [OF that] in simp_all)
  then show ?thesis using ready(3) by (simp add: clients_rel_def)
qed

lemma ping_bytes: "ping_pkg = [8, 0, 0, 0, 0, 0, 0, 0]"
  unfolding ping_pkg_def m_pkg_hdr_size_def store_pkg_hdr_def by code_simp

lemma demo_two_contract:
  "recv_contracts {16, 32} demo_cios demo_two \<and> dom (bufs (wk_sock (recv_runs demo_cios demo_two))) \<subseteq> {64, 72, 80}"
proof -
  define w1 w2 w3 where "w1 = read_request_handler (demo_io 64 [8, 0]) 16 demo_two"
    and "w2 = read_request_handler (demo_io 72 ping_pkg) 32 w1"
    and "w3 = read_request_handler (demo_io 80 [0, 0, 0, 0, 0, 0]) 16 w2"
  have io: "ri_ret (demo_io a bs) = Recv_n bs" "ri_addr (demo_io a bs) = a" for a bs
    by (simp_all add: demo_io_def)
  have rel: "recv_rel c w (pend c)" if "clients_rel {16, 32} pend w" "c \<in> {16, 32}" for c pend w
    using that by (auto simp: clients_rel_def)
  have sp: "split_frames ([] @ [8, 0]) = ([], [8, 0])" "split_frames ([] @ ping_pkg) = ([ping_pkg], [])"
    using demo_ping_frame by (simp_all add: split_frames_short m_pkg_hdr_size_def ping_bytes)
  note r0 = demo_two_clients
  have s0: "unat (rest_recv_size (wconn demo_two c)) = 8" if "c \<in> {16, 32}" for c
    using recv_rel_short [OF rel [OF r0 that]] by (simp add: m_pkg_hdr_size_def)
  have d0: "dom (bufs (wk_sock demo_two)) = {}" by (simp add: demo_two_def Mgx_socket_def)
  have r1: "clients_rel {16, 32} ((\<lambda>_. [])(16 := [8, 0])) w1"
    by (rule clients_step(1) [OF r0 _ io(1) _ _ _ sp(1) w1_def]) (use s0 d0 in \<open>auto simp: io\<close>)
  have s1: "unat (rest_recv_size (wconn w1 32)) = 8"
    using recv_rel_short [OF rel [OF r1]] by (simp add: m_pkg_hdr_size_def)
  have d1: "dom (bufs (wk_sock w1)) \<subseteq> {64}"
    using dom_handler [OF rel [OF r0] io(1), of 16 "[8, 0]" 64] d0 by (simp add: w1_def io)
  have r2: "clients_rel {16, 32} (((\<lambda>_. [])(16 := [8, 0]))(32 := [])) w2"
    by (rule clients_step(1) [OF r1 _ io(1) _ _ _ _ w2_def]) (use s1 d1 sp(2) in \<open>auto simp: io ping_bytes\<close>)
  have s2: "unat (rest_recv_size (wconn w2 16)) = 6"
    using recv_rel_short [OF rel [OF r2]] by (simp add: m_pkg_hdr_size_def)
  have d2: "dom (bufs (wk_sock w2)) \<subseteq> {64, 72}"
    using dom_handler [OF rel [OF r1] io(1), of 32 ping_pkg 72] d1 by (auto simp: w2_def io ping_pkg_ne)
  have d3: "dom (bufs (wk_sock w3)) \<subseteq> {64, 72, 80}"
    using dom_handler [OF rel [OF r2] io(1), of 16 "[0, 0, 0, 0, 0, 0]" 80] d2 by (auto simp: w3_def io)
  show ?thesis
    unfolding demo_cios_def recv_contracts.simps recv_runs.simps w1_def [symmetric] ping_bytes [symmetric]
      w2_def [symmetric] w3_def [symmetric] io io_bytes.simps
    using s0 d0 s1 d1 s2 d2 d3 by (auto simp: ping_pkg_ne ping_pkg_facts m_pkg_hdr_size_def)
qed

text \<open>The two pings are queued, and the two replies get addresses of their own.\<close>

lemma demo_two_arrivals:
  "arrivals (\<lambda>_. []) (inputs demo_cios) = ([(32, ping_pkg), (16, ping_pkg)], (\<lambda>_. []))"
proof -
  have sp: "split_frames [8, 0] = ([], [8, 0])" "split_frames ping_pkg = ([ping_pkg], [])"
    using demo_ping_frame by (simp_all add: split_frames_short m_pkg_hdr_size_def ping_bytes)
  then show ?thesis
    by (simp add: inputs_def demo_cios_def demo_io_def ping_bytes fun_eq_iff)
qed

definition demo_envs :: "logic_env list" where
  "demo_envs = [demo_env, demo_env\<lparr> le_addr := 112 \<rparr>]"

lemma demo_two_queue:
  assumes "s = wk_sock (recv_runs demo_cios demo_two)"
  shows "map (bufs s) (m_msg_queue (wk_pool (recv_runs demo_cios demo_two))) =
    map (\<lambda>(c, f). msg_of c (m_cur_seq (conns s c)) f) [(32, ping_pkg), (16, ping_pkg)]"
proof -
  have "recv_own {16, 32} {} demo_two" "delivered demo_two = []"
    by (simp_all add: recv_own_def delivered_def demo_two_def Mgx_th_pool_def Mgx_socket_def)
  from recv_runs_sim [OF demo_two_clients conjunct1 [OF demo_two_contract] this(1) demo_two_arrivals refl] this(2)
  show ?thesis by (simp add: delivered_def assms)
qed

text \<open>Two threads handle them, the later one first.\<close>

lemma demo_two_work:
  "work_contract demo_envs (rev (m_msg_queue (wk_pool (recv_runs demo_cios demo_two))))
     (wk_sock (recv_runs demo_cios demo_two))"
proof -
  define s where "s = wk_sock (recv_runs demo_cios demo_two)"
  obtain x y where q: "m_msg_queue (wk_pool (recv_runs demo_cios demo_two)) = [x, y]"
    "bufs s y = msg_of 16 (m_cur_seq (conns s 16)) ping_pkg"
    using demo_two_queue [OF s_def] by (auto simp: map_eq_Cons_conv)
  have d: "dom (bufs s) \<subseteq> {64, 72, 80}"
    using demo_two_contract by (simp add: s_def)
  then have e: "\<not> bad_log_read demo_env y s" "le_addr demo_env \<notin> dom (bufs s)"
    by (auto simp: demo_env_def MGX_LOG_DEBUG_def bad_log_read_def log_overread_def split: option.split)
  have ok: "frame_ok ping_pkg"
    by (simp add: frame_ok_def ping_pkg_facts bad_size_def PKG_MAX_SIZE_def m_pkg_hdr_size_def)
  have "dom (bufs (th_handle_msg demo_env y s)) \<subseteq> {64, 72, 80, 96}"
    using d handle_frame_parts(2) [OF q(2) ok refl e] by (auto simp: demo_env_def split: option.splits if_splits)
  with e show ?thesis
    by (auto simp: demo_envs_def s_def [symmetric] q(1) demo_env_def MGX_LOG_DEBUG_def
        bad_log_read_def log_overread_def split: option.split)
qed

lemma demo_two_handled:
  "handled (wk_sock (recv_runs demo_cios demo_two)) (rev (m_msg_queue (wk_pool (recv_runs demo_cios demo_two)))) =
     [(16, ping_pkg), (32, ping_pkg)]"
proof -
  have "handled s (rev q) = rev (handled s q)" for s q by (simp add: handled_def rev_map)
  with handled_order(1) [OF demo_two_queue [OF refl]] show ?thesis by simp
qed

end
