(* ===== verification/Mgx_Heartbeat.thy ===== *)
theory Mgx_Heartbeat
  imports Mgx_Conn
begin

text \<open>
  The heartbeat monitor of \<^verbatim>\<open>src/net/mgx_socket_time.cpp\<close>: one turn of the loop of
  \<open>monitor_timer_th_func\<close>, up to the sleep at its end. Due timers are collected and re-armed,
  then every collected timer that belongs to the current use of its connection is checked
  against the time of the last ping.
\<close>

section \<open>Operations\<close>

text \<open>
  The test of the monitor. The product is exact for waiting times below \<open>2 ^ 31 / 3\<close> seconds, beyond which
  the multiplication of the program would overflow.
\<close>

definition silent :: "int \<Rightarrow> mgx_msg_hdr \<Rightarrow> mgx_socket \<Rightarrow> bool" where
  "silent cur_time h s \<longleftrightarrow>
     mh_cur_seq h = m_cur_seq (conns s (mh_pconn h)) \<and>
     cur_time - last_ping_time (conns s (mh_pconn h)) > m_heart_wait_time s * 3"

text \<open>
  The loop \<open>while (!que.empty())\<close>; \<open>clock k\<close> is what the \<open>k\<close>-th call of \<open>time\<close> inside
  \<open>insert_recy_conn_queue\<close> returns.
\<close>

fun expire_all :: "int \<Rightarrow> (nat \<Rightarrow> int) \<Rightarrow> nat \<Rightarrow> mgx_msg_hdr list \<Rightarrow> mgx_socket \<Rightarrow> mgx_socket" where
  "expire_all cur_time clock k [] s = s"
| "expire_all cur_time clock k (h # hs) s =
     expire_all cur_time clock (Suc k) hs
       (if silent cur_time h s then insert_recy_conn_queue (clock k) (mh_pconn h) s else s)"

definition monitor_timer_round ::
  "int \<Rightarrow> (nat \<Rightarrow> int) \<Rightarrow> mgx_socket \<Rightarrow> mgx_socket option" where
  "monitor_timer_round cur_time clock s =
     (if m_timer_que_size s > 0 \<and> cur_time > m_timer_que_head_time s
      then map_option (\<lambda>(hs, s1). expire_all cur_time clock 0 hs s1) (drain_over_time cur_time s)
      else Some s)"

text \<open>The argument of \<open>usleep\<close> at the end of the turn, in microseconds.\<close>

definition monitor_sleep_us :: "int \<Rightarrow> mgx_socket \<Rightarrow> int" where
  "monitor_sleep_us cur_time s =
     (let t = (m_timer_que_head_time s - cur_time) * 1000 * 1000
      in if t > 0 then t else 200 * 1000)"

section \<open>Effect of the checks\<close>

lemma timer_fields_insert_recy:
  assumes "timer_inv s"
  shows "m_heart_wait_time (insert_recy_conn_queue now p s) = m_heart_wait_time s"
    and "m_enabled_heartbeat (insert_recy_conn_queue now p s) = m_enabled_heartbeat s"
    and "faults (insert_recy_conn_queue now p s) = faults s"
    and "m_timer_queue (insert_recy_conn_queue now p s) =
      (if m_enabled_heartbeat s \<noteq> 0 then mm_erase_first (\<lambda>h. mh_pconn h = p) (m_timer_queue s)
       else m_timer_queue s)"
  by (simp_all add: insert_recy_conn_queue_def Let_def close_fd_def upd_conn_def
      delete_from_timer_queue_eq [OF assms])

lemma timer_inv_insert_recy [mgx_inv]:
  assumes "timer_inv s"
  shows "timer_inv (insert_recy_conn_queue now p s)"
proof -
  define s1 where "s1 = (if m_enabled_heartbeat s \<noteq> 0 then delete_from_timer_queue p s else s)"
  have "timer_inv s1" using assms by (simp add: s1_def timer_inv_delete)
  moreover have "m_timer_queue (insert_recy_conn_queue now p s) = m_timer_queue s1"
    "m_timer_que_size (insert_recy_conn_queue now p s) = m_timer_que_size s1"
    "m_timer_que_head_time (insert_recy_conn_queue now p s) = m_timer_que_head_time s1"
    by (simp_all add: insert_recy_conn_queue_def Let_def close_fd_def upd_conn_def flip: s1_def)
  ultimately show ?thesis by (simp add: timer_inv_def)
qed

lemma last_ping_insert_recy:
  "last_ping_time (conns (insert_recy_conn_queue now p s) c) = last_ping_time (conns s c)"
  "c \<noteq> p \<Longrightarrow> conns (insert_recy_conn_queue now p s) c = conns s c"
  by (simp_all add: insert_recy_effect)

lemma expire_all_effect:
  assumes "timer_inv s"
  shows "timer_inv (expire_all t clock k hs s) \<and> faults (expire_all t clock k hs s) = faults s \<and>
    m_recy_conn_set (expire_all t clock k hs s) =
      m_recy_conn_set s \<union> mh_pconn ` {h \<in> set hs. silent t h s}"
  using assms
proof (induction hs arbitrary: k s)
  case Nil
  then show ?case by simp
next
  case (Cons h hs)
  show ?case
  proof (cases "silent t h s")
    case True
    define s1 where "s1 = insert_recy_conn_queue (clock k) (mh_pconn h) s"
    have inv: "timer_inv s1" using Cons.prems by (simp add: s1_def timer_inv_insert_recy)
    have recy: "m_recy_conn_set s1 = insert (mh_pconn h) (m_recy_conn_set s)"
      by (simp add: s1_def insert_recy_fields)
    have same: "silent t h' s1 = silent t h' s" if "mh_pconn h' \<noteq> mh_pconn h" for h'
      using that Cons.prems
      by (simp add: silent_def s1_def last_ping_insert_recy timer_fields_insert_recy)
    have "m_recy_conn_set s1 \<union> mh_pconn ` {h' \<in> set hs. silent t h' s1} =
      m_recy_conn_set s \<union> mh_pconn ` {h' \<in> set (h # hs). silent t h' s}"
      unfolding recy using True same by auto
    then show ?thesis
      using Cons.IH [OF inv, of "Suc k"] True Cons.prems
      by (simp add: timer_fields_insert_recy flip: s1_def) (simp add: s1_def timer_fields_insert_recy)
  next
    case False
    then show ?thesis using Cons.IH [OF Cons.prems, of "Suc k"] by auto
  qed
qed

text \<open>
  The checks in terms of the pool: they are steps of the pool that park connections, and each
  connection that is newly parked changes its owner once.
\<close>

definition parks :: "mgx_socket \<Rightarrow> mgx_socket \<Rightarrow> bool" where
  "parks s t \<longleftrightarrow> pool_step\<^sup>*\<^sup>* s t \<and> m_pconns_queue t = m_pconns_queue s \<and>
     m_pconns_free_queue t = m_pconns_free_queue s \<and> m_recy_conn_set s \<subseteq> m_recy_conn_set t \<and>
     (\<forall>p. p \<notin> m_recy_conn_set t \<longrightarrow> conns t p = conns s p) \<and>
     (\<forall>p. m_cur_seq (conns t p) = m_cur_seq (conns s p) + of_bool (p \<in> m_recy_conn_set t - m_recy_conn_set s))"

lemma parks_refl [simp]: "parks s s"
  by (simp add: parks_def)

lemma parks_trans:
  assumes "parks s t" and "parks t u"
  shows "parks s u"
proof -
  have "conns u p = conns s p" if "p \<notin> m_recy_conn_set u" for p
    using that assms unfolding parks_def by (metis subsetD)
  moreover have "m_cur_seq (conns u p) = m_cur_seq (conns s p) + of_bool (p \<in> m_recy_conn_set u - m_recy_conn_set s)" for p
  proof -
    have "m_cur_seq (conns u p) = m_cur_seq (conns s p) + of_bool (p \<in> m_recy_conn_set t - m_recy_conn_set s) +
        of_bool (p \<in> m_recy_conn_set u - m_recy_conn_set t)"
      using assms by (simp add: parks_def)
    moreover have "m_recy_conn_set s \<subseteq> m_recy_conn_set t" "m_recy_conn_set t \<subseteq> m_recy_conn_set u"
      using assms by (simp_all add: parks_def)
    ultimately show ?thesis by (auto simp: of_bool_def split: if_splits)
  qed
  ultimately show ?thesis
    using assms unfolding parks_def by (auto intro: rtranclp_trans)
qed

lemma parks_insert_recy:
  assumes "conn_status s p \<in> {In_use, In_recovery}"
  shows "parks s (insert_recy_conn_queue now p s)"
proof -
  have "pool_step s (insert_recy_conn_queue now p s)"
    by (rule step_park) (use assms in auto)
  then show ?thesis
    by (auto simp: parks_def insert_recy_effect(1) insert_recy_fields)
qed

lemma parks_status:
  "parks s t \<Longrightarrow> conn_status s p \<in> {In_use, In_recovery} \<Longrightarrow> conn_status t p \<in> {In_use, In_recovery}"
  by (auto simp: parks_def conn_status_def split: if_splits)

lemma expire_all_parks:
  assumes "\<forall>h \<in> set hs. silent t h s \<longrightarrow> conn_status s (mh_pconn h) \<in> {In_use, In_recovery}" and "timer_inv s"
  shows "parks s (expire_all t clock k hs s)"
  using assms
proof (induction hs arbitrary: k s)
  case Nil
  then show ?case by simp
next
  case (Cons h hs)
  show ?case
  proof (cases "silent t h s")
    case True
    define s1 where "s1 = insert_recy_conn_queue (clock k) (mh_pconn h) s"
    have st: "conn_status s (mh_pconn h) \<in> {In_use, In_recovery}"
      using Cons.prems(1) True by auto
    then have park: "parks s s1"
      unfolding s1_def by (rule parks_insert_recy)
    have inv: "timer_inv s1"
      unfolding s1_def by (rule timer_inv_insert_recy [OF Cons.prems(2)])
    have "conn_status s1 (mh_pconn h') \<in> {In_use, In_recovery}" if "h' \<in> set hs" "silent t h' s1" for h'
    proof (cases "mh_pconn h' = mh_pconn h")
      case True
      then show ?thesis using parks_status [OF park st] by simp
    next
      case False
      then have "silent t h' s"
        using that(2) Cons.prems(2) by (simp add: silent_def s1_def last_ping_insert_recy timer_fields_insert_recy)
      then show ?thesis using that(1) Cons.prems(1) parks_status [OF park] by simp
    qed
    with Cons.IH [of s1 "Suc k"] inv have "parks s1 (expire_all t clock (Suc k) hs s1)" by blast
    with park have "parks s (expire_all t clock (Suc k) hs s1)" by (rule parks_trans)
    then show ?thesis using True by (simp add: s1_def)
  next
    case False
    then show ?thesis using Cons by simp
  qed
qed

text \<open>
  Each connection that is found silent has its descriptor closed exactly once, also when several
  of its timers are due: parking it makes the other timers stale. No timer carries the number
  that its connection gets next.
\<close>

definition not_ahead :: "mgx_msg_hdr \<Rightarrow> mgx_socket \<Rightarrow> bool" where
  "not_ahead h s \<longleftrightarrow> mh_cur_seq h \<noteq> m_cur_seq (conns s (mh_pconn h)) + 1"

lemma expire_all_closes:
  assumes "timer_inv s"
    and "\<forall>h \<in> set hs. if mh_pconn h \<in> D then mh_cur_seq h \<noteq> m_cur_seq (conns s (mh_pconn h))
      else not_ahead h s \<and> (silent t h s \<longrightarrow> conn_status s (mh_pconn h) = In_use)"
  shows "\<exists>cs. distinct cs \<and> set cs = mh_pconn ` {h \<in> set hs. silent t h s} \<and>
    fd_closes (expire_all t clock k hs s) = map (\<lambda>c. c_fd (conns s c)) cs @ fd_closes s"
  using assms
proof (induction hs arbitrary: D k s)
  case Nil
  then show ?case by simp
next
  case (Cons h hs)
  show ?case
  proof (cases "silent t h s")
    case True
    let ?c = "mh_pconn h"
    define s1 where "s1 = insert_recy_conn_queue (clock k) ?c s"
    have st: "conn_status s ?c = In_use" "?c \<notin> D"
      using Cons.prems(2) True by (auto simp: silent_def split: if_splits)
    then have new: "?c \<notin> m_recy_conn_set s" by (auto simp: conn_status_def split: if_splits)
    have inv: "timer_inv s1" unfolding s1_def by (rule timer_inv_insert_recy [OF Cons.prems(1)])
    have seq: "m_cur_seq (conns s1 ?c) = m_cur_seq (conns s ?c) + 1"
      using new by (simp add: s1_def insert_recy_effect(1))
    have other: "conns s1 d = conns s d" "conn_status s1 d = conn_status s d" if "d \<noteq> ?c" for d
      using that by (simp_all add: s1_def last_ping_insert_recy conn_status_def insert_recy_fields)
    have stale: "mh_cur_seq h' \<noteq> m_cur_seq (conns s1 ?c)" if "h' \<in> set hs" "mh_pconn h' = ?c" for h'
    proof -
      have "not_ahead h' s" using that Cons.prems(2) st(2) by (auto split: if_splits)
      with that(2) seq show ?thesis by (simp add: not_ahead_def)
    qed
    have sil: "silent t h' s1 \<longleftrightarrow> mh_pconn h' \<noteq> ?c \<and> silent t h' s" if "h' \<in> set hs" for h'
    proof (cases "mh_pconn h' = ?c")
      case True
      with stale [OF that] show ?thesis by (simp add: silent_def)
    next
      case False
      then show ?thesis
        using Cons.prems(1) by (simp add: silent_def s1_def last_ping_insert_recy timer_fields_insert_recy)
    qed
    have "\<forall>h' \<in> set hs. if mh_pconn h' \<in> insert ?c D then mh_cur_seq h' \<noteq> m_cur_seq (conns s1 (mh_pconn h'))
      else not_ahead h' s1 \<and> (silent t h' s1 \<longrightarrow> conn_status s1 (mh_pconn h') = In_use)"
    proof
      fix h' assume h': "h' \<in> set hs"
      show "if mh_pconn h' \<in> insert ?c D then mh_cur_seq h' \<noteq> m_cur_seq (conns s1 (mh_pconn h'))
        else not_ahead h' s1 \<and> (silent t h' s1 \<longrightarrow> conn_status s1 (mh_pconn h') = In_use)"
      proof (cases "mh_pconn h' = ?c")
        case True
        with stale [OF h'] show ?thesis by simp
      next
        case False
        with h' Cons.prems(2) other sil [OF h'] show ?thesis by (auto simp: not_ahead_def)
      qed
    qed
    from Cons.IH [OF inv this, of "Suc k"] obtain cs where cs: "distinct cs"
      "set cs = mh_pconn ` {h' \<in> set hs. silent t h' s1}"
      "fd_closes (expire_all t clock (Suc k) hs s1) = map (\<lambda>c. c_fd (conns s1 c)) cs @ fd_closes s1" by blast
    have "set cs = mh_pconn ` {h' \<in> set hs. silent t h' s} - {?c}" using cs(2) sil by auto
    moreover have "map (\<lambda>c. c_fd (conns s1 c)) cs = map (\<lambda>c. c_fd (conns s c)) cs"
      using calculation other(1) by simp
    ultimately show ?thesis
      using cs(1,3) True by (intro exI [of _ "cs @ [?c]"]) (auto simp: s1_def fd_closes_effect)
  next
    case False
    then have "{h' \<in> set (h # hs). silent t h' s} = {h' \<in> set hs. silent t h' s}" by auto
    moreover have "\<forall>h \<in> set hs. if mh_pconn h \<in> D then mh_cur_seq h \<noteq> m_cur_seq (conns s (mh_pconn h))
        else not_ahead h s \<and> (silent t h s \<longrightarrow> conn_status s (mh_pconn h) = In_use)"
      using Cons.prems(2) by simp
    ultimately show ?thesis using Cons.IH [OF Cons.prems(1), of D "Suc k"] False by simp
  qed
qed

text \<open>The drain, in terms of the due part of the queue; its content by the container laws.\<close>

lemma rearm_all_content:
  assumes "mm_sorted q"
  shows "set (rearm_all k ds q) = (\<lambda>e. (k, rearm (snd e))) ` set ds \<union> set q"
    and "length (rearm_all k ds q) = length ds + length q"
proof -
  have "rearm_all k ds q = foldl (\<lambda>m (k, v). mm_emplace k v m) q (map (\<lambda>e. (k, rearm (snd e))) ds)"
    unfolding rearm_all_def by (induction ds arbitrary: q) auto
  with mm.emplace_all [OF assms, of "map (\<lambda>e. (k, rearm (snd e))) ds"]
  show "set (rearm_all k ds q) = (\<lambda>e. (k, rearm (snd e))) ` set ds \<union> set q"
    and "length (rearm_all k ds q) = length ds + length q" by simp_all
qed

lemma due_append: "due t q @ not_due t q = q"
  by (simp add: due_def not_due_def)

lemma set_due:
  assumes "mm_sorted q"
  shows "set (due t q) = {e \<in> set q. fst e \<le> t}" and "set (not_due t q) = {e \<in> set q. t < fst e}"
    and "filter (\<lambda>e. fst e \<le> t) q = due t q"
proof -
  note sp = due_split(2,3) [OF assms, of t]
  have "set q = set (due t q) \<union> set (not_due t q)"
    using due_append [of t q] by (metis set_append)
  with sp show "set (due t q) = {e \<in> set q. fst e \<le> t}" "set (not_due t q) = {e \<in> set q. t < fst e}"
    by force+
  have "filter (\<lambda>e. fst e \<le> t) (due t q @ not_due t q) = due t q"
    using sp by (simp add: filter_empty_conv) force
  then show "filter (\<lambda>e. fst e \<le> t) q = due t q" by (simp only: due_append)
qed

lemma drain_due:
  assumes "timer_inv s" and "0 < m_heart_wait_time s"
  obtains s' where "drain_over_time t s = Some (map snd (due t (m_timer_queue s)), s')" and "timer_inv s'"
    and "m_timer_queue s' = rearm_all (t + m_heart_wait_time s) (due t (m_timer_queue s)) (not_due t (m_timer_queue s))"
    and "conns s' = conns s" and "m_heart_wait_time s' = m_heart_wait_time s" and "faults s' = faults s"
    and "m_recy_conn_set s' = m_recy_conn_set s" and "m_enabled_heartbeat s' = m_enabled_heartbeat s"
    and "pool_view s' = pool_view s" and "fd_closes s' = fd_closes s"
proof -
  have "mm_sorted (m_timer_queue s)" using assms(1) by (simp add: timer_inv_def)
  from drain_over_time_eq [OF assms due_split [OF this, of t]]
  obtain s' where s': "drain_over_time t s = Some (map snd (due t (m_timer_queue s)), s')" "timer_inv s'"
    "m_timer_queue s' = rearm_all (t + m_heart_wait_time s) (due t (m_timer_queue s)) (not_due t (m_timer_queue s))"
    "s' = s\<lparr>m_timer_queue := m_timer_queue s', m_timer_que_head_time := m_timer_que_head_time s'\<rparr>"
    by blast
  show ?thesis
    by (rule that [OF s'(1-3)])
      (rule trans [OF arg_cong [OF s'(4)]], simp add: pool_view_def)+
qed

lemma silent_cong:
  "conns s' = conns s \<Longrightarrow> m_heart_wait_time s' = m_heart_wait_time s \<Longrightarrow> silent t h s' = silent t h s"
  by (simp add: silent_def)

section \<open>Timers of a connection that is no longer in use\<close>

definition timers_of :: "conn_ptr \<Rightarrow> mgx_socket \<Rightarrow> (int \<times> mgx_msg_hdr) list" where
  "timers_of c s = filter (\<lambda>e. mh_pconn (snd e) = c) (m_timer_queue s)"

text \<open>Every timer of the connection belongs to an earlier use of it.\<close>

definition only_stale :: "conn_ptr \<Rightarrow> mgx_socket \<Rightarrow> bool" where
  "only_stale c s \<longleftrightarrow> (\<forall>e \<in> set (timers_of c s). mh_cur_seq (snd e) \<noteq> m_cur_seq (conns s c))"

fun monitor_rounds :: "(int \<times> (nat \<Rightarrow> int)) list \<Rightarrow> mgx_socket \<Rightarrow> mgx_socket option" where
  "monitor_rounds [] s = Some s"
| "monitor_rounds ((t, clock) # rs) s = Option.bind (monitor_timer_round t clock s) (monitor_rounds rs)"

lemma filter_mm_emplace_length:
  "length (filter P (mm_emplace k v m)) = length (filter P m) + of_bool (P (k, v))"
  by (induction m) auto

lemma filter_mm_erase_first:
  "(\<And>v. P v \<Longrightarrow> \<not> Q v) \<Longrightarrow> filter (\<lambda>e. Q (snd e)) (mm_erase_first P m) = filter (\<lambda>e. Q (snd e)) m"
  by (induction m) auto

lemma rearm_fields [simp]: "mh_pconn (rearm h) = mh_pconn h" "mh_cur_seq (rearm h) = mh_cur_seq h"
  by (simp_all add: rearm_def mk_msg_hdr_def)

lemma rearm_all_timers:
  "length (filter (\<lambda>e. mh_pconn (snd e) = c) (rearm_all k ds q)) =
     length (filter (\<lambda>e. mh_pconn (snd e) = c) ds) + length (filter (\<lambda>e. mh_pconn (snd e) = c) q)"
  unfolding rearm_all_def by (induction ds arbitrary: q) (auto simp: filter_mm_emplace_length)

lemma expire_all_stale:
  assumes "timer_inv s" and "\<forall>h \<in> set hs. mh_pconn h = c \<longrightarrow> mh_cur_seq h \<noteq> m_cur_seq (conns s c)"
  shows "timers_of c (expire_all t clock k hs s) = timers_of c s \<and>
    conns (expire_all t clock k hs s) c = conns s c \<and>
    m_heart_wait_time (expire_all t clock k hs s) = m_heart_wait_time s"
  using assms
proof (induction hs arbitrary: k s)
  case Nil
  then show ?case by simp
next
  case (Cons h hs)
  show ?case
  proof (cases "silent t h s")
    case True
    then have ne: "mh_pconn h \<noteq> c" using Cons.prems by (auto simp: silent_def)
    define s1 where "s1 = insert_recy_conn_queue (clock k) (mh_pconn h) s"
    have inv: "timer_inv s1" using Cons.prems by (simp add: s1_def timer_inv_insert_recy)
    have cs: "conns s1 c = conns s c" using ne by (simp add: s1_def last_ping_insert_recy)
    have "filter (\<lambda>e. mh_pconn (snd e) = c) (mm_erase_first (\<lambda>h'. mh_pconn h' = mh_pconn h) q) =
        filter (\<lambda>e. mh_pconn (snd e) = c) q" for q :: "(int \<times> mgx_msg_hdr) list"
      by (rule filter_mm_erase_first) (use ne in simp)
    then have "timers_of c s1 = timers_of c s" "m_heart_wait_time s1 = m_heart_wait_time s"
      using Cons.prems(1) by (simp_all add: timers_of_def s1_def timer_fields_insert_recy)
    with Cons.IH [OF inv, of "Suc k"] Cons.prems(2) True cs show ?thesis
      by (simp flip: s1_def)
  next
    case False
    with Cons show ?thesis by simp
  qed
qed

lemma monitor_round_stale:
  assumes "timer_inv s" and "0 < m_heart_wait_time s" and "only_stale c s"
  obtains s' where "monitor_timer_round t clock s = Some s'" and "timer_inv s'"
    and "m_heart_wait_time s' = m_heart_wait_time s" and "only_stale c s'"
    and "length (timers_of c s') = length (timers_of c s)"
proof (cases "m_timer_que_size s > 0 \<and> t > m_timer_que_head_time s")
  case False
  with assms that show ?thesis by (simp add: monitor_timer_round_def)
next
  case True
  define q where "q = m_timer_queue s"
  define hs where "hs = map snd (due t q)"
  have sorted: "mm_sorted q" using assms(1) by (simp add: timer_inv_def q_def)
  have "mm_sorted (not_due t q)"
    using sorted due_append [of t q] by (metis map_append sorted_append)
  note content = rearm_all_content(1) [OF this, of "t + m_heart_wait_time s" "due t q"]
  obtain s1 where s1: "drain_over_time t s = Some (hs, s1)" "timer_inv s1"
      "m_timer_queue s1 = rearm_all (t + m_heart_wait_time s) (due t q) (not_due t q)"
      "conns s1 = conns s" "m_heart_wait_time s1 = m_heart_wait_time s"
    using drain_due [OF assms(1,2), of t] unfolding q_def hs_def by metis
  have stale: "\<forall>e \<in> set q. mh_pconn (snd e) = c \<longrightarrow> mh_cur_seq (snd e) \<noteq> m_cur_seq (conns s c)"
    using assms(3) unfolding only_stale_def timers_of_def q_def set_filter by blast
  have "\<forall>h \<in> set hs. mh_pconn h = c \<longrightarrow> mh_cur_seq h \<noteq> m_cur_seq (conns s1 c)"
    using stale by (auto simp: hs_def set_due [OF sorted] s1(4))
  from expire_all_stale [OF s1(2) this, of t clock 0]
  have e: "timers_of c (expire_all t clock 0 hs s1) = timers_of c s1"
      "conns (expire_all t clock 0 hs s1) c = conns s c"
      "m_heart_wait_time (expire_all t clock 0 hs s1) = m_heart_wait_time s"
    by (simp_all add: s1(4,5))
  have len: "length (timers_of c s1) = length (timers_of c s)"
    unfolding timers_of_def s1(3) rearm_all_timers length_append [symmetric] filter_append [symmetric]
      due_append q_def ..
  have "mh_cur_seq (snd e) \<noteq> m_cur_seq (conns s c)" if "e \<in> set (timers_of c s1)" for e
    using that stale unfolding timers_of_def s1(3) set_filter content set_due [OF sorted] by auto
  then have "only_stale c (expire_all t clock 0 hs s1)"
    unfolding only_stale_def e by blast
  with that [of "expire_all t clock 0 hs s1"] show ?thesis
    using True s1(1) e len expire_all_effect [OF s1(2), of t clock 0 hs] by (simp add: monitor_timer_round_def)
qed

lemma monitor_rounds_stale:
  assumes "timer_inv s" and "0 < m_heart_wait_time s" and "only_stale c s"
  shows "\<exists>s'. monitor_rounds rs s = Some s' \<and> only_stale c s' \<and> length (timers_of c s') = length (timers_of c s)"
  using assms
proof (induction rs arbitrary: s)
  case Nil
  then show ?case by simp
next
  case (Cons r rs)
  obtain t clock where r: "r = (t, clock)" by (cases r)
  obtain s1 where "monitor_timer_round t clock s = Some s1" "timer_inv s1"
      "m_heart_wait_time s1 = m_heart_wait_time s" "only_stale c s1"
      "length (timers_of c s1) = length (timers_of c s)"
    using monitor_round_stale [OF Cons.prems, of t clock] by metis
  with Cons.IH [of s1] Cons.prems show ?case by (simp add: r)
qed

lemma close_conn_timers:
  "m_timer_queue (close_conn c s) = m_timer_queue s" "m_timer_que_size (close_conn c s) = m_timer_que_size s"
  "m_timer_que_head_time (close_conn c s) = m_timer_que_head_time s"
  "m_heart_wait_time (close_conn c s) = m_heart_wait_time s"
  "m_cur_seq (conns (close_conn c s) c) = m_cur_seq (conns s c) + 1"
  by (simp_all add: close_conn_def free_conn_def put_one_to_free_def close_fd_def Let_def upd_conn_def
      delete_opt_def delete_buf_def raise_fault_def split: option.split)

section \<open>Properties\<close>

text \<open>
  C24: the drain loop ends. For every positive heartbeat interval it returns after finitely
  many rounds, with exactly the timers whose time has come, in order of their due times; each
  of them is armed again one interval from now, no timer is lost, the others keep their times,
  and the size counter and the cached earliest time are exact again.
\<close>

theorem drain_collects_due_timers:
  assumes "timer_inv s" and "0 < m_heart_wait_time s"
  shows "\<exists>s'. drain_over_time t s = Some (map snd (filter (\<lambda>e. fst e \<le> t) (m_timer_queue s)), s') \<and>
    timer_inv s' \<and>
    set (m_timer_queue s') = {e \<in> set (m_timer_queue s). t < fst e} \<union>
      (\<lambda>e. (t + m_heart_wait_time s, rearm (snd e))) ` {e \<in> set (m_timer_queue s). fst e \<le> t} \<and>
    length (m_timer_queue s') = length (m_timer_queue s)"
proof -
  define q where "q = m_timer_queue s"
  have sorted: "mm_sorted q" using assms(1) by (simp add: timer_inv_def q_def)
  have "mm_sorted (not_due t q)"
    using sorted due_append [of t q] by (metis map_append sorted_append)
  note content = rearm_all_content [OF this, of "t + m_heart_wait_time s" "due t q"]
  have len: "length (due t q) + length (not_due t q) = length q"
    using due_append [of t q] by (metis length_append)
  obtain s' where "drain_over_time t s = Some (map snd (due t q), s')" "timer_inv s'"
      "m_timer_queue s' = rearm_all (t + m_heart_wait_time s) (due t q) (not_due t q)"
    using drain_due [OF assms, of t] unfolding q_def by metis
  then show ?thesis
    unfolding q_def [symmetric] using content len by (auto simp: set_due [OF sorted])
qed


definition demo_timer :: mgx_socket where
  "demo_timer = Mgx_socket\<lparr> m_enabled_heartbeat := 1, m_heart_wait_time := 10,
     m_timer_queue := [(20, mk_msg_hdr 16 0), (200, mk_msg_hdr 32 0)], m_timer_que_size := 2,
     m_timer_que_head_time := 20 \<rparr>"

lemma demo_timer_fields:
  "timer_inv demo_timer" "m_heart_wait_time demo_timer = 10" "m_recy_conn_set demo_timer = {}"
  "m_timer_queue demo_timer = [(20, mk_msg_hdr 16 0), (200, mk_msg_hdr 32 0)]"
  "m_timer_que_head_time demo_timer = 20" "conns demo_timer = (\<lambda>_. new_conn)"
  by (simp_all add: demo_timer_def timer_inv_def Mgx_socket_def)

theorem drain_collects_due_timers_witness:
  "\<exists>s'. drain_over_time 100 demo_timer = Some ([mk_msg_hdr 16 0], s') \<and> length (m_timer_queue s') = 2"
  using drain_collects_due_timers [OF demo_timer_fields(1), of 100]
  by (auto simp: demo_timer_fields)


text \<open>
  Immediate closing leaks the heartbeat timer. \<open>close_conn\<close> does not remove the timers of
  the connection, and the monitor re-arms every timer it collects, stale or not: after any
  number of turns of the monitor the connection has as many timers in the queue as before it
  was closed, all of them belonging to the finished use.
\<close>

theorem closed_connection_timer_leaks:
  assumes "timer_inv s" and "0 < m_heart_wait_time s"
    and "\<forall>e \<in> set (timers_of c s). mh_cur_seq (snd e) = m_cur_seq (conns s c)"
  shows "\<exists>s'. monitor_rounds rs (close_conn c s) = Some s' \<and> only_stale c s' \<and>
    length (timers_of c s') = length (timers_of c s)"
proof -
  have "timer_inv (close_conn c s)" "0 < m_heart_wait_time (close_conn c s)"
    and same: "timers_of c (close_conn c s) = timers_of c s"
    using assms(1,2) by (simp_all add: timer_inv_def close_conn_timers timers_of_def)
  moreover have "only_stale c (close_conn c s)"
    using assms(3) by (simp add: only_stale_def same close_conn_timers)
  ultimately show ?thesis using monitor_rounds_stale [of "close_conn c s" c rs] by simp
qed

theorem closed_connection_timer_leaks_witness:
  "\<exists>s'. monitor_rounds [(50, \<lambda>_. 50), (70, \<lambda>_. 70)] (close_conn 16 demo_timer) = Some s' \<and>
    length (timers_of 16 s') = 1"
  using closed_connection_timer_leaks [OF demo_timer_fields(1), of 16 "[(50, \<lambda>_. 50), (70, \<lambda>_. 70)]"]
  by (auto simp: demo_timer_fields timers_of_def mk_msg_hdr_def new_conn_def)

end
