(* ===== verification/Mgx_Printf.thy ===== *)
theory Mgx_Printf
  imports Mgx_Prelude
begin

text \<open>
  \<^verbatim>\<open>src/app/mgx_printf.cpp\<close>: the bounded formatter behind every log line. The output area
  \<open>[buf, last)\<close> is a character list with a capacity; every store goes through \<open>put\<close>, which
  reports a store at \<open>last\<close> or beyond as the error \<open>Overrun_buf\<close>. Reads past the format, missing
  or null arguments and the negation of the smallest integer are errors as well.
\<close>

section \<open>Values and errors\<close>

datatype pf_err = Overrun_buf | Overrun_fmt | Bad_arg | Bad_read | Signed_overflow

text \<open>
  A variadic argument: an integer or pointer in a 64-bit slot; a pointer to characters (the
  readable memory from there on, \<open>None\<close> for null); a double, given by what the code computes
  from it: its sign, \<open>(int64_t)\<close> of its magnitude, and the rounded fraction for a scale.
\<close>

datatype va = VA_word u64 | VA_str "string option" | VA_double bool u64 "u64 \<Rightarrow> u64"

definition NUL :: char where "NUL = CHR 0x00"
definition LF :: char where "LF = CHR 0x0A"

definition MGX_INT64_LEN :: nat where
  "MGX_INT64_LEN = length ''-9223372036854775808''"

definition MGX_MAX_UINT32_VALUE :: u32 where "MGX_MAX_UINT32_VALUE = 0xffffffff"

definition put :: "nat \<Rightarrow> string \<Rightarrow> char \<Rightarrow> pf_err + string" where
  "put cap out ch = (if length out < cap then Inr (out @ [ch]) else Inl Overrun_buf)"

section \<open>\<open>mgx_sprintf_num\<close>\<close>

text \<open>
  The digit loops fill \<open>temp\<close> from its end. Decimal digits use unsigned division on 32 or 64
  bits, which is division of the represented numbers; hexadecimal digits use masks and shifts.
\<close>

definition digit_char :: "nat \<Rightarrow> char" where
  "digit_char d = char_of (d + of_char (CHR ''0''))"

function dec_loop :: "nat \<Rightarrow> string \<Rightarrow> string" where
  "dec_loop n acc =
     (let acc' = digit_char (n mod 10) # acc
      in if n div 10 = 0 then acc' else dec_loop (n div 10) acc')"
  by pat_completeness auto
termination
  by (relation "measure fst") auto

definition hex_lower :: string where "hex_lower = ''0123456789abcdef''"
definition hex_upper :: string where "hex_upper = ''0123456789ABCDEF''"

lemma drop4_less: "drop_bit 4 w \<noteq> 0 \<Longrightarrow> unat (drop_bit 4 w) < unat w" for w :: u64
proof -
  assume ne: "drop_bit 4 w \<noteq> 0"
  have eq: "unat (drop_bit 4 w) = unat w div 16"
    by (simp add: drop_bit_eq_div unat_div)
  then have "unat w \<noteq> 0" using ne by (metis div_0 unat_eq_zero)
  then show ?thesis by (simp add: eq)
qed

function hex_loop :: "string \<Rightarrow> u64 \<Rightarrow> string \<Rightarrow> string" where
  "hex_loop table w acc =
     (let acc' = table ! unat (ucast (w AND 0xf) :: u32) # acc
      in if drop_bit 4 w = 0 then acc' else hex_loop table (drop_bit 4 w) acc')"
  by pat_completeness auto
termination
  by (relation "measure (\<lambda>(table, w, acc). unat w)") (auto simp: drop4_less)

declare dec_loop.simps [simp del] hex_loop.simps [simp del]

definition num_digits :: "nat \<Rightarrow> u64 \<Rightarrow> string" where
  "num_digits hexadecimal ui64 =
     (if hexadecimal = 0 then
        if ui64 \<le> ucast MGX_MAX_UINT32_VALUE then dec_loop (unat (ucast ui64 :: u32)) []
        else dec_loop (unat ui64) []
      else if hexadecimal = 1 then hex_loop hex_lower ui64 []
      else hex_loop hex_upper ui64 [])"

text \<open>\<open>while (len++ < width && buf < last) *buf++ = zero\<close>.\<close>

function pad_loop :: "nat \<Rightarrow> char \<Rightarrow> nat \<Rightarrow> nat \<Rightarrow> string \<Rightarrow> string" where
  "pad_loop cap zero len width out =
     (if len < width \<and> length out < cap then pad_loop cap zero (Suc len) width (out @ [zero]) else out)"
  by pat_completeness auto
termination
  by (relation "measure (\<lambda>(cap, zero, len, width, out). cap - length out)") auto

declare pad_loop.simps [simp del]

definition mgx_sprintf_num ::
  "nat \<Rightarrow> string \<Rightarrow> u64 \<Rightarrow> char \<Rightarrow> nat \<Rightarrow> u64 \<Rightarrow> pf_err + string" where
  "mgx_sprintf_num cap out ui64 zero hexadecimal width =
     (let ds = num_digits hexadecimal ui64
      in if length ds > MGX_INT64_LEN then Inl Overrun_buf
         else let out1 = pad_loop cap zero (length ds) (unat width) out;
                  len = (if length out1 + length ds > cap then cap - length out1 else length ds)
              in if length out1 + len > cap then Inl Overrun_buf
                 else Inr (out1 @ take len ds))"

section \<open>Conversion specifications\<close>

record pspec =
  sp_zero :: char
  sp_width :: u64
  sp_sign :: bool
  sp_hex :: nat
  sp_frac :: u64
  sp_slen :: u64

definition is_digit :: "char \<Rightarrow> bool" where
  "is_digit c \<longleftrightarrow> of_char (CHR ''0'') \<le> (of_char c :: nat) \<and> (of_char c :: nat) \<le> of_char (CHR ''9'')"

text \<open>\<open>while (*fmt >= '0' && *fmt <= '9') width = width * 10 + (*fmt++ - '0')\<close>.\<close>

fun parse_digits :: "u64 \<Rightarrow> string \<Rightarrow> u64 \<times> string" where
  "parse_digits w [] = (w, [])"
| "parse_digits w (c # fmt) =
     (if is_digit c
      then parse_digits (w * 10 + word_of_nat (of_char c - of_char (CHR ''0''))) fmt
      else (w, c # fmt))"

text \<open>The \<open>for (;;) switch (*fmt)\<close> over the flags.\<close>

fun parse_flags :: "string \<Rightarrow> va list \<Rightarrow> pspec \<Rightarrow> pf_err + (string \<times> va list \<times> pspec)" where
  "parse_flags [] args sp = Inr ([], args, sp)"
| "parse_flags (c # fmt) args sp =
     (if c = CHR ''u'' then parse_flags fmt args (sp\<lparr> sp_sign := False \<rparr>)
      else if c = CHR ''X'' then parse_flags fmt args (sp\<lparr> sp_hex := 2, sp_sign := False \<rparr>)
      else if c = CHR ''x'' then parse_flags fmt args (sp\<lparr> sp_hex := 1, sp_sign := False \<rparr>)
      else if c = CHR ''.'' then
        (let (w, rest) = parse_digits (sp_frac sp) fmt in Inr (rest, args, sp\<lparr> sp_frac := w \<rparr>))
      else if c = CHR ''*'' then
        (case args of VA_word w # args' \<Rightarrow> parse_flags fmt args' (sp\<lparr> sp_slen := w \<rparr>)
         | _ \<Rightarrow> Inl Bad_arg)
      else Inr (c # fmt, args, sp))"

definition parse_spec :: "string \<Rightarrow> va list \<Rightarrow> pf_err + (string \<times> va list \<times> pspec)" where
  "parse_spec fmt args =
     (let zero = (case fmt of c # _ \<Rightarrow> if c = CHR ''0'' then CHR ''0'' else CHR '' '' | [] \<Rightarrow> CHR '' '');
          (w, rest) = parse_digits 0 fmt
      in parse_flags rest args
           \<lparr> sp_zero = zero, sp_width = w, sp_sign = True, sp_hex = 0, sp_frac = 0, sp_slen = -1 \<rparr>)"

section \<open>Conversions\<close>

text \<open>\<open>while (*p && buf < last) *buf++ = *p++\<close>: the character is read before the bound is tested.\<close>

fun copy_cstr :: "nat \<Rightarrow> string \<Rightarrow> string \<Rightarrow> pf_err + string" where
  "copy_cstr cap out [] = Inl Bad_read"
| "copy_cstr cap out (c # mem) =
     (if c \<noteq> NUL \<and> length out < cap then copy_cstr cap (out @ [c]) mem else Inr out)"

definition conv_str :: "nat \<Rightarrow> pspec \<Rightarrow> string option \<Rightarrow> string \<Rightarrow> pf_err + string" where
  "conv_str cap sp p out =
     (case p of
        None \<Rightarrow> Inl Bad_read
      | Some mem \<Rightarrow>
          if sp_slen sp = -1 then copy_cstr cap out mem
          else let len = min (cap - length out) (unat (sp_slen sp))
               in if len > length mem then Inl Bad_read else Inr (out @ take len mem))"

text \<open>What the integer conversions fetch: the sign flag, the value, and the adjusted spec.\<close>

definition sext32 :: "u64 \<Rightarrow> u64" where "sext32 w = scast (ucast w :: 32 word)"
definition zext32 :: "u64 \<Rightarrow> u64" where "zext32 w = ucast (ucast w :: 32 word)"

definition fetch_int :: "char \<Rightarrow> pspec \<Rightarrow> u64 \<Rightarrow> (bool \<times> u64 \<times> pspec) option" where
  "fetch_int c sp w =
     (if c = CHR ''O'' \<or> c = CHR ''T'' then Some (True, w, sp)
      else if c = CHR ''P'' then Some (True, sext32 w, sp)
      else if c = CHR ''M'' then Some (w = -1, w, sp)
      else if c = CHR ''z'' \<or> c = CHR ''l'' \<or> c = CHR ''L'' then Some (sp_sign sp, w, sp)
      else if c = CHR ''i'' \<or> c = CHR ''d'' \<or> c = CHR ''D'' then
        Some (sp_sign sp, if sp_sign sp then sext32 w else zext32 w, sp)
      else if c = CHR ''p'' then
        Some (False, w, sp\<lparr> sp_hex := 2, sp_zero := CHR ''0'', sp_width := 16 \<rparr>)
      else None)"

definition is_int_conv :: "char \<Rightarrow> bool" where
  "is_int_conv c \<longleftrightarrow> c \<in> set ''OTPMzlLidDp''"

definition conv_int :: "nat \<Rightarrow> bool \<Rightarrow> u64 \<Rightarrow> pspec \<Rightarrow> string \<Rightarrow> pf_err + string" where
  "conv_int cap sg w sp out =
     (if sg \<and> w <s 0 then
        if w = 0x8000000000000000 then Inl Signed_overflow
        else (case put cap out (CHR ''-'') of
                Inl e \<Rightarrow> Inl e
              | Inr out1 \<Rightarrow> mgx_sprintf_num cap out1 (- w) (sp_zero sp) (sp_hex sp) (sp_width sp))
      else mgx_sprintf_num cap out w (sp_zero sp) (sp_hex sp) (sp_width sp))"

text \<open>\<open>scale = 1; for (n = frac_width; n; n--) scale *= 10\<close>.\<close>

fun scale_loop :: "nat \<Rightarrow> u64 \<Rightarrow> u64" where
  "scale_loop 0 scale = scale"
| "scale_loop (Suc n) scale = scale_loop n (scale * 10)"

definition conv_double ::
  "nat \<Rightarrow> pspec \<Rightarrow> bool \<Rightarrow> u64 \<Rightarrow> (u64 \<Rightarrow> u64) \<Rightarrow> string \<Rightarrow> pf_err + string" where
  "conv_double cap sp neg ipart fr out =
     (case (if neg then put cap out (CHR ''-'') else Inr out) of
        Inl e \<Rightarrow> Inl e
      | Inr out1 \<Rightarrow>
          (let scale = scale_loop (unat (sp_frac sp)) 1;
               frac = (if sp_frac sp = 0 then 0 else fr scale);
               carry = (sp_frac sp \<noteq> 0 \<and> frac = scale)
           in case mgx_sprintf_num cap out1 (if carry then ipart + 1 else ipart) (sp_zero sp) 0 (sp_width sp) of
                Inl e \<Rightarrow> Inl e
              | Inr out2 \<Rightarrow>
                  if sp_frac sp = 0 then Inr out2
                  else mgx_sprintf_num cap (if length out2 < cap then out2 @ ''.'' else out2)
                         (if carry then 0 else frac) (CHR ''0'') 0 (sp_frac sp)))"

text \<open>The second \<open>switch (*fmt)\<close>: the conversion at the head of the format.\<close>

text \<open>The conversions that store one character: \<^verbatim>\<open>%c\<close>, \<^verbatim>\<open>%Z\<close>, \<^verbatim>\<open>%N\<close>, \<^verbatim>\<open>%%\<close> and unknown ones.\<close>

definition conv_char ::
  "nat \<Rightarrow> char \<Rightarrow> string \<Rightarrow> va list \<Rightarrow> string \<Rightarrow> pf_err + (string \<times> va list \<times> string)" where
  "conv_char cap c rest args out =
     (if c = CHR ''c'' then
        (case args of
           VA_word w # args' \<Rightarrow>
             map_sum id (\<lambda>o'. (rest, args', o')) (put cap out (char_of (unat (w AND 0xff))))
         | _ \<Rightarrow> Inl Bad_arg)
      else if c = CHR ''Z'' then map_sum id (\<lambda>o'. (rest, args, o')) (put cap out NUL)
      else if c = CHR ''N'' then map_sum id (\<lambda>o'. (rest, args, o')) (put cap out LF)
      else map_sum id (\<lambda>o'. (rest, args, o')) (put cap out c))"

definition convert ::
  "nat \<Rightarrow> string \<Rightarrow> va list \<Rightarrow> pspec \<Rightarrow> string \<Rightarrow> pf_err + (string \<times> va list \<times> string)" where
  "convert cap fmt args sp out =
     (case fmt of
        [] \<Rightarrow> Inl Overrun_fmt
      | c # rest \<Rightarrow>
          if c = CHR ''s'' then
            (case args of VA_str p # args' \<Rightarrow> map_sum id (\<lambda>o'. (rest, args', o')) (conv_str cap sp p out)
             | _ \<Rightarrow> Inl Bad_arg)
          else if is_int_conv c then
            (case args of
               VA_word w # args' \<Rightarrow>
                 (case fetch_int c sp w of
                    None \<Rightarrow> Inl Bad_arg
                  | Some (sg, v, sp') \<Rightarrow> map_sum id (\<lambda>o'. (rest, args', o')) (conv_int cap sg v sp' out))
             | _ \<Rightarrow> Inl Bad_arg)
          else if c = CHR ''f'' then
            (case args of
               VA_double neg ip fr # args' \<Rightarrow>
                 map_sum id (\<lambda>o'. (rest, args', o')) (conv_double cap sp neg ip fr out)
             | _ \<Rightarrow> Inl Bad_arg)
          else conv_char cap c rest args out)"

section \<open>The formatter\<close>

lemma parse_digits_length: "length (snd (parse_digits w fmt)) \<le> length fmt"
  by (induction w fmt rule: parse_digits.induct) auto

lemma parse_flags_length:
  "parse_flags fmt args sp = Inr (fmt', args', sp') \<Longrightarrow> length fmt' \<le> length fmt"
proof (induction fmt args sp rule: parse_flags.induct)
  case (1 args sp)
  then show ?case by simp
next
  case (2 c fmt args sp)
  then show ?case
    using parse_digits_length [of "sp_frac sp" fmt]
    by (auto split: if_splits list.splits va.splits prod.splits)
qed

lemma parse_spec_length:
  "parse_spec fmt args = Inr (fmt', args', sp) \<Longrightarrow> length fmt' \<le> length fmt"
  using parse_digits_length [of 0 fmt]
  by (auto simp: parse_spec_def Let_def split: prod.splits dest!: parse_flags_length)

lemma convert_length:
  assumes "convert cap fmt args sp out = Inr (fmt', args', out')"
  shows "length fmt = Suc (length fmt')"
proof -
  have ms: "map_sum id (\<lambda>o'. (rest, a, o')) x = Inr (fmt', args', out') \<Longrightarrow> rest = fmt'"
    for rest a and x :: "pf_err + string"
    by (cases x) auto
  show ?thesis
    using assms by (auto simp: convert_def conv_char_def dest!: ms split: list.splits if_splits va.splits option.splits)
qed

function mgx_vslprintf :: "nat \<Rightarrow> string \<Rightarrow> va list \<Rightarrow> string \<Rightarrow> pf_err + string" where
  "mgx_vslprintf cap [] args out = Inr out"
| "mgx_vslprintf cap (c # fmt) args out =
     (if \<not> length out < cap then Inr out
      else if c \<noteq> CHR ''%'' then
        (case put cap out c of Inl e \<Rightarrow> Inl e | Inr out' \<Rightarrow> mgx_vslprintf cap fmt args out')
      else
        (case parse_spec fmt args of
           Inl e \<Rightarrow> Inl e
         | Inr (fmt1, args1, sp) \<Rightarrow>
             (case convert cap fmt1 args1 sp out of
                Inl e \<Rightarrow> Inl e
              | Inr (fmt2, args2, out2) \<Rightarrow> mgx_vslprintf cap fmt2 args2 out2)))"
  by pat_completeness auto
termination
  by (relation "measure (\<lambda>(cap, fmt, args, out). length fmt)")
    (auto dest!: parse_spec_length convert_length)

definition mgx_slprintf :: "string \<Rightarrow> nat \<Rightarrow> string \<Rightarrow> va list \<Rightarrow> pf_err + string" where
  "mgx_slprintf out cap fmt args = mgx_vslprintf cap fmt args out"

section \<open>Positional notation\<close>

text \<open>The reference: the digits of a number in a base, most significant first.\<close>

function base_digits :: "nat \<Rightarrow> nat \<Rightarrow> nat list" where
  "base_digits b n = (if n < b \<or> b \<le> 1 then [n] else base_digits b (n div b) @ [n mod b])"
  by pat_completeness auto
termination
  by (relation "measure snd") auto

declare base_digits.simps [simp del]

lemma base_digits_value:
  "1 < b \<Longrightarrow> foldl (\<lambda>a d. a * b + d) 0 (base_digits b n) = n"
  by (induction b n rule: base_digits.induct) (subst base_digits.simps, auto)

lemma base_digits_less: "1 < b \<Longrightarrow> d \<in> set (base_digits b n) \<Longrightarrow> d < b"
  by (induction b n rule: base_digits.induct) (subst (asm) (2) base_digits.simps, auto split: if_splits)

lemma base_digits_hd: "1 < b \<Longrightarrow> n \<noteq> 0 \<Longrightarrow> base_digits b n \<noteq> [] \<and> hd (base_digits b n) \<noteq> 0"
proof (induction b n rule: base_digits.induct)
  case (1 b n)
  then show ?case
    by (subst (1 2) base_digits.simps) (auto simp: div_eq_0_iff)
qed

lemma base_digits_length: "1 < b \<Longrightarrow> n < b ^ Suc k \<Longrightarrow> length (base_digits b n) \<le> Suc k"
proof (induction k arbitrary: n)
  case 0
  then show ?case by (subst base_digits.simps) simp
next
  case (Suc k)
  show ?case
  proof (cases "n < b")
    case True
    with Suc.prems show ?thesis by (subst base_digits.simps) simp
  next
    case False
    have "n div b < b ^ Suc k"
      using Suc.prems by (simp add: less_mult_imp_div_less mult.commute)
    with Suc False show ?thesis by (subst base_digits.simps) simp
  qed
qed

lemma base_digits_Cons_pos: "0 < length (base_digits b n)"
  by (subst base_digits.simps) simp

lemma dec_loop_digits: "dec_loop n acc = map digit_char (base_digits 10 n) @ acc"
proof (induction n acc rule: dec_loop.induct)
  case (1 n acc)
  show ?case
  proof (cases "n div 10 = 0")
    case True
    then have "n < 10" by (simp add: div_eq_0_iff)
    with True show ?thesis
      by (subst dec_loop.simps, subst base_digits.simps) simp
  next
    case False
    then have "\<not> n < 10" by (simp add: div_eq_0_iff)
    with 1 [OF refl False] False show ?thesis
      by (subst dec_loop.simps, subst base_digits.simps) (simp add: Let_def)
  qed
qed

lemma unat_and_15: "unat (ucast (w AND 0xf) :: u32) = unat w mod 16" for w :: u64
proof -
  have "mask 4 = (0xf :: u64)" by (simp add: mask_eq_exp_minus_1)
  then have "w AND 0xf = take_bit 4 w" by (simp add: take_bit_eq_mask)
  then have "unat (ucast (w AND 0xf) :: u32) = take_bit 32 (take_bit 4 (unat w))"
    by (simp add: unsigned_ucast_eq unsigned_take_bit_eq)
  also have "\<dots> = unat w mod 16" by (simp add: take_bit_eq_mod)
  finally show ?thesis .
qed

lemma unat_drop_4: "unat (drop_bit 4 w) = unat w div 16" for w :: u64
  by (simp add: drop_bit_eq_div unat_div)

lemma hex_loop_digits: "hex_loop table w acc = map ((!) table) (base_digits 16 (unat w)) @ acc"
proof (induction table w acc rule: hex_loop.induct)
  case (1 table w acc)
  have zero: "drop_bit 4 w = 0 \<longleftrightarrow> unat w < 16"
    using unat_drop_4 [of w] by (metis div_eq_0_iff unat_eq_zero zero_neq_numeral)
  show ?case
  proof (cases "drop_bit 4 w = 0")
    case True
    with zero show ?thesis
      by (subst hex_loop.simps, subst base_digits.simps) (simp add: Let_def unat_and_15)
  next
    case False
    with zero 1 [OF refl False] show ?thesis
      by (subst hex_loop.simps, subst base_digits.simps) (simp add: Let_def unat_and_15 unat_drop_4)
  qed
qed

definition num_base :: "nat \<Rightarrow> nat" where
  "num_base hexadecimal = (if hexadecimal = 0 then 10 else 16)"

definition num_char :: "nat \<Rightarrow> nat \<Rightarrow> char" where
  "num_char hexadecimal d =
     (if hexadecimal = 0 then digit_char d else if hexadecimal = 1 then hex_lower ! d else hex_upper ! d)"

lemma num_base_gt_1: "1 < num_base hx"
  by (simp add: num_base_def)

text \<open>The 32-bit shortcut, and the table lookups, produce the digits of the number.\<close>

lemma num_digits_eq: "num_digits hx w = map (num_char hx) (base_digits (num_base hx) (unat w))"
proof -
  have "unat (ucast w :: u32) = unat w" if "w \<le> ucast MGX_MAX_UINT32_VALUE"
  proof -
    have "unat w \<le> unat (0xffffffff :: u64)"
      using that by (simp add: MGX_MAX_UINT32_VALUE_def word_le_nat_alt)
    then have "unat w < 2 ^ 32" by simp
    then show ?thesis by (simp add: unsigned_ucast_eq take_bit_nat_eq_self)
  qed
  then show ?thesis
    by (auto simp: num_digits_def num_base_def num_char_def dec_loop_digits hex_loop_digits cong: map_cong)
qed

lemma num_digits_length: "length (num_digits hx w) \<le> MGX_INT64_LEN"
proof -
  have u: "unat w < 2 ^ 64" using unsigned_less [of w, where ?'a = nat] by simp
  have "length (base_digits 10 (unat w)) \<le> Suc 19"
    by (rule base_digits_length) (use u in simp_all)
  moreover have "length (base_digits 16 (unat w)) \<le> Suc 15"
    by (rule base_digits_length) (use u in simp_all)
  ultimately show ?thesis
    by (simp add: num_digits_eq num_base_def MGX_INT64_LEN_def)
qed

lemma pad_loop_eq:
  "pad_loop cap zero len width out = out @ replicate (min (width - len) (cap - length out)) zero"
proof (induction cap zero len width out rule: pad_loop.induct)
  case (1 cap zero len width out)
  show ?case
  proof (cases "len < width \<and> length out < cap")
    case True
    then have "min (width - len) (cap - length out) = Suc (min (width - Suc len) (cap - Suc (length out)))"
      by auto
    with 1 [OF True] True show ?thesis
      by (subst pad_loop.simps) (simp add: min_def)
  next
    case False
    then show ?thesis by (subst pad_loop.simps) auto
  qed
qed

section \<open>Bounds\<close>

text \<open>A step keeps the text written so far, stays below \<open>last\<close>, and never stores out of bounds.\<close>

definition pf_safe :: "nat \<Rightarrow> string \<Rightarrow> pf_err + string \<Rightarrow> bool" where
  "pf_safe cap out r \<longleftrightarrow>
     (case r of Inl e \<Rightarrow> e \<noteq> Overrun_buf | Inr out' \<Rightarrow> length out' \<le> cap \<and> (\<exists>t. out' = out @ t))"

lemma pf_safe_Inr [simp]: "pf_safe cap out (Inr out') \<longleftrightarrow> length out' \<le> cap \<and> (\<exists>t. out' = out @ t)"
  and pf_safe_Inl [simp]: "pf_safe cap out (Inl e) \<longleftrightarrow> e \<noteq> Overrun_buf"
  by (simp_all add: pf_safe_def)

lemma pf_safe_trans: "pf_safe cap (out @ t) r \<Longrightarrow> pf_safe cap out r"
  by (auto simp: pf_safe_def split: sum.splits)

lemma pf_safe_put: "length out < cap \<Longrightarrow> pf_safe cap out (put cap out ch)"
  by (simp add: put_def)

lemma pf_safe_num: "length out \<le> cap \<Longrightarrow> pf_safe cap out (mgx_sprintf_num cap out w zero hx width)"
  using num_digits_length [of hx w]
  by (auto simp: mgx_sprintf_num_def Let_def pad_loop_eq not_less min_def)

lemma pf_safe_num_snoc: "length out < cap \<Longrightarrow> pf_safe cap out (mgx_sprintf_num cap (out @ [c]) w zero hx width)"
  by (rule pf_safe_trans [of cap out "[c]"], rule pf_safe_num) simp

lemma pf_safe_copy: "length out \<le> cap \<Longrightarrow> pf_safe cap out (copy_cstr cap out mem)"
  by (induction cap out mem rule: copy_cstr.induct) (auto intro: pf_safe_trans)

lemma pf_safe_str: "length out \<le> cap \<Longrightarrow> pf_safe cap out (conv_str cap sp p out)"
  by (auto simp: conv_str_def Let_def pf_safe_copy split: option.split)

lemma pf_safe_int: "length out < cap \<Longrightarrow> pf_safe cap out (conv_int cap sg w sp out)"
  by (simp add: conv_int_def put_def pf_safe_num pf_safe_num_snoc)

lemma pf_safe_bind:
  assumes "pf_safe cap out r" and "\<And>t. r = Inr (out @ t) \<Longrightarrow> length (out @ t) \<le> cap \<Longrightarrow> pf_safe cap (out @ t) (f (out @ t))"
  shows "pf_safe cap out (case r of Inl e \<Rightarrow> Inl e | Inr out' \<Rightarrow> f out')"
  using assms by (cases r) (auto intro: pf_safe_trans)

lemma pf_safe_double:
  assumes "length out < cap"
  shows "pf_safe cap out (conv_double cap sp neg ip fr out)"
proof -
  have tail: "pf_safe cap o2 (if sp_frac sp = 0 then Inr o2
      else mgx_sprintf_num cap (if length o2 < cap then o2 @ ''.'' else o2) v (CHR ''0'') 0 (sp_frac sp))"
    if "length o2 \<le> cap" for o2 v
    using that by (simp add: pf_safe_num pf_safe_num_snoc)
  show ?thesis
    unfolding conv_double_def Let_def
    by (rule pf_safe_bind) (use assms in \<open>auto simp: put_def intro!: pf_safe_bind pf_safe_num tail\<close>)
qed

lemma pf_safe_convert:
  assumes "length out < cap" and "convert cap fmt args sp out = r"
  shows "pf_safe cap out (map_sum id (snd \<circ> snd) r)"
proof -
  have ms: "map_sum id (snd \<circ> snd) (map_sum id (\<lambda>o'. (rest, a, o')) x) = x"
    for rest :: string and a :: "va list" and x :: "pf_err + string"
    by (cases x) auto
  note pieces = pf_safe_str pf_safe_int pf_safe_double pf_safe_put
  show ?thesis
    using assms(1) unfolding assms(2) [symmetric] convert_def conv_char_def
    by (auto simp: ms pieces less_imp_le split: list.split va.split option.split)
qed

lemma parse_spec_no_overrun: "parse_spec fmt args \<noteq> Inl Overrun_buf"
proof -
  have "parse_flags f a sp \<noteq> Inl Overrun_buf" for f a sp
    by (induction f a sp rule: parse_flags.induct) (auto split: list.split va.split prod.splits)
  then show ?thesis by (auto simp: parse_spec_def Let_def split: prod.splits)
qed

lemma mgx_vslprintf_safe: "length out \<le> cap \<Longrightarrow> pf_safe cap out (mgx_vslprintf cap fmt args out)"
proof (induction cap fmt args out rule: mgx_vslprintf.induct)
  case (1 cap args out)
  then show ?case by simp
next
  case (2 cap c fmt args out)
  show ?case
  proof (cases "length out < cap")
    case False
    with 2 show ?thesis by simp
  next
    case room: True
    show ?thesis
    proof (cases "c = CHR ''%''")
      case False
      with room 2(1) [of "out @ [c]"] show ?thesis
        by (simp add: put_def) (auto intro: pf_safe_trans)
    next
      case pct: True
      show ?thesis
      proof (cases "parse_spec fmt args")
        case (Inl e)
        with room pct parse_spec_no_overrun [of fmt args] show ?thesis by simp
      next
        case (Inr x)
        then obtain f1 a1 sp where ps: "parse_spec fmt args = Inr (f1, a1, sp)" by (cases x) auto
        have cs: "pf_safe cap out (map_sum id (snd \<circ> snd) (convert cap f1 a1 sp out))"
          by (rule pf_safe_convert [OF room refl])
        show ?thesis
        proof (cases "convert cap f1 a1 sp out")
          case (Inl e)
          with cs room pct ps show ?thesis by simp
        next
          case (Inr y)
          then obtain f2 a2 o2 where y: "convert cap f1 a1 sp out = Inr (f2, a2, o2)" by (cases y) auto
          with cs obtain t where o2: "length o2 \<le> cap" "o2 = out @ t" by auto
          have "pf_safe cap o2 (mgx_vslprintf cap f2 a2 o2)"
            using 2(2) [of "(f1, a1, sp)" f1 "(a1, sp)" a1 sp "(f2, a2, o2)" f2 "(a2, o2)" a2 o2] room pct ps y o2(1)
            by simp
          then have "pf_safe cap out (mgx_vslprintf cap f2 a2 o2)"
            unfolding o2(2) by (rule pf_safe_trans)
          with room pct ps y show ?thesis by simp
        qed
      qed
    qed
  qed
qed

section \<open>Plain text\<close>

lemma mgx_vslprintf_plain:
  assumes "CHR ''%'' \<notin> set xs" and "length out + length xs \<le> cap"
  shows "mgx_vslprintf cap (xs @ fmt) args out = mgx_vslprintf cap fmt args (out @ xs)"
  using assms by (induction xs arbitrary: out) (auto simp: put_def)

lemma mgx_vslprintf_text:
  "CHR ''%'' \<notin> set xs \<Longrightarrow> length out + length xs \<le> cap \<Longrightarrow>
   mgx_vslprintf cap xs args out = Inr (out @ xs)"
  using mgx_vslprintf_plain [of xs out cap "[]"] by simp

lemma copy_cstr_fits:
  "NUL \<notin> set xs \<Longrightarrow> length out + length xs \<le> cap \<Longrightarrow>
   copy_cstr cap out (xs @ NUL # mem) = Inr (out @ xs)"
  by (induction xs arbitrary: out) auto

lemma mgx_vslprintf_s:
  assumes "NUL \<notin> set xs" and "length out + length xs \<le> cap" and "length out < cap"
  shows "mgx_vslprintf cap (CHR ''%'' # CHR ''s'' # fmt) (VA_str (Some (xs @ NUL # mem)) # args) out =
    mgx_vslprintf cap fmt args (out @ xs)"
  using assms copy_cstr_fits [OF assms(1,2)]
  by (simp add: parse_spec_def is_digit_def convert_def conv_char_def conv_str_def)

text \<open>Small non-negative arguments of \<open>%d\<close>, such as process ids and descriptors.\<close>

lemma high_bits_zero: "unat w < 2 ^ 31 \<Longrightarrow> \<not> bit w n" if "31 \<le> n" for w :: u64
proof -
  assume "unat w < 2 ^ 31"
  then have "take_bit 31 (unat w) = unat w" by (simp add: take_bit_nat_eq_self)
  then have "unat (take_bit 31 w) = unat w" by (simp add: unsigned_take_bit_eq)
  then have "take_bit 31 w = w" by (simp only: word_unat_eq_iff)
  moreover have "\<not> bit (take_bit 31 w) n" using that by (simp add: bit_take_bit_iff)
  ultimately show ?thesis by simp
qed

lemma sext32_small:
  assumes "unat w < 2 ^ 31"
  shows "sext32 w = w"
proof (rule bit_word_eqI)
  fix n assume "n < LENGTH(64)"
  then show "bit (sext32 w) n = bit w n"
    using high_bits_zero [OF _ assms, of n] high_bits_zero [OF _ assms, of 31]
    by (cases "n < 31") (auto simp: sext32_def bit_simps min_def)
qed

lemma small_not_neg: "unat w < 2 ^ 31 \<Longrightarrow> \<not> w <s 0" for w :: u64
  using high_bits_zero [of 63 w] by (simp add: word_sless_alt bit_last_iff [symmetric])

definition dec_str :: "u64 \<Rightarrow> string" where
  "dec_str w = map digit_char (base_digits 10 (unat w))"

lemma dec_str_length: "length (dec_str w) \<le> MGX_INT64_LEN"
  using num_digits_length [of 0 w] by (simp add: num_digits_eq dec_str_def num_base_def)

lemma mgx_vslprintf_d:
  assumes "unat w < 2 ^ 31" and "length out + MGX_INT64_LEN \<le> cap"
  shows "mgx_vslprintf cap (CHR ''%'' # CHR ''d'' # fmt) (VA_word w # args) out =
    mgx_vslprintf cap fmt args (out @ dec_str w)"
proof -
  have "mgx_sprintf_num cap out w zero 0 0 = Inr (out @ dec_str w)" for zero
  proof -
    have "num_digits 0 w = dec_str w"
      by (simp add: num_digits_eq dec_str_def num_base_def num_char_def cong: map_cong)
    then show ?thesis
      using dec_str_length [of w] assms(2) by (simp add: mgx_sprintf_num_def Let_def pad_loop_eq)
  qed
  moreover have "length out < cap" using assms(2) by (simp add: MGX_INT64_LEN_def)
  ultimately show ?thesis
    by (simp add: parse_spec_def is_digit_def convert_def conv_char_def is_int_conv_def fetch_int_def conv_int_def
        sext32_small [OF assms(1)] small_not_neg [OF assms(1)])
qed

section \<open>Properties\<close>

text \<open>
  C27: memory safety of the formatter. For every format, every argument list and every output
  area, no character is stored at or beyond \<open>last\<close> (nor outside the local digit buffer); when
  the call returns, what was written before is kept and the text fits into the area.
\<close>

theorem formatter_stays_in_bounds:
  assumes "length out \<le> cap"
  shows "case mgx_vslprintf cap fmt args out of
      Inl e \<Rightarrow> e \<noteq> Overrun_buf
    | Inr out' \<Rightarrow> length out' \<le> cap \<and> (\<exists>t. out' = out @ t)"
  using mgx_vslprintf_safe [OF assms, of fmt args] by (simp add: pf_safe_def)

theorem formatter_stays_in_bounds_witness:
  "case mgx_vslprintf 3 ''%s%d'' [VA_str (Some (''abc'' @ [NUL])), VA_word 5] [] of
      Inl e \<Rightarrow> e \<noteq> Overrun_buf | Inr out' \<Rightarrow> length out' \<le> 3 \<and> (\<exists>t. out' = [] @ t)"
  by (rule formatter_stays_in_bounds) simp

text \<open>
  C28: numbers are printed correctly. With enough room the routine appends the padding and
  then the digits of the 64-bit value in base 10 or 16: there is at least one digit, the digits
  are below the base, their positional value is the number, and there is no leading zero, so the
  number 0 is the single digit 0. The 32-bit shortcut and the mask and shift loops make no difference.
\<close>

theorem sprintf_num_exact:
  assumes "length out + max (unat width) MGX_INT64_LEN \<le> cap"
  shows "\<exists>ds. mgx_sprintf_num cap out w zero hx width =
      Inr (out @ replicate (unat width - length ds) zero @ map (num_char hx) ds) \<and>
    foldl (\<lambda>a d. a * num_base hx + d) 0 ds = unat w \<and>
    (\<forall>d \<in> set ds. d < num_base hx) \<and> ds \<noteq> [] \<and> (unat w \<noteq> 0 \<longrightarrow> hd ds \<noteq> 0) \<and> (unat w = 0 \<longrightarrow> ds = [0])"
proof (intro exI conjI)
  let ?ds = "base_digits (num_base hx) (unat w)"
  have len: "length ?ds \<le> MGX_INT64_LEN"
    using num_digits_length [of hx w] by (simp add: num_digits_eq)
  then show "mgx_sprintf_num cap out w zero hx width =
      Inr (out @ replicate (unat width - length ?ds) zero @ map (num_char hx) ?ds)"
    using assms by (auto simp: mgx_sprintf_num_def Let_def num_digits_eq pad_loop_eq max_def split: if_splits)
  show "foldl (\<lambda>a d. a * num_base hx + d) 0 ?ds = unat w"
    by (rule base_digits_value [OF num_base_gt_1])
  show "\<forall>d \<in> set ?ds. d < num_base hx"
    using base_digits_less [OF num_base_gt_1] by simp
  show "unat w \<noteq> 0 \<longrightarrow> hd ?ds \<noteq> 0"
    using base_digits_hd [OF num_base_gt_1, of "unat w" hx] by simp
  show "?ds \<noteq> []" "unat w = 0 \<longrightarrow> ?ds = [0]"
    using num_base_gt_1 [of hx]
    by (simp add: base_digits.simps [of "num_base hx" "unat w"],
      simp add: base_digits.simps [of "num_base hx" 0])
qed

theorem sprintf_num_exact_witness:
  "mgx_sprintf_num 64 ''x='' 0 (CHR ''0'') 0 0 = Inr ''x=0''"
proof -
  have "num_char 0 0 = CHR ''0''"
    by (simp only: num_char_def digit_char_def add_0 char_of_char simp_thms if_True)
  then show ?thesis
    using sprintf_num_exact [of "''x=''" 0 64 0 "CHR ''0''" 0] by (auto simp: MGX_INT64_LEN_def)
qed

end
