(* ===== verification/Mgx_Conf.thy ===== *)
theory Mgx_Conf
  imports Mgx_Printf
begin

text \<open>
  \<^verbatim>\<open>src/app/mgx_conf.cpp\<close> and \<open>strim\<close> of \<^verbatim>\<open>src/include/mgx_string.h\<close>: the configuration file and
  the typed access to its entries. The file is a character list, \<open>None\<close> if it cannot be opened;
  the exceptions of \<open>std::stoi\<close> are error values.
\<close>

section \<open>Operations\<close>

abbreviation space :: char where "space \<equiv> CHR '' ''"

text \<open>Erase up to the first, and from behind the last, character that is not a space.\<close>

definition strim :: "string \<Rightarrow> string" where
  "strim s = rev (dropWhile (\<lambda>c. c = space) (rev (dropWhile (\<lambda>c. c = space) s)))"

type_synonym configs = "string \<rightharpoonup> string"

text \<open>
  The body of the loop of \<open>load\<close> for one line. Without an equals sign \<open>find_first_of\<close> gives
  \<open>npos\<close>, which becomes the index \<open>-1\<close>: the key is the whole line and the value is empty.
\<close>

definition conf_line :: "string \<Rightarrow> configs \<Rightarrow> configs" where
  "conf_line line0 configs =
     (if line0 = [] then configs
      else
        let line = strim line0
        in if line \<noteq> [] \<and> (hd line = CHR ''#'' \<or> hd line = CHR ''['' \<or> hd line = CHR ''/'')
           then configs
           else
             let key = takeWhile (\<lambda>c. c \<noteq> CHR ''='') line;
                 val = (if CHR ''='' \<in> set line then drop (Suc (length key)) line else [])
             in configs(strim key \<mapsto> strim val))"

text \<open>\<open>while (std::getline(is, line))\<close>: a line ends at a newline or at the end of the file.\<close>

function getlines :: "string \<Rightarrow> string list" where
  "getlines s =
     (if s = [] then []
      else takeWhile (\<lambda>c. c \<noteq> LF) s # getlines (drop 1 (dropWhile (\<lambda>c. c \<noteq> LF) s)))"
  by pat_completeness auto
termination
proof (relation "measure length")
  fix s :: string
  assume "s \<noteq> []"
  moreover have "length (dropWhile (\<lambda>c. c \<noteq> LF) s) \<le> length s" by (rule length_dropWhile_le)
  ultimately show "(drop 1 (dropWhile (\<lambda>c. c \<noteq> LF) s), s) \<in> measure length"
    unfolding in_measure length_drop by (cases s) simp_all
qed simp

declare getlines.simps [simp del]

text \<open>The one object of the class, without settings until \<open>load\<close> is called.\<close>

definition conf_get_instance :: "configs option \<Rightarrow> configs" where
  "conf_get_instance inst = (case inst of None \<Rightarrow> Map.empty | Some c \<Rightarrow> c)"

interpretation conf_instance: lazy_instance conf_get_instance Map.empty
  by unfold_locales (simp_all add: conf_get_instance_def)

definition load :: "string option \<Rightarrow> configs \<Rightarrow> bool \<times> configs" where
  "load file configs =
     (case file of
        None \<Rightarrow> (False, configs)
      | Some s \<Rightarrow> (True, foldl (\<lambda>c l. conf_line l c) configs (getlines s)))"

definition get_string :: "string \<Rightarrow> string \<Rightarrow> configs \<Rightarrow> string" where
  "get_string key default_str configs = (case configs key of Some v \<Rightarrow> v | None \<Rightarrow> default_str)"

datatype stoi_err = Invalid_argument | Out_of_range

definition is_space :: "char \<Rightarrow> bool" where
  "is_space c \<longleftrightarrow> c = space \<or> (9 \<le> (of_char c :: nat) \<and> (of_char c :: nat) \<le> 13)"

definition digit_val :: "char \<Rightarrow> nat" where
  "digit_val c = of_char c - of_char (CHR ''0'')"

text \<open>\<open>std::stoi\<close> in base 10: blanks, a sign, as many digits as there are, the range of \<open>int\<close>.\<close>

definition stoi :: "string \<Rightarrow> stoi_err + int" where
  "stoi s =
     (let s1 = dropWhile is_space s;
          neg = (s1 \<noteq> [] \<and> hd s1 = CHR ''-'');
          s2 = (if s1 \<noteq> [] \<and> (hd s1 = CHR ''-'' \<or> hd s1 = CHR ''+'') then tl s1 else s1);
          ds = takeWhile is_digit s2;
          v = int (foldl (\<lambda>a c. a * 10 + digit_val c) 0 ds);
          i = (if neg then - v else v)
      in if ds = [] then Inl Invalid_argument
         else if i < - (2 ^ 31) \<or> i \<ge> 2 ^ 31 then Inl Out_of_range
         else Inr i)"

definition get_int :: "string \<Rightarrow> int \<Rightarrow> configs \<Rightarrow> stoi_err + int" where
  "get_int key default_int configs =
     (let val = get_string key [] configs in if val = [] then Inr default_int else stoi val)"

section \<open>Trimming and lines\<close>

lemma dropWhile_spaces: "dropWhile (\<lambda>c. c = space) (replicate n space @ s) = dropWhile (\<lambda>c. c = space) s"
  by (induction n) auto

lemma strim_pad:
  assumes "s \<noteq> [] \<Longrightarrow> hd s \<noteq> space \<and> last s \<noteq> space"
  shows "strim (replicate m space @ s @ replicate n space) = s"
proof (cases "s = []")
  case True
  have "dropWhile (\<lambda>c. c = space) (replicate m space @ [] @ replicate n space) = []"
    by (auto simp: dropWhile_eq_Nil_conv)
  then show ?thesis unfolding True strim_def by (simp only: rev.simps dropWhile.simps)
next
  case False
  with assms obtain x xs where s: "s = x # xs" "x \<noteq> space" by (cases s) auto
  obtain y ys where r: "rev s = y # ys" using False by (cases "rev s") simp_all
  then have y: "y \<noteq> space" using assms False by (metis hd_rev list.sel(1))
  have "dropWhile (\<lambda>c. c = space) (replicate m space @ s @ replicate n space) = s @ replicate n space"
    by (simp add: dropWhile_spaces s)
  moreover have "dropWhile (\<lambda>c. c = space) (replicate n space @ rev s) = rev s"
    by (simp add: dropWhile_spaces r y)
  ultimately show ?thesis by (simp add: strim_def)
qed

lemma getlines_unlines: "\<forall>l \<in> set ls. LF \<notin> set l \<Longrightarrow> getlines (concat (map (\<lambda>l. l @ [LF]) ls)) = ls"
proof (induction ls)
  case Nil
  then show ?case by (simp add: getlines.simps)
next
  case (Cons l ls)
  let ?r = "concat (map (\<lambda>l. l @ [LF]) ls)"
  have "takeWhile (\<lambda>c. c \<noteq> LF) (l @ LF # ?r) = l" "dropWhile (\<lambda>c. c \<noteq> LF) (l @ LF # ?r) = LF # ?r"
    using Cons.prems by (auto simp: takeWhile_append dropWhile_append)
  with Cons show ?case
    by (subst getlines.simps) simp
qed

section \<open>Well-formed settings\<close>

text \<open>A setting as it may be written: the key and the value with spaces around each of them.\<close>

record setting =
  st_key :: string
  st_val :: string
  st_pad :: "nat \<times> nat \<times> nat \<times> nat"

definition trimmed :: "string \<Rightarrow> bool" where
  "trimmed s \<longleftrightarrow> (s \<noteq> [] \<longrightarrow> hd s \<noteq> space \<and> last s \<noteq> space)"

definition setting_ok :: "setting \<Rightarrow> bool" where
  "setting_ok x \<longleftrightarrow>
     st_key x \<noteq> [] \<and> trimmed (st_key x) \<and> trimmed (st_val x) \<and>
     hd (st_key x) \<notin> {CHR ''#'', CHR ''['', CHR ''/''} \<and> CHR ''='' \<notin> set (st_key x) \<and>
     LF \<notin> set (st_key x) \<and> LF \<notin> set (st_val x)"

definition setting_line :: "setting \<Rightarrow> string" where
  "setting_line x =
     (case st_pad x of (a, b, c, d) \<Rightarrow>
        replicate a space @ st_key x @ replicate b space @ ''='' @
        replicate c space @ st_val x @ replicate d space)"

lemma conf_line_setting:
  assumes "setting_ok x"
  shows "conf_line (setting_line x) configs = configs(st_key x \<mapsto> st_val x)"
proof -
  obtain a b c d where pad: "st_pad x = (a, b, c, d)" by (cases "st_pad x")
  let ?k = "st_key x" and ?v = "st_val x"
  have ok: "?k \<noteq> []" "trimmed ?k" "trimmed ?v" "CHR ''='' \<notin> set ?k"
      "hd ?k \<notin> {CHR ''#'', CHR ''['', CHR ''/''}" "hd ?k \<noteq> space"
    using assms by (simp_all add: setting_ok_def trimmed_def)
  define core where "core = ?k @ replicate b space @ ''='' @ (if ?v = [] then [] else replicate c space @ ?v)"
  define n where "n = (if ?v = [] then c + d else d)"
  have line: "setting_line x = replicate a space @ core @ replicate n space"
    by (simp add: setting_line_def pad core_def n_def replicate_add)
  have "last core \<noteq> space"
    using ok(3) by (auto simp: core_def trimmed_def)
  then have st: "strim (setting_line x) = core"
    unfolding line using ok(1,6) by (intro strim_pad) (simp add: core_def)
  have key: "takeWhile (\<lambda>c. c \<noteq> CHR ''='') core = ?k @ replicate b space"
    using ok(4) by (auto simp: core_def takeWhile_append)
  have sk: "strim (?k @ replicate b space) = ?k"
    using strim_pad [of ?k 0 b] ok(2) by (simp add: trimmed_def)
  have sv: "strim (drop (Suc (length (?k @ replicate b space))) core) = ?v"
    using strim_pad [of ?v c 0] strim_pad [of "[]" 0 0] ok(3) by (auto simp: core_def trimmed_def)
  have "hd core = hd ?k" "core \<noteq> []" "CHR ''='' \<in> set core"
    using ok(1) by (simp_all add: core_def)
  moreover have "setting_line x \<noteq> []" by (simp add: line core_def)
  ultimately show ?thesis
    using ok(5) by (simp add: conf_line_def Let_def st key sk sv del: length_append)
qed

lemma load_settings:
  assumes "\<forall>x \<in> set xs. setting_ok x"
  shows "load (Some (concat (map (\<lambda>x. setting_line x @ [LF]) xs))) configs =
    (True, configs ++ map_of (rev (map (\<lambda>x. (st_key x, st_val x)) xs)))"
proof -
  have nl: "\<forall>l \<in> set (map setting_line xs). LF \<notin> set l"
    using assms by (auto simp: setting_ok_def setting_line_def LF_def split: prod.splits)
  have "getlines (concat (map (\<lambda>x. setting_line x @ [LF]) xs)) = map setting_line xs"
    using getlines_unlines [OF nl] by (simp add: comp_def)
  moreover have "foldl (\<lambda>c l. conf_line l c) configs (map setting_line xs) =
      configs ++ map_of (rev (map (\<lambda>x. (st_key x, st_val x)) xs))"
    using assms
  proof (induction xs arbitrary: configs)
    case Nil
    then show ?case by simp
  next
    case (Cons x xs)
    then show ?case by (simp add: conf_line_setting map_add_def fun_eq_iff split: option.split)
  qed
  ultimately show ?thesis by (simp add: load_def)
qed

text \<open>The decimal text of an integer, and reading it back.\<close>

definition int_str :: "int \<Rightarrow> string" where
  "int_str i = (if i < 0 then ''-'' else []) @ map digit_char (base_digits 10 (nat \<bar>i\<bar>))"

lemma digit_char_props:
  assumes "d < 10"
  shows "is_digit (digit_char d)" and "digit_val (digit_char d) = d" and "\<not> is_space (digit_char d)"
    and "digit_char d \<noteq> CHR ''-''" and "digit_char d \<noteq> CHR ''+''" and "digit_char d \<noteq> space"
    and "digit_char d \<noteq> LF"
proof -
  have o: "(of_char (digit_char d) :: nat) = d + 48"
    using assms by (simp add: digit_char_def)
  then show "is_digit (digit_char d)" "digit_val (digit_char d) = d"
    using assms by (simp_all add: is_digit_def digit_val_def)
  have "digit_char d \<noteq> c" if "(of_char c :: nat) < 48" for c
    using o that by auto
  from this [of "CHR ''-''"] this [of "CHR ''+''"] this [of space] this [of LF]
  show "digit_char d \<noteq> CHR ''-''" "digit_char d \<noteq> CHR ''+''" "digit_char d \<noteq> space" "digit_char d \<noteq> LF"
    by (simp_all add: LF_def)
  then show "\<not> is_space (digit_char d)" using o by (simp add: is_space_def)
qed

lemma foldl_digit_chars:
  "\<forall>d \<in> set ds. d < 10 \<Longrightarrow> foldl (\<lambda>a c. a * 10 + digit_val c) a (map digit_char ds) = foldl (\<lambda>a d. a * 10 + d) a ds"
  by (induction ds arbitrary: a) (simp_all add: digit_char_props)

lemma stoi_int_str:
  assumes "- (2 ^ 31) \<le> i" and "i < 2 ^ 31"
  shows "stoi (int_str i) = Inr i"
proof -
  define ds where "ds = base_digits 10 (nat \<bar>i\<bar>)"
  have lt: "\<forall>d \<in> set ds. d < 10" using base_digits_less [of 10] by (simp add: ds_def)
  have ne: "ds \<noteq> []" using base_digits_Cons_pos [of 10 "nat \<bar>i\<bar>"] by (auto simp: ds_def)
  then obtain x xs where x: "map digit_char ds = digit_char x # xs" "x < 10" using lt by (cases ds) auto
  have v: "foldl (\<lambda>a c. a * 10 + digit_val c) 0 (map digit_char ds) = nat \<bar>i\<bar>"
    using base_digits_value [of 10 "nat \<bar>i\<bar>"] by (simp add: foldl_digit_chars [OF lt]) (simp add: ds_def)
  have tw: "takeWhile is_digit (map digit_char ds) = map digit_char ds"
    using lt by (auto simp: takeWhile_eq_all_conv digit_char_props)
  show ?thesis
  proof (cases "i < 0")
    case True
    then have str: "int_str i = CHR ''-'' # map digit_char ds" by (simp add: int_str_def ds_def)
    have "dropWhile is_space (int_str i) = int_str i" by (simp add: str is_space_def)
    with True assms ne show ?thesis by (simp add: stoi_def Let_def str tw v)
  next
    case False
    then have str: "int_str i = map digit_char ds" by (simp add: int_str_def ds_def)
    have "dropWhile is_space (int_str i) = int_str i" by (simp add: str x digit_char_props)
    moreover have "hd (map digit_char ds) \<noteq> CHR ''-''" "hd (map digit_char ds) \<noteq> CHR ''+''"
      by (simp_all add: x digit_char_props)
    ultimately show ?thesis using False assms ne by (simp add: stoi_def Let_def str tw v)
  qed
qed

section \<open>Properties\<close>

text \<open>
  C31: the configuration round trip. A file that lists settings, one per line, with any number
  of spaces around keys and values, is loaded without loss: a later line for the same key wins,
  a key that is not in the file yields the default, and a value that is the decimal text of an
  \<open>int\<close> is read back as that integer.
\<close>

theorem conf_roundtrip:
  assumes "\<forall>x \<in> set xs. setting_ok x"
    and "load (Some (concat (map (\<lambda>x. setting_line x @ [LF]) xs))) Map.empty = (ok, configs)"
  shows "ok \<and>
    (\<forall>key. get_string key d configs =
      (case map_of (rev (map (\<lambda>x. (st_key x, st_val x)) xs)) key of Some v \<Rightarrow> v | None \<Rightarrow> d)) \<and>
    (\<forall>key i. map_of (rev (map (\<lambda>x. (st_key x, st_val x)) xs)) key = Some (int_str i) \<and>
       - (2 ^ 31) \<le> i \<and> i < 2 ^ 31 \<longrightarrow> get_int key n configs = Inr i) \<and>
    (\<forall>key. key \<notin> st_key ` set xs \<longrightarrow> get_int key n configs = Inr n)"
proof -
  have c: "ok" "configs = map_of (rev (map (\<lambda>x. (st_key x, st_val x)) xs))"
    using load_settings [OF assms(1), of Map.empty] assms(2) by simp_all
  have "int_str i \<noteq> []" for i
    using base_digits_Cons_pos [of 10 "nat \<bar>i\<bar>"] by (auto simp: int_str_def)
  moreover have "configs key = None" if "key \<notin> st_key ` set xs" for key
    using that by (auto simp: c(2) map_of_eq_None_iff)
  ultimately show ?thesis
    using c(1) by (simp add: get_string_def get_int_def Let_def stoi_int_str flip: c(2))
qed

definition demo_setting :: setting where
  "demo_setting = \<lparr> st_key = ''ListenPort0'', st_val = ''8081'', st_pad = (2, 1, 1, 0) \<rparr>"

theorem conf_roundtrip_witness:
  "get_string ''ListenPort0'' [] (snd (load (Some (concat (map (\<lambda>x. setting_line x @ [LF]) [demo_setting]))) Map.empty)) =
    ''8081''"
  using conf_roundtrip [of "[demo_setting]" _ _ "[]"]
  by (cases "load (Some (concat (map (\<lambda>x. setting_line x @ [LF]) [demo_setting]))) Map.empty")
    (simp add: setting_ok_def demo_setting_def trimmed_def LF_def)

end
