(* ===== verification/Mgx_Event.thy ===== *)
theory Mgx_Event
  imports Mgx_Send Mgx_Conf
begin

text \<open>
  The worker's side of the network layer around the handlers: reading the configuration, opening
  the listening sockets, the set-up of the event loop (\<^verbatim>\<open>src/net/mgx_socket.cpp\<close>), accepting a
  connection (\<^verbatim>\<open>src/net/mgx_socket_accept.cpp\<close>) and the dispatch of events.
\<close>

section \<open>Configuration and listening sockets\<close>

definition DEFAULT_LISTEN_PORT :: int where "DEFAULT_LISTEN_PORT = 100000"
definition DEFAULT_WORKER_CONNS :: int where "DEFAULT_WORKER_CONNS = 1024"
definition DEFAULT_RECY_CONN_WAIT_TIME :: int where "DEFAULT_RECY_CONN_WAIT_TIME = 80"

text \<open>\<open>read_conf\<close>; a value that is not an integer leaves it with the exception of \<open>stoi\<close>.\<close>

definition read_conf :: "configs \<Rightarrow> mgx_socket \<Rightarrow> stoi_err + mgx_socket" where
  "read_conf configs s =
     (case get_int ''ListenPortCount'' 1 configs of Inl e \<Rightarrow> Inl e | Inr lc \<Rightarrow>
      case get_int ''WorkerConnections'' DEFAULT_WORKER_CONNS configs of Inl e \<Rightarrow> Inl e | Inr wc \<Rightarrow>
      case get_int ''RecyConnectionWaitTime'' DEFAULT_RECY_CONN_WAIT_TIME configs of Inl e \<Rightarrow> Inl e | Inr rw \<Rightarrow>
      case get_int ''Heartbeat'' 0 configs of Inl e \<Rightarrow> Inl e | Inr hb \<Rightarrow>
      case get_int ''HeartWaitTime'' 30 configs of Inl e \<Rightarrow> Inl e | Inr hw \<Rightarrow>
        Inr (s\<lparr> m_listen_cnt := lc, m_worker_conns := wc, m_recy_conn_wait_time := rw,
                m_enabled_heartbeat := hb, m_heart_wait_time := (if hw \<le> 5 then 5 else hw) \<rparr>))"

text \<open>The system calls made for one listening socket.\<close>

record listen_io =
  li_socket :: int
  li_reuseaddr :: bool
  li_bind :: bool
  li_listen :: bool

text \<open>\<open>htons(listen_port)\<close> keeps 16 bits; the ports passed to \<open>bind\<close> are collected.\<close>

fun open_listen_loop ::
  "configs \<Rightarrow> listen_io list \<Rightarrow> nat \<Rightarrow> mgx_socket \<Rightarrow> u16 list \<Rightarrow> stoi_err + (bool \<times> mgx_socket \<times> u16 list)"
  where
  "open_listen_loop configs [] i s ports = Inr (True, s, ports)"
| "open_listen_loop configs (io # ios) i s ports =
     (if li_socket io < 0 then Inr (False, s, ports)
      else if \<not> li_reuseaddr io then Inr (False, close_fd (li_socket io) s, ports)
      else
        (case get_int (''ListenPort'' @ int_str (int i)) DEFAULT_LISTEN_PORT configs of
           Inl e \<Rightarrow> Inl e
         | Inr listen_port \<Rightarrow>
             (if \<not> li_bind io then Inr (False, close_fd (li_socket io) s, ports @ [word_of_int listen_port])
              else if \<not> li_listen io then Inr (False, close_fd (li_socket io) s, ports @ [word_of_int listen_port])
              else
                open_listen_loop configs ios (Suc i)
                  (s\<lparr> m_listen_skts := m_listen_skts s @
                        [\<lparr> ls_port = listen_port, ls_fd = li_socket io, ls_pconn = None \<rparr>] \<rparr>)
                  (ports @ [word_of_int listen_port]))))"

definition open_listen_skts ::
  "configs \<Rightarrow> listen_io list \<Rightarrow> mgx_socket \<Rightarrow> stoi_err + (bool \<times> mgx_socket \<times> u16 list)" where
  "open_listen_skts configs ios s = open_listen_loop configs (take (nat (m_listen_cnt s)) ios) 0 s []"

definition init :: "configs \<Rightarrow> listen_io list \<Rightarrow> mgx_socket \<Rightarrow> stoi_err + (bool \<times> mgx_socket \<times> u16 list)" where
  "init configs ios s = (case read_conf configs s of Inl e \<Rightarrow> Inl e | Inr s1 \<Rightarrow> open_listen_skts configs ios s1)"

definition close_listen_skts :: "mgx_socket \<Rightarrow> mgx_socket" where
  "close_listen_skts s = foldl (\<lambda>s l. close_fd (ls_fd l) s) s (m_listen_skts s)"

section \<open>Setting up the event loop\<close>

text \<open>
  Environment of \<open>epoll_init\<close>: the descriptor of \<open>epoll_create\<close>, the objects the pool allocates,
  what \<open>sem_init\<close> and the starts of the three threads return, and per listening socket the clock, a fresh object and the
  result of \<open>epoll_ctl\<close>. \<open>None\<close> stands for \<open>exit(1)\<close>.
\<close>

record init_io =
  ii_epoll_fd :: int
  ii_allocs :: "(conn_ptr \<times> int) list"
  ii_recy_err :: int
  ii_sem_ok :: bool
  ii_send_err :: int
  ii_heart_err :: int
  ii_listen :: "nat \<Rightarrow> int \<times> conn_ptr \<times> bool"

fun register_listen ::
  "(nat \<Rightarrow> int \<times> conn_ptr \<times> bool) \<Rightarrow> mgx_listen_skt list \<Rightarrow> mgx_listen_skt list \<Rightarrow> mgx_socket \<Rightarrow> mgx_socket option"
  where
  "register_listen ios done [] s = Some s"
| "register_listen ios done (l # ls) s =
     (let (now, newp, ctl_ok) = ios (length done);
          (c, s1) = get_conn now newp (ls_fd l) s
      in if c = 0 then None
         else
           let l' = l\<lparr> ls_pconn := Some c \<rparr>;
               s2 = (upd_conn c (\<lambda>k. k\<lparr> listen_skt := Some (length done), r_handler := H_event_accept \<rparr>) s1)
                      \<lparr> m_listen_skts := done @ l' # ls \<rparr>;
               (ok, s3) = epoll_oper_event ctl_ok (ls_fd l) EPOLL_CTL_ADD (EPOLLIN OR EPOLLRDHUP) IGNORE c s2
           in if ok then register_listen ios (done @ [l']) ls s3 else Some (close_conn c s3))"

definition send_msg_th_init :: "bool \<Rightarrow> int \<Rightarrow> mgx_socket \<Rightarrow> mgx_socket option" where
  "send_msg_th_init sem_ok err s =
     (if \<not> sem_ok then None else if err \<noteq> 0 then None else Some (s\<lparr> m_send_queue_sem := 0 \<rparr>))"

definition heart_timer_init :: "int \<Rightarrow> mgx_socket \<Rightarrow> mgx_socket option" where
  "heart_timer_init err s = (if err \<noteq> 0 then None else Some s)"

text \<open>The heartbeat thread is only part of the build without \<open>USE_HTTP\<close>.\<close>

definition epoll_init :: "bool \<Rightarrow> init_io \<Rightarrow> mgx_socket \<Rightarrow> mgx_socket option" where
  "epoll_init use_http io s =
     (if ii_epoll_fd io < 0 then None
      else
        let s1 = conn_pool_init (ii_allocs io) (s\<lparr> m_epoll_fd := ii_epoll_fd io \<rparr>)
        in if ii_recy_err io \<noteq> 0 then None
           else Option.bind (send_msg_th_init (ii_sem_ok io) (ii_send_err io) s1) (\<lambda>s2.
                Option.bind (if \<not> use_http \<and> m_enabled_heartbeat s2 \<noteq> 0 then heart_timer_init (ii_heart_err io) s2
                             else Some s2) (\<lambda>s3.
                register_listen (ii_listen io) [] (m_listen_skts s3) s3)))"

text \<open>
  The destructor of the socket object. The send thread and the recovery thread never return from
  their loops, so once they were started the joins do not return (\<open>None\<close>).
\<close>

definition socket_destroy :: "bool \<Rightarrow> bool \<Rightarrow> mgx_socket \<Rightarrow> mgx_socket option" where
  "socket_destroy send_started recy_started s =
     (let s1 = s\<lparr> m_listen_skts := [] \<rparr>
      in if send_started then None
         else let s2 = conn_pool_destroy s1 in if recy_started then None else Some s2)"

text \<open>
  Every listening socket keeps its descriptor and gets a connection object, unless a registration
  fails.
\<close>

lemma get_conn_listen_skts [simp]: "m_listen_skts (snd (get_conn now newp fd s)) = m_listen_skts s"
  by (simp add: get_conn_def Let_def raise_fault_def split: list.splits)

lemma epoll_oper_event_listen_skts [simp]:
  "m_listen_skts (snd (epoll_oper_event ok fd ty es act c s)) = m_listen_skts s"
  by (simp add: epoll_oper_event_def Let_def upd_conn_def)

lemma epoll_oper_event_ok: "fst (epoll_oper_event True fd EPOLL_CTL_ADD es act c s)"
  by (simp add: epoll_oper_event_def Let_def)

lemma register_listen_skts:
  assumes "\<And>n. snd (snd (ios n))" and "m_listen_skts s = done @ ls" and "register_listen ios done ls s = Some s'"
    and "\<forall>l \<in> set done. ls_pconn l \<noteq> None"
  shows "map ls_fd (m_listen_skts s') = map ls_fd (done @ ls) \<and> (\<forall>l \<in> set (m_listen_skts s'). ls_pconn l \<noteq> None)"
  using assms(2-)
proof (induction ls arbitrary: "done" s)
  case Nil
  then show ?case by simp
next
  case (Cons l ls)
  obtain now newp where io: "ios (length done) = (now, newp, True)"
    using assms(1) [of "length done"] by (cases "ios (length done)") auto
  obtain c s1 where g: "get_conn now newp (ls_fd l) s = (c, s1)" by fastforce
  define s2 where "s2 = (upd_conn c (\<lambda>k. k\<lparr> listen_skt := Some (length done), r_handler := H_event_accept \<rparr>) s1)
    \<lparr> m_listen_skts := done @ l\<lparr> ls_pconn := Some c \<rparr> # ls \<rparr>"
  define s3 where "s3 = snd (epoll_oper_event True (ls_fd l) EPOLL_CTL_ADD (EPOLLIN OR EPOLLRDHUP) IGNORE c s2)"
  have "register_listen ios (done @ [l\<lparr> ls_pconn := Some c \<rparr>]) ls s3 = Some s'"
    using Cons.prems(2) epoll_oper_event_ok [of "ls_fd l" "EPOLLIN OR EPOLLRDHUP" IGNORE c s2]
    by (simp add: io g Let_def s3_def s2_def [symmetric] split: if_splits prod.splits)
  moreover have "m_listen_skts s3 = (done @ [l\<lparr> ls_pconn := Some c \<rparr>]) @ ls"
    by (simp add: s3_def s2_def)
  ultimately show ?case
    using Cons.IH [of s3 "done @ [l\<lparr> ls_pconn := Some c \<rparr>]"] Cons.prems(3) by auto
qed

section \<open>Accepting a connection\<close>

datatype accept_ret = Acc_fd int bytes | Acc_err errno

record accept_io =
  ai_accept4 :: accept_ret
  ai_accept :: accept_ret
  ai_now :: int
  ai_newp :: conn_ptr
  ai_ctl_ok :: bool

text \<open>
  The call with its retry: the static flag \<open>use_accept4\<close> is cleared when the kernel does not know
  \<open>accept4\<close>, and then \<open>accept\<close> is tried once.
\<close>

definition accept_call :: "accept_io \<Rightarrow> bool \<Rightarrow> accept_ret \<times> bool" where
  "accept_call io use_accept4 =
     (if use_accept4 then
        (case ai_accept4 io of
           Acc_err e \<Rightarrow> if e = ENOSYS then (ai_accept io, False) else (Acc_err e, True)
         | r \<Rightarrow> (r, True))
      else (ai_accept io, False))"

text \<open>
  The address argument: the kernel stores at most \<open>addrlen\<close> bytes, which the code sets to zero,
  and then sets \<open>addrlen\<close> to the full length of the peer address.
\<close>

definition accept_fill :: "nat \<Rightarrow> bytes \<Rightarrow> bytes \<Rightarrow> bytes \<times> nat" where
  "accept_fill addrlen peer cliaddr =
     (take addrlen peer @ drop (min addrlen (length peer)) cliaddr, length peer)"

text \<open>
  The handler of a listening socket, in the build for packages (in the build with \<open>USE_HTTP\<close> no timer
  is added). The descriptor flag that \<open>set_nonblock\<close> sets after \<open>accept\<close> is the kernel's and not part of the state.
\<close>

definition event_accept :: "accept_io \<Rightarrow> conn_ptr \<Rightarrow> bool \<Rightarrow> mgx_socket \<Rightarrow> bool \<times> mgx_socket" where
  "event_accept io pconn_listen use_accept4 s =
     (let (r, use4) = accept_call io use_accept4
      in case r of
           Acc_err e \<Rightarrow> (use4, s)
         | Acc_fd conn_fd peer \<Rightarrow>
             let (c, s1) = get_conn (ai_now io) (ai_newp io) conn_fd s
             in if c = 0 then (use4, close_fd conn_fd s1)
                else
                  let (cliaddr, addrlen) = accept_fill 0 peer (replicate 16 0);
                      s2 = (if addrlen \<le> 16 then s1 else raise_fault Out_of_bounds s1);
                      s3 = upd_conn c (\<lambda>k. k\<lparr> conn_sockaddr := take addrlen cliaddr @ drop addrlen (conn_sockaddr k),
                             r_handler := H_read_request, w_handler := H_send_msg \<rparr>) s2;
                      (ok, s4) = epoll_oper_event (ai_ctl_ok io) conn_fd EPOLL_CTL_ADD (EPOLLIN OR EPOLLRDHUP) IGNORE c s3
                  in if \<not> ok then (use4, close_conn c s4)
                     else if m_enabled_heartbeat s4 \<noteq> 0 then (use4, add_to_timer_queue (ai_now io) c s4)
                     else (use4, s4))"

section \<open>Dispatching events\<close>

text \<open>The state of the event loop thread: the two globals, the bytes sent, the static flag.\<close>

record loop_sys =
  lp_worker :: worker
  lp_wire :: "(conn_ptr \<times> bytes) list"
  lp_accept4 :: bool

text \<open>An event as reported by \<open>epoll_wait\<close>, with the results of the system calls of its handlers.\<close>

record epoll_ev =
  ev_events :: u32
  ev_data :: u64
  ev_recv :: recv_io
  ev_accept :: accept_io
  ev_send :: "send_ret list"

abbreviation lp_sock :: "loop_sys \<Rightarrow> mgx_socket" where
  "lp_sock L \<equiv> wk_sock (lp_worker L)"

definition set_lp_sock :: "mgx_socket \<Rightarrow> loop_sys \<Rightarrow> loop_sys" where
  "set_lp_sock s L = L\<lparr> lp_worker := (lp_worker L)\<lparr> wk_sock := s \<rparr> \<rparr>"

definition call_handler ::
  "(mgx_msg_hdr \<Rightarrow> bytes) \<Rightarrow> mgx_handler \<Rightarrow> epoll_ev \<Rightarrow> conn_ptr \<Rightarrow> loop_sys \<Rightarrow> loop_sys option" where
  "call_handler img h ev c L =
     (case h of
        H_none \<Rightarrow> Some (set_lp_sock (raise_fault Bad_call (lp_sock L)) L)
      | H_event_accept \<Rightarrow>
          (let (use4, s) = event_accept (ev_accept ev) c (lp_accept4 L) (lp_sock L)
           in Some ((set_lp_sock s L)\<lparr> lp_accept4 := use4 \<rparr>))
      | H_read_request \<Rightarrow> Some (L\<lparr> lp_worker := read_request_handler (ev_recv ev) c (lp_worker L) \<rparr>)
      | H_send_msg \<Rightarrow>
          map_option (\<lambda>(outs, y). (set_lp_sock (ss_sock y) L)\<lparr> lp_wire := ss_wire y \<rparr>)
            (send_msg_handler img c (ev_send ev) \<lparr> ss_sock = lp_sock L, ss_wire = lp_wire L \<rparr>))"

definition process_event ::
  "(mgx_msg_hdr \<Rightarrow> bytes) \<Rightarrow> epoll_ev \<Rightarrow> loop_sys \<Rightarrow> loop_sys option" where
  "process_event img ev L =
     (let c = ptr_conn (ev_data ev); k = conns (lp_sock L) c
      in if c_fd k = -1 \<or> of_bool (c_instance k) \<noteq> ptr_instance (ev_data ev) then Some L
         else
           Option.bind
             (if ev_events ev AND EPOLLIN \<noteq> 0 then call_handler img (r_handler k) ev c L else Some L)
             (\<lambda>L1. if ev_events ev AND EPOLLOUT \<noteq> 0
                   then call_handler img (w_handler (conns (lp_sock L1) c)) ev c L1 else Some L1))"

fun process_events :: "(mgx_msg_hdr \<Rightarrow> bytes) \<Rightarrow> epoll_ev list \<Rightarrow> loop_sys \<Rightarrow> loop_sys option" where
  "process_events img [] L = Some L"
| "process_events img (ev # evs) L = Option.bind (process_event img ev L) (process_events img evs)"

datatype wait_ret = Wait_err errno | Wait_events "epoll_ev list"

definition epoll_process_events ::
  "(mgx_msg_hdr \<Rightarrow> bytes) \<Rightarrow> int \<Rightarrow> wait_ret \<Rightarrow> loop_sys \<Rightarrow> (bool \<times> loop_sys) option" where
  "epoll_process_events img timeout ret L =
     (case ret of
        Wait_err e \<Rightarrow> Some (e = EINTR, L)
      | Wait_events evs \<Rightarrow>
          if evs = [] then Some (timeout = -1, L)
          else map_option (\<lambda>L'. (True, L')) (process_events img evs L))"

section \<open>Effects\<close>

lemma upd_conn_loop_frame [simp]:
  "epoll_log (upd_conn c f s) = epoll_log s" "m_enabled_heartbeat (upd_conn c f s) = m_enabled_heartbeat s"
  by (simp_all add: upd_conn_def)

lemma epoll_oper_event_add:
  "epoll_oper_event ok fd EPOLL_CTL_ADD es act c s =
     (ok, (upd_conn c (\<lambda>k. k\<lparr> c_events := es \<rparr>) s)
        \<lparr> epoll_log := Epoll_ctl fd EPOLL_CTL_ADD es (tag_ptr c (c_instance (conns s c))) # epoll_log s \<rparr>)"
  by (simp add: epoll_oper_event_def Let_def epoll_consts)

text \<open>The state after \<open>event_accept\<close> has prepared and registered the connection.\<close>

definition accepted :: "accept_io \<Rightarrow> int \<Rightarrow> nat \<Rightarrow> conn_ptr \<Rightarrow> mgx_socket \<Rightarrow> mgx_socket" where
  "accepted io conn_fd n c s1 =
     (upd_conn c (\<lambda>k. k\<lparr> conn_sockaddr := replicate n 0 @ drop n (conn_sockaddr k), r_handler := H_read_request,
        w_handler := H_send_msg, c_events := EPOLLIN OR EPOLLRDHUP \<rparr>) s1)
     \<lparr> epoll_log := Epoll_ctl conn_fd EPOLL_CTL_ADD (EPOLLIN OR EPOLLRDHUP)
         (tag_ptr c (c_instance (conns s1 c))) # epoll_log s1 \<rparr>"

lemma event_accept_success:
  assumes "accept_call io u = (Acc_fd conn_fd peer, u')" and "length peer \<le> 16"
    and "get_conn (ai_now io) (ai_newp io) conn_fd s = (c, s1)" and "c \<noteq> 0"
  shows "event_accept io l u s =
    (u', let s4 = accepted io conn_fd (length peer) c s1
         in if \<not> ai_ctl_ok io then close_conn c s4
            else if m_enabled_heartbeat s4 \<noteq> 0 then add_to_timer_queue (ai_now io) c s4 else s4)"
  using assms
  by (simp add: event_accept_def accept_fill_def epoll_oper_event_add accepted_def upd_conn_upd_conn comp_def Let_def)

lemma accepted_frame:
  "pool_view (accepted io fd n c s) = pool_view s" "faults (accepted io fd n c s) = faults s"
  "m_timer_queue (accepted io fd n c s) = m_timer_queue s" "m_timer_que_size (accepted io fd n c s) = m_timer_que_size s"
  "m_timer_que_head_time (accepted io fd n c s) = m_timer_que_head_time s"
  "m_enabled_heartbeat (accepted io fd n c s) = m_enabled_heartbeat s"
  "m_heart_wait_time (accepted io fd n c s) = m_heart_wait_time s"
  by (simp_all add: accepted_def upd_conn_def pool_view_def)

lemma accepted_conn:
  "ready_conn f (conns (accepted io fd n c s) c) = ready_conn f (conns s c)"
  "r_handler (conns (accepted io fd n c s) c) = H_read_request"
  "w_handler (conns (accepted io fd n c s) c) = H_send_msg"
  "c_instance (conns (accepted io fd n c s) c) = c_instance (conns s c)"
  "m_cur_seq (conns (accepted io fd n c s) c) = m_cur_seq (conns s c)"
  "epoll_log (accepted io fd n c s) =
     Epoll_ctl fd EPOLL_CTL_ADD (EPOLLIN OR EPOLLRDHUP) (tag_ptr c (c_instance (conns s c))) # epoll_log s"
  by (simp_all add: accepted_def ready_conn_def)

lemma get_conn_timer_frame:
  assumes "get_conn now newp fd s = (c, t)"
  shows "m_timer_queue t = m_timer_queue s" "m_timer_que_size t = m_timer_que_size s"
    "m_timer_que_head_time t = m_timer_que_head_time s" "m_enabled_heartbeat t = m_enabled_heartbeat s"
    "m_heart_wait_time t = m_heart_wait_time s"
  using assms by (auto simp: get_conn_def raise_fault_def split: if_splits list.splits)

lemma get_conn_flips_instance:
  assumes "pool_inv s" and "m_pconns_free_queue s \<noteq> []" and "get_conn now newp fd s = (p, t)"
  shows "c_instance (conns t p) = (\<not> c_instance (conns s p))"
  using assms by (cases "m_pconns_free_queue s") (auto simp: get_conn_def pool_inv_def)

lemma add_to_timer_queue_frame:
  "pool_view (add_to_timer_queue now c s) = pool_view s" "faults (add_to_timer_queue now c s) = faults s"
  "conns (add_to_timer_queue now c s) = conns s" "epoll_log (add_to_timer_queue now c s) = epoll_log s"
  "(now + m_heart_wait_time s, mk_msg_hdr c (m_cur_seq (conns s c))) \<in> set (m_timer_queue (add_to_timer_queue now c s))"
  by (simp_all add: add_to_timer_queue_eq Let_def pool_view_def)

lemma closed_conn_free:
  assumes "pool_inv s" and "conn_status s c = In_use"
  shows "conn_status (close_conn c s) c = Free" and "pool_inv (close_conn c s)"
    and "c_fd (conns (close_conn c s) c) = -1" and "fd_closes (close_conn c s) = c_fd (conns s c) # fd_closes s"
    and "c_instance (conns (close_conn c s) c) = c_instance (conns s c)"
proof -
  show "pool_inv (close_conn c s)" by (rule pool_inv_close_conn [OF assms])
  show "conn_status (close_conn c s) c = Free"
    using assms(2) by (auto simp: conn_status_def close_conn_fields split: if_splits)
  show "c_fd (conns (close_conn c s) c) = -1" "c_instance (conns (close_conn c s) c) = c_instance (conns s c)"
    by (simp_all add: close_conn_def close_fd_def free_conn_effect)
  show "fd_closes (close_conn c s) = c_fd (conns s c) # fd_closes s"
    by (simp add: close_conn_def free_conn_def put_one_to_free_def Let_def close_fd_def upd_conn_def
        delete_opt_def delete_buf_def raise_fault_def split: option.split)
qed

section \<open>Properties\<close>

text \<open>
  C32: accepting a connection. The code always finds an object, taken from the free queue or
  newly allocated (its branch for a full pool is never taken). The connection is then in use, at
  the start of a package, has its handlers, is registered for reading under a tag that denotes
  it and its instance, and with heartbeats enabled has a timer for its current sequence number.
  If the registration fails, the descriptor is closed and the object is free again. The
  invariants of the pool and of the timer queue are kept.
\<close>

theorem accept_registers_connection:
  assumes "pool_inv s" and "timer_inv s" and "0 \<notin> set (m_pconns_queue s)"
    and "ai_newp io \<noteq> 0" and "ai_newp io \<notin> set (m_pconns_queue s)"
    and "accept_call io u = (Acc_fd conn_fd peer, u')" and "length peer \<le> 16"
  shows "\<exists>c s'. event_accept io l u s = (u', s') \<and> conn_status s c \<in> {Free, Unallocated} \<and>
    pool_inv s' \<and>
    (if ai_ctl_ok io then
       conn_status s' c = In_use \<and> ready_conn conn_fd (conns s' c) \<and> timer_inv s' \<and> faults s' = faults s \<and>
       r_handler (conns s' c) = H_read_request \<and> w_handler (conns s' c) = H_send_msg \<and>
       hd (epoll_log s') = Epoll_ctl conn_fd EPOLL_CTL_ADD (EPOLLIN OR EPOLLRDHUP)
         (tag_ptr c (c_instance (conns s' c))) \<and>
       (m_enabled_heartbeat s \<noteq> 0 \<longrightarrow>
         (ai_now io + m_heart_wait_time s, mk_msg_hdr c (m_cur_seq (conns s' c))) \<in> set (m_timer_queue s'))
     else conn_status s' c = Free \<and> hd (fd_closes s') = conn_fd)"
proof -
  obtain c s1 where g: "get_conn (ai_now io) (ai_newp io) conn_fd s = (c, s1)" by fastforce
  note st = get_conn_status [OF assms(1,5) g]
  note cn = get_conn_conn(1,2) [OF assms(1) g]
  note tf = get_conn_timer_frame [OF g]
  have inv1: "pool_inv s1"
    using pool_inv_get_conn [OF assms(1,5), of "ai_now io" conn_fd] g by simp
  have "c \<in> set (m_pconns_queue s1)" using st by (auto simp: conn_status_def split: if_splits)
  moreover have "set (m_pconns_queue s1) \<subseteq> insert (ai_newp io) (set (m_pconns_queue s))"
    using g by (auto simp: get_conn_def raise_fault_def split: if_splits list.splits)
  ultimately have "c \<noteq> 0" using assms(3,4) by auto
  define s4 where "s4 = accepted io conn_fd (length peer) c s1"
  note acc = accepted_frame [of io conn_fd "length peer" c s1, folded s4_def]
  note con = accepted_conn [where io = io and fd = conn_fd and n = "length peer" and c = c and s = s1, folded s4_def]
  have inv4: "pool_inv s4" "conn_status s4 c = In_use" "timer_inv s4"
    using inv1 st pool_inv_view [OF acc(1)] conn_status_view [OF acc(1)] assms(2)
    by (simp_all add: timer_inv_def acc tf)
  have fd: "c_fd (conns s4 c) = conn_fd" using cn(1) by (simp add: ready_conn_def s4_def accepted_def)
  note eq = event_accept_success [OF assms(6,7) g \<open>c \<noteq> 0\<close>, of l, folded s4_def]
  show ?thesis
  proof (cases "ai_ctl_ok io")
    case False
    with eq closed_conn_free [OF inv4(1,2)] st fd show ?thesis by (auto simp: Let_def)
  next
    case ok: True
    define s' where "s' = (if m_enabled_heartbeat s4 \<noteq> 0 then add_to_timer_queue (ai_now io) c s4 else s4)"
    have "event_accept io l u s = (u', s')" using eq ok by (simp add: s'_def Let_def)
    moreover have "pool_view s' = pool_view s4" "faults s' = faults s" "conns s' = conns s4"
        "epoll_log s' = epoll_log s4" "timer_inv s'"
      using inv4(3) by (simp_all add: s'_def add_to_timer_queue_frame acc cn timer_inv_add)
    moreover have "m_enabled_heartbeat s \<noteq> 0 \<longrightarrow>
        (ai_now io + m_heart_wait_time s, mk_msg_hdr c (m_cur_seq (conns s4 c))) \<in> set (m_timer_queue s')"
      using add_to_timer_queue_frame(5) [of "ai_now io" s4 c] by (simp add: s'_def acc tf)
    ultimately show ?thesis
      using ok st cn(1) inv4 con pool_inv_view [of s' s4] conn_status_view [of s' s4]
      by (intro exI [of _ c] exI [of _ s']) simp
  qed
qed

text \<open>
  \<open>use_run p s n t\<close>: any number of steps lead from \<open>s\<close> to \<open>t\<close>, and the object \<open>p\<close> is handed out \<open>n\<close> times
  on the way. A step is a step of the pool, for any connection and by its owner, or anything else that leaves the
  pool, the descriptor and the instance bit of \<open>p\<close> as they are, such as reading and sending.
\<close>

inductive use_run :: "conn_ptr \<Rightarrow> mgx_socket \<Rightarrow> nat \<Rightarrow> mgx_socket \<Rightarrow> bool" for p s where
  use_refl: "use_run p s 0 s"
| use_pool: "use_run p s n t \<Longrightarrow> pool_step t u \<Longrightarrow>
    use_run p s (if conn_status t p \<noteq> In_use \<and> conn_status u p = In_use then Suc n else n) u"
| use_other: "use_run p s n t \<Longrightarrow> pool_view u = pool_view t \<Longrightarrow> c_fd (conns u p) = c_fd (conns t p) \<Longrightarrow>
    c_instance (conns u p) = c_instance (conns t p) \<Longrightarrow> use_run p s n u"

lemma step_instance:
  assumes "pool_step s t" and "pool_inv s" and "p \<in> set (m_pconns_queue s)"
    and "conn_status s p = Free \<longrightarrow> c_fd (conns s p) = -1"
  shows "c_instance (conns t p) = (c_instance (conns s p) \<noteq> (conn_status s p \<noteq> In_use \<and> conn_status t p = In_use)) \<and>
    (conn_status t p = Free \<longrightarrow> c_fd (conns t p) = -1)"
  using assms
proof (cases rule: pool_step.cases)
  case (step_get newp now fd)
  obtain c u where get: "get_conn now newp fd s = (c, u)" by fastforce
  with step_get have t: "t = u" by simp
  note st = get_conn_status [OF assms(2) step_get(2) get]
  show ?thesis
  proof (cases "c = p")
    case True
    with st assms(3) have f: "conn_status s p = Free" "conn_status t p = In_use"
      by (auto simp: conn_status_def t split: if_splits)
    then have "m_pconns_free_queue s \<noteq> []" by (auto simp: conn_status_def split: if_splits)
    from get_conn_flips_instance [OF assms(2) this get] f True show ?thesis by (simp add: t)
  next
    case False
    with get_conn_conn(3) [OF assms(2) get, of p] st assms(4) show ?thesis by (auto simp: t)
  qed
next
  case (step_close c)
  with assms(4) show ?thesis
    by (auto simp: close_conn_effect free_conn_effect conn_status_def close_conn_fields split: if_splits)
next
  case (step_park c now)
  with assms(4) show ?thesis
    by (auto simp: insert_recy_effect(1) insert_recy_fields conn_status_def split: if_splits)
next
  case (step_recover c now)
  with assms(2-4) show ?thesis
    by (auto simp: recy_one_effect(1) pool_view_cong [OF recy_one_effect(2)] conn_status_def
        pool_inv_def split: if_splits)
qed

lemma use_run_tag:
  "use_run p s n t \<Longrightarrow> pool_inv s \<Longrightarrow> conn_status s p = In_use \<Longrightarrow>
   pool_inv t \<and> p \<in> set (m_pconns_queue t) \<and> (conn_status t p = Free \<longrightarrow> c_fd (conns t p) = -1) \<and>
   c_instance (conns t p) = (c_instance (conns s p) \<noteq> odd n)"
proof (induction rule: use_run.induct)
  case use_refl
  then show ?case by (auto simp: conn_status_def split: if_splits)
next
  case (use_pool n t u)
  then have t: "pool_inv t" "p \<in> set (m_pconns_queue t)" "conn_status t p = Free \<longrightarrow> c_fd (conns t p) = -1"
    "c_instance (conns t p) = (c_instance (conns s p) \<noteq> odd n)" by blast+
  from step_instance [OF use_pool.hyps(2) t(1-3)] t(4) show ?case
    using pool_step_inv [OF use_pool.hyps(2) t(1)] step_pool_grows [OF use_pool.hyps(2)] t(2)
    by (cases "conn_status t p \<noteq> In_use \<and> conn_status u p = In_use") (simp_all add: subset_iff, blast+)
next
  case (use_other n t u)
  then have t: "pool_inv t" "p \<in> set (m_pconns_queue t)" "conn_status t p = Free \<longrightarrow> c_fd (conns t p) = -1"
    "c_instance (conns t p) = (c_instance (conns s p) \<noteq> odd n)" by blast+
  moreover have "m_pconns_queue u = m_pconns_queue t"
    using use_other.hyps(2) by (simp add: pool_view_def)
  ultimately show ?case
    using pool_inv_view [OF use_other.hyps(2)] conn_status_view [OF use_other.hyps(2)] use_other.hyps(3,4) by simp
qed

text \<open>
  C33: events of a finished connection are ignored. Let an event carry the tag that was
  registered for a connection in use. After any number of steps of the program, the event has no
  effect at all on the event loop's state if the object is free, or if it has been handed out an
  odd number of times since. (The instance is one bit: the event passes the test if the object was
  handed out an even number of times and is not free, and while it is parked for recovery.)
\<close>

theorem stale_event_ignored:
  assumes "pool_inv s" and "conn_status s p = In_use" and "aligned_ptr p"
    and "ev_data ev = tag_ptr p (c_instance (conns s p))"
    and "use_run p s n (lp_sock L)" and "conn_status (lp_sock L) p = Free \<or> odd n"
  shows "process_event img ev L = Some L"
proof -
  have "ptr_conn (ev_data ev) = p" "ptr_instance (ev_data ev) = of_bool (c_instance (conns s p))"
    using ptr_tag_roundtrip [OF assms(3)] assms(4) by simp_all
  with use_run_tag [OF assms(5,1,2)] assms(6) show ?thesis
    by (cases "c_instance (conns s p)") (auto simp: process_event_def Let_def)
qed

definition demo_loop :: loop_sys where
  "demo_loop = \<lparr> lp_worker = \<lparr> wk_sock = close_conn 16 (snd (get_conn 5 48 7 demo_pool)), wk_pool = Mgx_th_pool \<rparr>,
     lp_wire = [], lp_accept4 = True \<rparr>"

definition demo_accept :: accept_io where
  "demo_accept = \<lparr> ai_accept4 = Acc_err ENOSYS, ai_accept = Acc_fd 9 (replicate 16 1), ai_now = 5, ai_newp = 48,
     ai_ctl_ok = True \<rparr>"

definition demo_event :: epoll_ev where
  "demo_event = \<lparr> ev_events = EPOLLIN,
     ev_data = tag_ptr 16 (c_instance (conns (snd (get_conn 5 48 7 demo_pool)) 16)),
     ev_recv = \<lparr> ri_now = 1, ri_ret = Recv_n [8], ri_addr = 64, ri_junk = [] \<rparr>, ev_accept = demo_accept, ev_send = [] \<rparr>"

theorem accept_registers_connection_witness:
  "\<exists>c s'. event_accept demo_accept 80 True demo_pool = (False, s') \<and> conn_status s' c = In_use \<and>
    r_handler (conns s' c) = H_read_request"
proof -
  have "timer_inv demo_pool"
    by (simp add: demo_pool_def conn_pool_init_def pool_add_def timer_inv_def Mgx_socket_def)
  moreover have "accept_call demo_accept True = (Acc_fd 9 (replicate 16 1), False)"
    by (simp add: accept_call_def demo_accept_def)
  ultimately show ?thesis
    using accept_registers_connection [OF demo_pool_inv, of demo_accept True 9 "replicate 16 1" False 80]
    by (auto simp: demo_pool_queues demo_accept_def)
qed

theorem stale_event_ignored_witness: "process_event (\<lambda>_. []) demo_event demo_loop = Some demo_loop"
proof (rule stale_event_ignored [OF demo_used(1,2)])
  show "aligned_ptr 16" by (simp add: aligned_ptr_def)
  show "use_run 16 (snd (get_conn 5 48 7 demo_pool)) 0 (lp_sock demo_loop)"
    using use_pool [OF use_refl step_close [OF demo_used(2)], of 16] demo_used(2) by (simp add: demo_loop_def)
  show "conn_status (lp_sock demo_loop) 16 = Free \<or> odd (0 :: nat)"
    using closed_conn_free(1) [OF demo_used(1,2)] by (simp add: demo_loop_def)
qed (simp add: demo_event_def)

end
