(* ===== verification/Mgx_Log.thy ===== *)
theory Mgx_Log
  imports Mgx_Printf
begin

text \<open>
  \<^verbatim>\<open>src/app/mgx_log.cpp\<close>: the log file and its copy on the standard error stream. The time string,
  the process id, the results of \<open>write\<close> and the text of \<open>strerror\<close> are arguments. Writes are
  collected as pairs of a descriptor and a text.
\<close>

section \<open>Operations\<close>

definition MGX_MAX_ERR_STR_SIZE :: nat where "MGX_MAX_ERR_STR_SIZE = 10240"
definition MGX_MAX_LOG_STR_SIZE :: nat where "MGX_MAX_LOG_STR_SIZE = MGX_MAX_ERR_STR_SIZE"
definition STD_ERR_TAG :: string where "STD_ERR_TAG = ''mgx: ''"
definition STDERR_FILENO :: int where "STDERR_FILENO = 2"
definition MGX_LOG_STDERR :: int where "MGX_LOG_STDERR = 0"

definition log_tags :: "string list" where
  "log_tags = [''stderr'', ''emerg'', ''alert'', ''crit'', ''error'', ''warn'', ''notice'', ''info'', ''debug'']"

record mgx_log_t =
  log_level :: int
  log_fd :: int
  debug_mode :: bool

record log_out =
  lo_writes :: "(int \<times> string) list"
  lo_closed :: "int list"

text \<open>
  The end of a line: the write position is moved back so that the newline and the terminating
  zero fit, then the newline is stored. The zero is the byte after the resulting text.
\<close>

definition finish_line :: "nat \<Rightarrow> string \<Rightarrow> string" where
  "finish_line bsz out = (if length out \<ge> bsz - 1 then take (bsz - 2) out else out) @ [LF]"

definition mgx_log_stderr :: "string \<Rightarrow> va list \<Rightarrow> log_out \<Rightarrow> pf_err + log_out" where
  "mgx_log_stderr fmt args lo =
     (case mgx_vslprintf MGX_MAX_ERR_STR_SIZE fmt args STD_ERR_TAG of
        Inl e \<Rightarrow> Inl e
      | Inr out \<Rightarrow>
          Inr (lo\<lparr> lo_writes := lo_writes lo @ [(STDERR_FILENO, finish_line MGX_MAX_ERR_STR_SIZE out)] \<rparr>))"

definition cstr :: "string \<Rightarrow> va" where
  "cstr s = VA_str (Some (s @ [NUL]))"

text \<open>The line: time, level tag, process id, message.\<close>

definition log_line :: "string \<Rightarrow> u64 \<Rightarrow> int \<Rightarrow> string \<Rightarrow> va list \<Rightarrow> pf_err + string" where
  "log_line time pid level fmt args =
     (case mgx_slprintf time MGX_MAX_LOG_STR_SIZE '' [%s] %d: '' [cstr (log_tags ! nat level), VA_word pid] of
        Inl e \<Rightarrow> Inl e
      | Inr out1 \<Rightarrow>
          map_sum id (finish_line MGX_MAX_LOG_STR_SIZE) (mgx_vslprintf MGX_MAX_LOG_STR_SIZE fmt args out1))"

definition mgx_log ::
  "string \<Rightarrow> u64 \<Rightarrow> bool \<Rightarrow> string \<Rightarrow> int \<Rightarrow> string \<Rightarrow> va list \<Rightarrow> mgx_log_t \<Rightarrow> log_out \<Rightarrow> pf_err + log_out" where
  "mgx_log time pid write_ok errstr level fmt args g lo =
     (if level > log_level g then Inr lo
      else
        (case log_line time pid level fmt args of
           Inl e \<Rightarrow> Inl e
         | Inr line \<Rightarrow>
             (if \<not> write_ok then
                (case mgx_log_stderr ''write log error: %s'' [cstr errstr] lo of
                   Inl e \<Rightarrow> Inl e
                 | Inr lo1 \<Rightarrow>
                     (let lo2 = (if log_fd g \<noteq> STDERR_FILENO then lo1\<lparr> lo_closed := log_fd g # lo_closed lo1 \<rparr>
                                 else lo1)
                      in Inr (lo2\<lparr> lo_writes := lo_writes lo2 @ [(STDERR_FILENO, line)] \<rparr>)))
              else
                (let lo1 = lo\<lparr> lo_writes := lo_writes lo @ [(log_fd g, line)] \<rparr>
                 in if level = MGX_LOG_STDERR \<or> debug_mode g then mgx_log_stderr (butlast line) [] lo1
                    else Inr lo1))))"

text \<open>The overload for strings passes the string on as the format.\<close>

definition mgx_log_str ::
  "string \<Rightarrow> u64 \<Rightarrow> bool \<Rightarrow> string \<Rightarrow> int \<Rightarrow> string \<Rightarrow> mgx_log_t \<Rightarrow> log_out \<Rightarrow> pf_err + log_out" where
  "mgx_log_str time pid write_ok errstr level str = mgx_log time pid write_ok errstr level str []"

section \<open>The shape of a line\<close>

definition log_prefix :: "string \<Rightarrow> u64 \<Rightarrow> int \<Rightarrow> string" where
  "log_prefix time pid level = time @ '' ['' @ log_tags ! nat level @ ''] '' @ dec_str pid @ '': ''"

lemma log_tag_props:
  assumes "0 \<le> level" and "level \<le> 8"
  shows "length (log_tags ! nat level) \<le> 6" and "NUL \<notin> set (log_tags ! nat level)"
    and "CHR ''%'' \<notin> set (log_tags ! nat level)"
proof -
  have "log_tags ! nat level \<in> set log_tags"
    using assms by (intro nth_mem) (simp add: log_tags_def)
  moreover have "\<forall>t \<in> set log_tags. length t \<le> 6 \<and> NUL \<notin> set t \<and> CHR ''%'' \<notin> set t"
    by (simp add: log_tags_def NUL_def)
  ultimately show "length (log_tags ! nat level) \<le> 6" "NUL \<notin> set (log_tags ! nat level)"
    "CHR ''%'' \<notin> set (log_tags ! nat level)" by blast+
qed

lemma digit_char_not_pct: "d < 10 \<Longrightarrow> digit_char d \<noteq> CHR ''%''"
proof
  assume "d < 10" "digit_char d = CHR ''%''"
  then have "(of_char (digit_char d) :: nat) = 37" by simp
  with \<open>d < 10\<close> show False by (simp add: digit_char_def)
qed

lemma dec_str_not_pct: "CHR ''%'' \<notin> set (dec_str w)"
proof
  assume "CHR ''%'' \<in> set (dec_str w)"
  then obtain d where "d \<in> set (base_digits 10 (unat w))" "digit_char d = CHR ''%''"
    by (auto simp: dec_str_def)
  with base_digits_less [of 10 d "unat w"] digit_char_not_pct show False by simp
qed

lemma log_prefix_props:
  assumes "0 \<le> level" and "level \<le> 8" and "length time = 19"
  shows "length (log_prefix time pid level) \<le> 51"
    and "CHR ''%'' \<notin> set time \<Longrightarrow> CHR ''%'' \<notin> set (log_prefix time pid level)"
  using log_tag_props [OF assms(1,2)] assms(3) dec_str_length [of pid] dec_str_not_pct [of pid]
  by (simp_all add: log_prefix_def MGX_INT64_LEN_def)

lemma log_prefix_written:
  assumes "0 \<le> level" and "level \<le> 8" and "length time = 19" and "unat pid < 2 ^ 31"
  shows "mgx_vslprintf MGX_MAX_LOG_STR_SIZE '' [%s] %d: '' [cstr (log_tags ! nat level), VA_word pid] time =
    Inr (log_prefix time pid level)"
proof -
  let ?c = MGX_MAX_LOG_STR_SIZE and ?t = "log_tags ! nat level"
  note tag = log_tag_props [OF assms(1,2)]
  have cap: "?c = 10240" by (simp add: MGX_MAX_LOG_STR_SIZE_def MGX_MAX_ERR_STR_SIZE_def)
  have "mgx_vslprintf ?c ('' ['' @ ''%s] %d: '') [cstr ?t, VA_word pid] time =
      mgx_vslprintf ?c ''%s] %d: '' [cstr ?t, VA_word pid] (time @ '' ['')"
    by (rule mgx_vslprintf_plain) (simp_all add: cap assms(3))
  also have "\<dots> = mgx_vslprintf ?c (''] '' @ ''%d: '') [VA_word pid] ((time @ '' ['') @ ?t)"
    using mgx_vslprintf_s [of ?t "time @ '' [''" ?c _ "[]"] tag assms(3) by (simp add: cstr_def cap)
  also have "\<dots> = mgx_vslprintf ?c ''%d: '' [VA_word pid] (((time @ '' ['') @ ?t) @ ''] '')"
    by (rule mgx_vslprintf_plain) (use tag in \<open>simp_all add: cap assms(3)\<close>)
  also have "\<dots> = mgx_vslprintf ?c '': '' [] ((((time @ '' ['') @ ?t) @ ''] '') @ dec_str pid)"
    by (rule mgx_vslprintf_d) (use tag assms(3,4) in \<open>simp_all add: cap MGX_INT64_LEN_def\<close>)
  also have "\<dots> = Inr (((((time @ '' ['') @ ?t) @ ''] '') @ dec_str pid) @ '': '')"
    by (rule mgx_vslprintf_text)
      (use tag assms(3) dec_str_length [of pid] in \<open>simp_all add: cap MGX_INT64_LEN_def\<close>)
  finally show ?thesis by (simp add: log_prefix_def)
qed

lemma log_line_eq:
  assumes "0 \<le> level" and "level \<le> 8" and "length time = 19" and "unat pid < 2 ^ 31"
    and "mgx_vslprintf MGX_MAX_LOG_STR_SIZE fmt args (log_prefix time pid level) =
      Inr (log_prefix time pid level @ msg)" and "length msg \<le> 10000"
  shows "log_line time pid level fmt args = Inr (log_prefix time pid level @ msg @ [LF])"
  using log_prefix_written [OF assms(1-4)] log_prefix_props(1) [OF assms(1-3), of pid] assms(5,6)
  by (simp add: log_line_def mgx_slprintf_def finish_line_def MGX_MAX_LOG_STR_SIZE_def MGX_MAX_ERR_STR_SIZE_def)

section \<open>Properties\<close>

text \<open>The tagged copy of a text without a percent sign, and the report of a failed write.\<close>

lemma mgx_log_stderr_text:
  assumes "CHR ''%'' \<notin> set xs" and "length xs \<le> 10200"
  shows "mgx_log_stderr xs [] lo = Inr (lo\<lparr> lo_writes := lo_writes lo @ [(STDERR_FILENO, STD_ERR_TAG @ xs @ [LF])] \<rparr>)"
proof -
  have "mgx_vslprintf MGX_MAX_ERR_STR_SIZE xs [] STD_ERR_TAG = Inr (STD_ERR_TAG @ xs)"
    by (rule mgx_vslprintf_text) (use assms in \<open>simp_all add: MGX_MAX_ERR_STR_SIZE_def STD_ERR_TAG_def\<close>)
  then show ?thesis
    using assms(2) by (simp add: mgx_log_stderr_def finish_line_def MGX_MAX_ERR_STR_SIZE_def STD_ERR_TAG_def)
qed

lemma mgx_log_stderr_report:
  assumes "NUL \<notin> set xs" and "length xs \<le> 10000"
  shows "mgx_log_stderr ''write log error: %s'' [cstr xs] lo =
    Inr (lo\<lparr> lo_writes := lo_writes lo @ [(STDERR_FILENO, STD_ERR_TAG @ ''write log error: '' @ xs @ [LF])] \<rparr>)"
proof -
  have "mgx_vslprintf MGX_MAX_ERR_STR_SIZE (''write log error: '' @ ''%s'') [cstr xs] STD_ERR_TAG =
      mgx_vslprintf MGX_MAX_ERR_STR_SIZE ''%s'' [cstr xs] (STD_ERR_TAG @ ''write log error: '')"
    by (rule mgx_vslprintf_plain) (simp_all add: MGX_MAX_ERR_STR_SIZE_def STD_ERR_TAG_def)
  also have "\<dots> = Inr ((STD_ERR_TAG @ ''write log error: '') @ xs)"
    using mgx_vslprintf_s [of xs "STD_ERR_TAG @ ''write log error: ''" MGX_MAX_ERR_STR_SIZE "[]" "[]" "[]"] assms
    by (simp add: cstr_def MGX_MAX_ERR_STR_SIZE_def STD_ERR_TAG_def)
  finally show ?thesis
    using assms(2) by (simp add: mgx_log_stderr_def finish_line_def MGX_MAX_ERR_STR_SIZE_def STD_ERR_TAG_def)
qed

text \<open>
  C29: where a message without a percent sign goes. A message above the log level is
  dropped. Otherwise one line is made of the time, the level tag, the process id and the unchanged
  message, and the log file gets it; if the level is the standard error level or the debug mode is
  on, the standard error stream gets the same line behind its own tag, and otherwise nothing more is
  written. If the write fails, the standard error stream gets a report and the line, and
  the descriptor of the log file is closed unless it is the standard error stream. The message and the
  error text have at most 10000 characters, the level is one of the nine, and the process id is
  below \<open>2 ^ 31\<close>.
\<close>

theorem log_line_and_copy:
  assumes "0 \<le> level" and "level \<le> 8" and "unat pid < 2 ^ 31" and "length time = 19"
    and "CHR ''%'' \<notin> set (time @ msg)" and "length msg \<le> 10000"
    and "NUL \<notin> set errstr" and "length errstr \<le> 10000"
    and "line = log_prefix time pid level @ msg @ [LF]"
  shows "mgx_log time pid write_ok errstr level msg [] g lo = Inr
    (if level > log_level g then lo
     else if write_ok then lo\<lparr> lo_writes := lo_writes lo @ (log_fd g, line) #
       (if level = MGX_LOG_STDERR \<or> debug_mode g then [(STDERR_FILENO, STD_ERR_TAG @ line)] else []) \<rparr>
     else lo\<lparr> lo_writes := lo_writes lo @
         [(STDERR_FILENO, STD_ERR_TAG @ ''write log error: '' @ errstr @ [LF]), (STDERR_FILENO, line)],
       lo_closed := (if log_fd g = STDERR_FILENO then [] else [log_fd g]) @ lo_closed lo \<rparr>)"
proof -
  let ?p = "log_prefix time pid level"
  note pre = log_prefix_props [OF assms(1,2,4), of pid]
  have "mgx_vslprintf MGX_MAX_LOG_STR_SIZE msg [] ?p = Inr (?p @ msg)"
    by (rule mgx_vslprintf_text)
      (use pre assms(5,6) in \<open>simp_all add: MGX_MAX_LOG_STR_SIZE_def MGX_MAX_ERR_STR_SIZE_def\<close>)
  then have line: "log_line time pid level msg [] = Inr line"
    using log_line_eq [OF assms(1,2,4,3)] assms(6,9) by blast
  have "mgx_log_stderr (butlast line) [] lo' =
      Inr (lo'\<lparr> lo_writes := lo_writes lo' @ [(STDERR_FILENO, STD_ERR_TAG @ line)] \<rparr>)" for lo'
    using mgx_log_stderr_text [of "?p @ msg"] pre assms(5,6) by (simp add: assms(9) butlast_append)
  with line mgx_log_stderr_report [OF assms(7,8)] show ?thesis
    by (simp add: mgx_log_def)
qed

text \<open>A line at the standard error level, one above the log level, and one that cannot be written.\<close>

theorem log_line_and_copy_witness:
  "let g = \<lparr> log_level = 6, log_fd = 3, debug_mode = False \<rparr>; lo = \<lparr> lo_writes = [], lo_closed = [] \<rparr>;
       t = ''2021-01-01 00:00:00''; line = (\<lambda>l. log_prefix t 77 l @ ''hello'' @ [LF])
   in mgx_log t 77 True [] 0 ''hello'' [] g lo =
        Inr (lo\<lparr> lo_writes := [(3, line 0), (2, STD_ERR_TAG @ line 0)] \<rparr>) \<and>
      mgx_log t 77 True [] 6 ''hello'' [] g lo = Inr (lo\<lparr> lo_writes := [(3, line 6)] \<rparr>) \<and>
      mgx_log t 77 True [] 7 ''hello'' [] g lo = Inr lo \<and>
      mgx_log t 77 False ''full'' 6 ''hello'' [] g lo =
        Inr \<lparr> lo_writes = [(2, STD_ERR_TAG @ ''write log error: full'' @ [LF]), (2, line 6)], lo_closed = [3] \<rparr>"
  by (simp add: Let_def log_line_and_copy MGX_LOG_STDERR_def STDERR_FILENO_def NUL_def)

text \<open>
  The copy on the standard error stream uses the finished line as a format. If the text of
  an argument, for example data received from a client, contains \<open>%s\<close>, the second formatting
  fetches an argument that was never passed.
\<close>

theorem stderr_copy_interprets_line:
  assumes "0 \<le> level" and "level \<le> 8" and "level \<le> log_level g" and "unat pid < 2 ^ 31"
    and "length time = 19" and "CHR ''%'' \<notin> set (time @ pre)" and "NUL \<notin> set (pre @ post)"
    and "length (pre @ ''%s'' @ post) \<le> 10000" and "level = MGX_LOG_STDERR \<or> debug_mode g"
  shows "mgx_log time pid True errstr level ''%s'' [cstr (pre @ ''%s'' @ post)] g lo = Inl Bad_arg"
proof -
  let ?p = "log_prefix time pid level" and ?m = "pre @ ''%s'' @ post"
  note pp = log_prefix_props [OF assms(1,2,5), of pid]
  have "NUL \<notin> set ?m" using assms(7) by (simp add: NUL_def)
  then have "mgx_vslprintf MGX_MAX_LOG_STR_SIZE ''%s'' [cstr ?m] ?p = Inr (?p @ ?m)"
    using mgx_vslprintf_s [of ?m ?p MGX_MAX_LOG_STR_SIZE "[]" "[]" "[]"] pp(1) assms(8)
    by (simp add: cstr_def MGX_MAX_LOG_STR_SIZE_def MGX_MAX_ERR_STR_SIZE_def)
  then have line: "log_line time pid level ''%s'' [cstr ?m] = Inr (?p @ ?m @ [LF])"
    using log_line_eq [OF assms(1,2,5,4)] assms(8) by blast
  have "mgx_vslprintf MGX_MAX_ERR_STR_SIZE ((?p @ pre) @ CHR ''%'' # CHR ''s'' # post) [] STD_ERR_TAG =
      mgx_vslprintf MGX_MAX_ERR_STR_SIZE (CHR ''%'' # CHR ''s'' # post) [] (STD_ERR_TAG @ (?p @ pre))"
    by (rule mgx_vslprintf_plain)
      (use pp assms(6,8) in \<open>simp_all add: MGX_MAX_ERR_STR_SIZE_def STD_ERR_TAG_def\<close>)
  also have "\<dots> = Inl Bad_arg"
    using pp(1) assms(8)
    by (simp add: parse_spec_def is_digit_def convert_def conv_char_def MGX_MAX_ERR_STR_SIZE_def STD_ERR_TAG_def)
  finally have "mgx_log_stderr (?p @ ?m) [] lo' = Inl Bad_arg" for lo'
    by (simp add: mgx_log_stderr_def)
  with assms(3,9) line show ?thesis
    by (simp add: mgx_log_def butlast_append)
qed

theorem stderr_copy_interprets_line_witness:
  "mgx_log ''2021-01-01 00:00:00'' 77 True [] 0 ''%s'' [cstr (''a'' @ ''%s'' @ ''b'')]
     \<lparr> log_level = 6, log_fd = 3, debug_mode = False \<rparr> \<lparr> lo_writes = [], lo_closed = [] \<rparr> = Inl Bad_arg"
  by (rule stderr_copy_interprets_line) (simp_all add: MGX_LOG_STDERR_def NUL_def)

end
