(* ===== verification/Mgx_Io.thy ===== *)
theory Mgx_Io
  imports Mgx_Socket_Data Mgx_Conf
begin

text \<open>
  \<^verbatim>\<open>src/misc/mgx_io.cpp\<close> and \<^verbatim>\<open>src/misc/mgx_file.cpp\<close>: waiting for one descriptor, and reading files.
  \<open>poll\<close> and \<open>select\<close> are functions of what is asked for; the results of \<open>read\<close> are a list, and a
  loop that has used them all has not returned yet (\<open>None\<close>).
\<close>

section \<open>Waiting for a descriptor\<close>

definition MGX_READ :: int where "MGX_READ = 1"
definition MGX_WRITE :: int where "MGX_WRITE = 2"
definition POLLIN :: u32 where "POLLIN = 1"
definition POLLOUT :: u32 where "POLLOUT = 4"
definition FD_SETSIZE :: int where "FD_SETSIZE = 1024"

definition mgx_poll :: "(u32 \<Rightarrow> int \<times> u32) \<Rightarrow> bool \<Rightarrow> bool \<Rightarrow> int" where
  "mgx_poll poll rd wr =
     (let ev0 = POLLOUT;
          ev1 = (if rd then ev0 OR POLLIN else ev0);
          ev2 = (if wr then ev1 OR POLLOUT else ev1);
          (rv, revents) = poll ev2
      in if rv \<ge> 0
         then (let rv1 = (if revents AND POLLIN \<noteq> 0 then 0 OR MGX_READ else 0)
               in if revents AND POLLOUT \<noteq> 0 then rv1 OR MGX_WRITE else rv1)
         else rv)"

text \<open>\<open>FD_SET\<close> writes outside the set for a descriptor that is not below \<open>FD_SETSIZE\<close>.\<close>

datatype io_err = Fd_set_overrun

definition mgx_select ::
  "(int \<Rightarrow> bool \<Rightarrow> bool \<Rightarrow> int \<times> bool \<times> bool) \<Rightarrow> int \<Rightarrow> bool \<Rightarrow> bool \<Rightarrow> int \<Rightarrow> io_err + int" where
  "mgx_select select fd rd wr timeout_ms =
     (let tv_usec = timeout_ms * 1000
      in if (rd \<or> wr) \<and> \<not> (0 \<le> fd \<and> fd < FD_SETSIZE) then Inl Fd_set_overrun
         else
           let (rv, isset_r, isset_w) = select tv_usec rd wr
           in if rv \<ge> 0
              then (let rv1 = (if rd \<and> isset_r then 0 OR MGX_READ else 0)
                    in Inr (if wr \<and> isset_w then rv1 OR MGX_WRITE else rv1))
              else Inr rv)"

lemma mgx_select_flags:
  assumes "0 \<le> fd" "fd < 1024" and "select (t * 1000) rd wr = (rv, r, w)" and "rv \<ge> 0"
  shows "mgx_select select fd rd wr t = Inr (of_bool (rd \<and> r) + 2 * of_bool (wr \<and> w))"
  using assms by (simp add: mgx_select_def Let_def FD_SETSIZE_def MGX_READ_def MGX_WRITE_def)

text \<open>\<open>mgx_poll\<close> asks for writability even when the caller does not.\<close>

lemma mgx_poll_read_only_reports_write:
  "mgx_poll (\<lambda>ev. (1, ev AND POLLOUT)) True False = MGX_WRITE"
  by (simp add: mgx_poll_def POLLIN_def POLLOUT_def)

section \<open>Reading files\<close>

datatype read_ret = Read_n bytes | Read_err errno

text \<open>
  A call asks for at most \<open>n\<close> bytes; what is left of a chunk is delivered by the next call. The
  address \<open>buf + off\<close> is the end of what has been stored.
\<close>

fun read_uninterrupt :: "nat \<Rightarrow> read_ret list \<Rightarrow> (int \<times> bytes \<times> read_ret list) option" where
  "read_uninterrupt n [] = None"
| "read_uninterrupt n (Read_err e # rs) = (if e = EINTR then read_uninterrupt n rs else Some (-1, [], rs))"
| "read_uninterrupt n (Read_n bs # rs) =
     Some (int (length (take n bs)), take n bs, if length bs \<le> n then rs else Read_n (drop n bs) # rs)"

lemma read_uninterrupt_length: "read_uninterrupt n rs = Some (k, bs, rs') \<Longrightarrow> k \<le> int (length bs)"
  by (induction n rs rule: read_uninterrupt.induct) (auto split: if_splits)

function must_read_loop :: "nat \<Rightarrow> bytes \<Rightarrow> read_ret list \<Rightarrow> (int \<times> bytes) option" where
  "must_read_loop sz buf rs =
     (if length buf < sz
      then (case read_uninterrupt (sz - length buf) rs of
              None \<Rightarrow> None
            | Some (read_size, bs, rs') \<Rightarrow>
                if read_size \<le> 0 then Some (read_size, buf) else must_read_loop sz (buf @ bs) rs')
      else Some (int (length buf), buf))"
  by pat_completeness auto
termination
  by (relation "measure (\<lambda>(sz, buf, rs). sz - length buf)") (auto dest!: read_uninterrupt_length)

declare must_read_loop.simps [simp del]

definition must_read :: "nat \<Rightarrow> read_ret list \<Rightarrow> (int \<times> bytes) option" where
  "must_read sz rs = must_read_loop sz [] rs"

definition get_file_size :: "int option \<Rightarrow> int" where
  "get_file_size fstat = (case fstat of None \<Rightarrow> -1 | Some st_size \<Rightarrow> st_size)"

definition read_file_all :: "string option \<Rightarrow> int \<times> string option" where
  "read_file_all file =
     (case file of None \<Rightarrow> (-1, None)
      | Some s \<Rightarrow> (0, Some (concat (map (\<lambda>tmp. tmp @ [LF]) (getlines s)))))"

text \<open>The data that a sequence of successful or interrupted reads delivers.\<close>

fun delivered_bytes :: "read_ret list \<Rightarrow> bytes" where
  "delivered_bytes [] = []"
| "delivered_bytes (Read_n bs # rs) = bs @ delivered_bytes rs"
| "delivered_bytes (Read_err e # rs) = delivered_bytes rs"

fun progress :: "read_ret list \<Rightarrow> bool" where
  "progress [] = True"
| "progress (Read_n bs # rs) = (bs \<noteq> [] \<and> progress rs)"
| "progress (Read_err e # rs) = (e = EINTR \<and> progress rs)"

lemma must_read_interrupted: "must_read_loop sz buf (Read_err EINTR # rs) = must_read_loop sz buf rs"
  by (subst (1 2) must_read_loop.simps) simp

lemma must_read_chunk:
  assumes "length buf < sz" and "bs \<noteq> []"
  shows "length buf + length bs \<le> sz \<Longrightarrow> must_read_loop sz buf (Read_n bs # rs) = must_read_loop sz (buf @ bs) rs"
    and "sz < length buf + length bs \<Longrightarrow>
      must_read_loop sz buf (Read_n bs # rs) = Some (int sz, buf @ take (sz - length buf) bs)"
proof -
  assume "length buf + length bs \<le> sz"
  then show "must_read_loop sz buf (Read_n bs # rs) = must_read_loop sz (buf @ bs) rs"
    using assms by (subst must_read_loop.simps) (auto simp: min_def)
next
  assume "sz < length buf + length bs"
  then show "must_read_loop sz buf (Read_n bs # rs) = Some (int sz, buf @ take (sz - length buf) bs)"
    using assms by (subst must_read_loop.simps) (auto simp: min_def must_read_loop.simps [of sz "buf @ x" for x])
qed

lemma must_read_prefix:
  "progress rs \<Longrightarrow> length buf + length (delivered_bytes rs) \<le> sz \<Longrightarrow>
   must_read_loop sz buf (rs @ rest) = must_read_loop sz (buf @ delivered_bytes rs) rest"
proof (induction rs arbitrary: buf rule: delivered_bytes.induct)
  case 1
  then show ?case by simp
next
  case (2 bs rs)
  then have "length buf < sz"
    by (cases bs) auto
  with 2 show ?case
    by (simp add: must_read_chunk)
next
  case (3 e rs)
  then show ?case
    by (simp add: must_read_interrupted)
qed

text \<open>More than enough data: the rest is not read.\<close>

lemma must_read_full:
  "progress rs \<Longrightarrow> length buf \<le> sz \<Longrightarrow> sz \<le> length buf + length (delivered_bytes rs) \<Longrightarrow>
   must_read_loop sz buf (rs @ rest) = Some (int sz, take sz (buf @ delivered_bytes rs))"
proof (induction rs arbitrary: buf rule: delivered_bytes.induct)
  case 1
  then show ?case by (simp add: must_read_loop.simps)
next
  case (2 bs rs)
  show ?case
  proof (cases "length buf < sz")
    case True
    then show ?thesis
      using 2 by (cases "length buf + length bs \<le> sz") (simp_all add: must_read_chunk)
  next
    case False
    with 2(3) show ?thesis by (simp add: must_read_loop.simps)
  qed
next
  case (3 e rs)
  then show ?case
    by (simp add: must_read_interrupted)
qed

lemma must_read_cases:
  assumes "progress rs"
  shows "sz \<le> length (delivered_bytes rs) \<Longrightarrow> must_read sz (rs @ rest) = Some (int sz, take sz (delivered_bytes rs))"
    and "length (delivered_bytes rs) < sz \<Longrightarrow> must_read sz (rs @ Read_n [] # rest) = Some (0, delivered_bytes rs)"
    and "length (delivered_bytes rs) < sz \<Longrightarrow> e \<noteq> EINTR \<Longrightarrow>
      must_read sz (rs @ Read_err e # rest) = Some (-1, delivered_bytes rs)"
  using must_read_prefix [OF assms, of "[]" sz] must_read_full [OF assms, of "[]" sz]
  by (simp_all add: must_read_def must_read_loop.simps)

lemma until_newline:
  assumes "LF \<notin> set l"
  shows "takeWhile (\<lambda>c. c \<noteq> LF) (l @ LF # d) = l" "dropWhile (\<lambda>c. c \<noteq> LF) (l @ LF # d) = LF # d"
    "takeWhile (\<lambda>c. c \<noteq> LF) l = l" "dropWhile (\<lambda>c. c \<noteq> LF) l = []"
  using assms by (induction l) auto

lemma getlines_no_newline: "LF \<notin> set l \<Longrightarrow> getlines l = (if l = [] then [] else [l])"
  by (subst getlines.simps, subst getlines.simps) (simp add: until_newline)

lemma getlines_line: "LF \<notin> set l \<Longrightarrow> getlines (l @ LF # d) = l # getlines d"
  by (subst getlines.simps) (simp add: until_newline)

lemma read_file_all_text:
  "concat (map (\<lambda>l. l @ [LF]) (getlines s)) = (if s = [] \<or> last s = LF then s else s @ [LF])"
proof (induction s rule: length_induct)
  case (1 s)
  show ?case
  proof (cases "LF \<in> set s")
    case False
    then have "s \<noteq> [] \<Longrightarrow> last s \<noteq> LF"
      using last_in_set by fastforce
    with False show ?thesis
      by (simp add: getlines_no_newline)
  next
    case True
    then obtain l d where s: "s = l @ LF # d" "LF \<notin> set l"
      by (meson split_list_first)
    then have "concat (map (\<lambda>l. l @ [LF]) (getlines d)) = (if d = [] \<or> last d = LF then d else d @ [LF])"
      using 1 by simp
    with s show ?thesis
      by (simp add: getlines_line)
  qed
qed

text \<open>
  C26: \<open>must_read\<close> assembles a file from short and interrupted reads. If the reads that make progress
  have at least the requested number of bytes, it returns that number and the buffer holds exactly
  these bytes in order, and none behind them. If the file ends early it returns 0, and on any other error -1; the bytes that
  arrived before are in the buffer but are not counted.
\<close>

theorem must_read_exact:
  assumes "progress rs"
  shows "(sz \<le> length (delivered_bytes rs) \<longrightarrow> must_read sz (rs @ rest) = Some (int sz, take sz (delivered_bytes rs))) \<and>
    (length (delivered_bytes rs) < sz \<longrightarrow>
       must_read sz (rs @ Read_n [] # rest) = Some (0, delivered_bytes rs) \<and>
       (e \<noteq> EINTR \<longrightarrow> must_read sz (rs @ Read_err e # rest) = Some (-1, delivered_bytes rs)))"
  using must_read_cases [OF assms] by blast

theorem must_read_exact_witness:
  "must_read 3 [Read_n [1, 2], Read_err EINTR, Read_n [3, 4]] = Some (3, [1, 2, 3])"
  using must_read_exact [of "[Read_n [1, 2], Read_err EINTR, Read_n [3, 4]]" 3 "[]" EAGAIN] by simp

end
