(* ===== verification/Mgx_Mysql.thy ===== *)
theory Mgx_Mysql
  imports Mgx_Conf
begin

text \<open>
  \<^verbatim>\<open>src/misc/mgx_mysql.cpp\<close> and \<^verbatim>\<open>src/include/mgx_mysql.h\<close>: the wrapper of the database client. The client
  library is not part of the repository: the record \<open>mysql_api\<close> holds what its calls return for a
  statement. A row is a list of columns, \<open>None\<close> for the SQL null.
\<close>

section \<open>State\<close>

definition MAX_SQL_SENTENCE_LENGTH :: nat where "MAX_SQL_SENTENCE_LENGTH = 1000"

type_synonym mysql_row = "string option list"

record mysql_api =
  api_connect :: bool
  api_query :: "string \<Rightarrow> bool"
  api_store :: "string \<Rightarrow> mysql_row list option"
  api_field_count :: "string \<Rightarrow> int"
  api_fields :: "string \<Rightarrow> string list"

text \<open>
  \<open>_res\<close>: null, the rows of a result set that have not been fetched (with all of its rows), or the
  object that \<open>query\<close> allocates when a statement has no result set; its members are not initialised.
\<close>

datatype mysql_res = Res_null | Res_set "mysql_row list" "mysql_row list" | Res_new

record mgx_mysql =
  my_state :: bool
  my_query :: string
  my_res :: mysql_res
  my_column :: "mysql_row option"
  excute_status :: int
  res_rows_num :: int
  field_num :: int
  my_log :: "string list"

datatype my_err = Query_overrun | Fields_overrun | Null_res | Null_row | Uninit_res | Int_overflow

section \<open>Operations\<close>

definition my_connect :: "mysql_api \<Rightarrow> mgx_mysql \<Rightarrow> bool \<times> mgx_mysql" where
  "my_connect api m =
     (if my_state m then (True, m)
      else if \<not> api_connect api then (False, m)
      else (True, m\<lparr> my_state := True \<rparr>))"

text \<open>The constructor; \<open>excute_status\<close> is not initialised.\<close>

definition Mgx_mysql :: "mysql_api \<Rightarrow> int \<Rightarrow> mgx_mysql" where
  "Mgx_mysql api junk =
     (snd (my_connect api \<lparr> my_state = False, my_query = [], my_res = Res_null, my_column = None,
        excute_status = junk, res_rows_num = 0, field_num = 0, my_log = [] \<rparr>))
       \<lparr> res_rows_num := 0, field_num := 0 \<rparr>"

text \<open>\<open>query\<close> returns whether its result is not null.\<close>

definition my_run_query :: "mysql_api \<Rightarrow> mgx_mysql \<Rightarrow> bool \<times> mgx_mysql" where
  "my_run_query api m =
     (if \<not> my_state m then (False, m)
      else if \<not> api_query api (my_query m) then (False, m)
      else
        let res = (case api_store api (my_query m) of None \<Rightarrow> Res_new | Some rows \<Rightarrow> Res_set rows rows)
        in (True, m\<lparr> my_res := res \<rparr>))"

definition get_res_row_num :: "mgx_mysql \<Rightarrow> my_err + int" where
  "get_res_row_num m =
     (case my_res m of Res_null \<Rightarrow> Inl Null_res | Res_set rest rows \<Rightarrow> Inr (int (length rows)) | Res_new \<Rightarrow> Inl Uninit_res)"

definition get_res_field_num :: "mysql_api \<Rightarrow> mgx_mysql \<Rightarrow> int" where
  "get_res_field_num api m = api_field_count api (my_query m)"

text \<open>\<open>excute_sql\<close>; \<open>sql\<close> is the text that \<open>sprintf\<close> produces.\<close>

definition excute_sql :: "mysql_api \<Rightarrow> string \<Rightarrow> mgx_mysql \<Rightarrow> my_err + mgx_mysql" where
  "excute_sql api sql m =
     (if length sql \<ge> MAX_SQL_SENTENCE_LENGTH then Inl Query_overrun
      else
        let (ok, m1) = my_run_query api (m\<lparr> excute_status := 0, res_rows_num := 0, field_num := 0, my_query := sql \<rparr>)
        in if ok
           then ebind (get_res_row_num m1) (\<lambda>n.
                  Inr (m1\<lparr> excute_status := 1, res_rows_num := n, field_num := get_res_field_num api m1 \<rparr>))
           else Inr (m1\<lparr> excute_status := 0, res_rows_num := 0, field_num := 0 \<rparr>))"

definition fetch_row :: "mgx_mysql \<Rightarrow> my_err + mgx_mysql" where
  "fetch_row m =
     (case my_res m of
        Res_null \<Rightarrow> Inl Null_res
      | Res_new \<Rightarrow> Inl Uninit_res
      | Res_set [] rows \<Rightarrow> Inr (m\<lparr> my_column := None \<rparr>)
      | Res_set (r # rest) rows \<Rightarrow> Inr (m\<lparr> my_column := Some r, my_res := Res_set rest rows \<rparr>))"

text \<open>\<open>_column[0]\<close>\<close>

definition first_column :: "mgx_mysql \<Rightarrow> my_err + string option" where
  "first_column m = (case my_column m of Some (c # cs) \<Rightarrow> Inr c | _ \<Rightarrow> Inl Null_row)"

definition get_row_request_of_str :: "mysql_api \<Rightarrow> string \<Rightarrow> mgx_mysql \<Rightarrow> my_err + (mysql_row option \<times> mgx_mysql)" where
  "get_row_request_of_str api sql m =
     ebind (excute_sql api sql m) (\<lambda>m1. ebind (fetch_row m1) (\<lambda>m2. Inr (my_column m2, m2)))"

definition get_one_request_of_str :: "mysql_api \<Rightarrow> string \<Rightarrow> mgx_mysql \<Rightarrow> my_err + (string option \<times> mgx_mysql)" where
  "get_one_request_of_str api sql m =
     ebind (excute_sql api sql m) (\<lambda>m1. ebind (fetch_row m1) (\<lambda>m2.
       ebind (first_column m2) (\<lambda>c. Inr (c, m2))))"

text \<open>\<open>atof\<close> is a parameter; its argument must not be null.\<close>

definition get_one_request_of_float ::
  "(string \<Rightarrow> 'f) \<Rightarrow> mysql_api \<Rightarrow> string \<Rightarrow> mgx_mysql \<Rightarrow> my_err + ('f \<times> mgx_mysql)" where
  "get_one_request_of_float atof api sql m =
     ebind (get_one_request_of_str api sql m) (\<lambda>(c, m1).
       case c of None \<Rightarrow> Inl Null_row | Some s \<Rightarrow> Inr (atof s, m1))"

text \<open>\<open>atoi\<close> returns 0 without digits and is undefined outside the range of \<open>int\<close>.\<close>

definition atoi :: "string \<Rightarrow> my_err + int" where
  "atoi s = (case stoi s of Inr i \<Rightarrow> Inr i | Inl Invalid_argument \<Rightarrow> Inr 0 | Inl Out_of_range \<Rightarrow> Inl Int_overflow)"

definition tag_id_sql :: "string \<Rightarrow> string" where
  "tag_id_sql c = ''SELECT id FROM '' @ c @ '' ORDER BY id DESC LIMIT 1''"

definition get_tag_id :: "mysql_api \<Rightarrow> string \<Rightarrow> mgx_mysql \<Rightarrow> my_err + (int \<times> mgx_mysql)" where
  "get_tag_id api c m =
     ebind (excute_sql api (tag_id_sql c) m) (\<lambda>m1.
     ebind (fetch_row m1) (\<lambda>m2.
       if my_column m2 = None then Inr (1, m2)
       else ebind (first_column m2) (\<lambda>col.
              case col of None \<Rightarrow> Inl Null_row
              | Some s \<Rightarrow> ebind (atoi s) (\<lambda>n. if n = 2 ^ 31 - 1 then Inl Int_overflow else Inr (n + 1, m2)))))"

text \<open>\<open>display__res\<close>: the field names, then every row that is left; a null column is printed through \<^verbatim>\<open>%s\<close>.\<close>

fun print_columns :: "nat \<Rightarrow> mysql_row \<Rightarrow> my_err + string list" where
  "print_columns 0 cs = Inr []"
| "print_columns (Suc n) [] = Inl Null_row"
| "print_columns (Suc n) (c # cs) =
     (case c of None \<Rightarrow> Inl Null_row | Some s \<Rightarrow> map_sum id (\<lambda>ss. s # ss) (print_columns n cs))"

fun print_rows :: "nat \<Rightarrow> mysql_row list \<Rightarrow> my_err + string list" where
  "print_rows n [] = Inr []"
| "print_rows n (r # rs) = ebind (print_columns n r) (\<lambda>ss. map_sum id (\<lambda>ts. ss @ ts) (print_rows n rs))"

definition display_res :: "mysql_api \<Rightarrow> mgx_mysql \<Rightarrow> my_err + mgx_mysql" where
  "display_res api m =
     (let n = nat (field_num m)
      in if n > MAX_SQL_SENTENCE_LENGTH then Inl Fields_overrun
         else if length (api_fields api (my_query m)) < n then Inl Null_res
         else case my_res m of
                Res_null \<Rightarrow> Inl Null_res
              | Res_new \<Rightarrow> Inl Uninit_res
              | Res_set rest rows \<Rightarrow>
                  ebind (print_rows n rest) (\<lambda>ss.
                    Inr (m\<lparr> my_log := my_log m @ take n (api_fields api (my_query m)) @ ss,
                            my_res := Res_set [] rows, my_column := None \<rparr>)))"

definition query_table :: "mysql_api \<Rightarrow> string \<Rightarrow> mgx_mysql \<Rightarrow> my_err + mgx_mysql" where
  "query_table api table m =
     ebind (if table = ''app_produce_data''
            then excute_sql api (''select * from '' @ table @ '' WHERE is_delete = 0'') m
            else excute_sql api (''select * from '' @ table) m)
       (display_res api)"

section \<open>Facts\<close>

lemma excute_sql_result:
  assumes "length sql < 1000" and "my_state m" and "api_query api sql" and "api_store api sql = Some rows"
  shows "\<exists>m'. excute_sql api sql m = Inr m' \<and> excute_status m' = 1 \<and> my_res m' = Res_set rows rows \<and>
    res_rows_num m' = int (length rows) \<and> my_state m'"
  using assms by (simp add: excute_sql_def my_run_query_def get_res_row_num_def MAX_SQL_SENTENCE_LENGTH_def)

text \<open>
  What the client library promises for a table it can read: the statement succeeds, all rows
  have as many columns as there are fields, and no column is null.
\<close>

definition table_ok :: "mysql_api \<Rightarrow> string \<Rightarrow> mgx_mysql \<Rightarrow> bool" where
  "table_ok api sql m \<longleftrightarrow> my_state m \<and> api_query api sql \<and>
     (case api_store api sql of None \<Rightarrow> False
      | Some rows \<Rightarrow> \<forall>r \<in> set rows. length r = length (api_fields api sql) \<and> None \<notin> set r) \<and>
     api_field_count api sql = int (length (api_fields api sql)) \<and>
     length (api_fields api sql) \<le> MAX_SQL_SENTENCE_LENGTH"

lemma print_columns_all: "None \<notin> set r \<Longrightarrow> print_columns (length r) r = Inr (map the r)"
proof (induction r)
  case (Cons a r)
  then show ?case by (cases a) auto
qed simp

lemma print_rows_all:
  "\<forall>r \<in> set rows. length r = n \<and> None \<notin> set r \<Longrightarrow> print_rows n rows = Inr (concat (map (map the) rows))"
  by (induction rows) (use print_columns_all in auto)

text \<open>Printing a table logs the names of its fields and then every column of every row.\<close>

lemma query_table_returns:
  assumes "table_ok api (''select * from '' @ table) m" and "table \<noteq> ''app_produce_data''" and "length table < 900"
  shows "\<exists>m' rows. api_store api (''select * from '' @ table) = Some rows \<and> query_table api table m = Inr m' \<and>
    my_log m' = my_log m @ api_fields api (''select * from '' @ table) @ concat (map (map the) rows)"
  using assms
  by (auto simp: table_ok_def query_table_def excute_sql_def my_run_query_def get_res_row_num_def Let_def
      get_res_field_num_def display_res_def print_rows_all MAX_SQL_SENTENCE_LENGTH_def split: option.splits)

text \<open>If the connection to the database failed, the first query of a table reads a null result set.\<close>

lemma query_table_unconnected:
  assumes "\<not> api_connect api" and "length table < 900"
  shows "query_table api table (Mgx_mysql api junk) = Inl Null_res"
  using assms
  by (simp add: Mgx_mysql_def my_connect_def query_table_def excute_sql_def my_run_query_def display_res_def
      MAX_SQL_SENTENCE_LENGTH_def)

definition demo_db_api :: mysql_api where
  "demo_db_api = \<lparr> api_connect = True, api_query = (\<lambda>_. True), api_store = (\<lambda>_. Some [[Some ''1'', Some ''Ann'']]),
     api_field_count = (\<lambda>_. 2), api_fields = (\<lambda>_. [''id'', ''name'']) \<rparr>"

lemma demo_db_ok: "table_ok demo_db_api sql (Mgx_mysql demo_db_api 0)"
  by (simp add: table_ok_def demo_db_api_def Mgx_mysql_def my_connect_def MAX_SQL_SENTENCE_LENGTH_def)

text \<open>A statement without result set, such as an update, makes \<open>excute_sql\<close> read the uninitialised object.\<close>

lemma excute_sql_update_reads_garbage:
  assumes "length sql < 1000" and "my_state m" and "api_query api sql" and "api_store api sql = None"
  shows "excute_sql api sql m = Inl Uninit_res"
  using assms by (simp add: excute_sql_def my_run_query_def get_res_row_num_def MAX_SQL_SENTENCE_LENGTH_def)

text \<open>After a failed statement the readers return data of the previous result set.\<close>

lemma failed_query_reads_stale_row:
  assumes "length sql < 1000" and "\<not> api_query api sql" and "my_res m = Res_set ((c # cs) # rest) rows"
  shows "\<exists>m'. get_one_request_of_str api sql m = Inr (c, m')"
  using assms
  by (simp add: get_one_request_of_str_def excute_sql_def my_run_query_def fetch_row_def first_column_def
      MAX_SQL_SENTENCE_LENGTH_def)

text \<open>\<open>get_tag_id\<close> is one more than the largest identifier, and 1 for an empty table.\<close>

lemma get_tag_id_next:
  assumes "sql = tag_id_sql c" and "length sql < 1000"
    and "my_state m" and "api_query api sql" and "api_store api sql = Some rows"
    and "rows = [] \<or> (\<exists>cs rest. rows = (Some (int_str i) # cs) # rest \<and> - (2 ^ 31) \<le> i \<and> i < 2 ^ 31 - 1)"
  shows "\<exists>m'. get_tag_id api c m = Inr (if rows = [] then 1 else i + 1, m')"
proof -
  obtain m1 where m1: "excute_sql api sql m = Inr m1" "my_res m1 = Res_set rows rows"
    using excute_sql_result [OF assms(2-5)] by blast
  show ?thesis
  proof (cases "rows = []")
    case True
    with m1 show ?thesis
      by (simp add: get_tag_id_def assms(1) [symmetric] fetch_row_def)
  next
    case False
    with assms(6) obtain cs rest where r: "rows = (Some (int_str i) # cs) # rest" "- (2 ^ 31) \<le> i" "i < 2 ^ 31 - 1"
      by blast
    then have "atoi (int_str i) = Inr i"
      by (simp add: atoi_def stoi_int_str)
    with m1 r show ?thesis
      by (simp add: get_tag_id_def assms(1) [symmetric] fetch_row_def first_column_def)
  qed
qed

end
