(* ===== verification/Mgx_Http.thy ===== *)
theory Mgx_Http
  imports Mgx_Send Mgx_Io Mgx_Mysql
begin

text \<open>
  \<^verbatim>\<open>src/http/mgx_http_socket.cpp\<close> (the build with \<open>USE_HTTP\<close>): reading and parsing a request in
  the event loop, and answering it in a worker. The kernel's receive queue is a character list
  together with what \<open>recv\<close> reports when it is empty. Undefined behaviour and uncaught
  exceptions are error values.
\<close>

section \<open>Values\<close>

definition CR :: char where "CR = CHR 0x0D"
definition CRLF :: string where "CRLF = [CR, LF]"

definition METHOD_GET :: u32 where "METHOD_GET = 1"
definition METHOD_POST :: u32 where "METHOD_POST = 3"

definition RECV_BUF_SIZE :: nat where "RECV_BUF_SIZE = 8192"

datatype http_err =
    Recv_buf_overflow        \<comment> \<open>store behind the end of \<open>recv_buf\<close>\<close>
  | Heap_overflow            \<comment> \<open>store behind the end of the body buffer\<close>
  | Null_deref
  | Bad_url_len              \<comment> \<open>negative length of the URI\<close>
  | Stoi_exn stoi_err
  | No_status                \<comment> \<open>a response without a status line\<close>
  | Read_blocked             \<comment> \<open>the file is still being read\<close>
  | Db_error my_err

definition bytes_of :: "string \<Rightarrow> bytes" where
  "bytes_of s = map (\<lambda>c. word_of_nat (of_char c)) s"

text \<open>The kernel's side of the connection; \<open>None\<close> means that the peer has shut down.\<close>

record kern =
  k_data :: string
  k_end :: "errno option"

definition end_ret :: "kern \<Rightarrow> recv_ret" where
  "end_ret k = (case k_end k of None \<Rightarrow> Recv_n [] | Some e \<Rightarrow> Recv_err e)"

text \<open>C string: the characters up to the first zero.\<close>

definition c_str :: "string \<Rightarrow> string" where
  "c_str s = takeWhile (\<lambda>c. c \<noteq> NUL) s"

section \<open>Reading the request\<close>

text \<open>
  The loops read one character at a time. \<open>Scan_more\<close>: the queue ran empty in the middle;
  \<open>Scan_over\<close>: \<open>recv_buf[len++]\<close> stored behind the array.
\<close>

datatype scan = Scan_done string string | Scan_more | Scan_over

fun scan_line :: "string \<Rightarrow> string \<Rightarrow> scan" where
  "scan_line acc [] = Scan_more"
| "scan_line acc (ch # d) =
     (if ch = CR then
        (case d of
           [] \<Rightarrow> Scan_more
         | ch2 # d2 \<Rightarrow>
             if ch2 = LF then Scan_done acc d2
             else if length acc + 2 > RECV_BUF_SIZE then Scan_over
             else scan_line (acc @ [CR, ch2]) d2)
      else if length acc + 1 > RECV_BUF_SIZE then Scan_over
      else scan_line (acc @ [ch]) d)"

text \<open>
  The head ends at a second line break, which the code looks for with \<open>MSG_PEEK\<close> into a buffer
  of two characters and \<open>strcmp\<close>. If the two characters are a line break, \<open>strcmp\<close> goes on to
  read the memory byte \<open>junk\<close> behind the buffer; the number counts these bad reads.
\<close>

fun scan_head :: "char \<Rightarrow> nat \<Rightarrow> string \<Rightarrow> string \<Rightarrow> scan \<times> nat" where
  "scan_head junk n acc [] = (Scan_more, n)"
| "scan_head junk n acc (ch # d) =
     (if ch = CR then
        (case d of
           [] \<Rightarrow> (Scan_more, n)
         | ch2 # d2 \<Rightarrow>
             if ch2 = LF then
               let n' = (if take 2 d2 = CRLF then Suc n else n)
               in if take 2 d2 = CRLF \<and> junk = NUL then (Scan_done acc (drop 2 d2), n')
                  else if length acc + 1 > RECV_BUF_SIZE then (Scan_over, n')
                  else scan_head junk n' (acc @ [LF]) d2
             else if length acc + 2 > RECV_BUF_SIZE then (Scan_over, n)
             else scan_head junk n (acc @ [CR, ch2]) d2)
      else if length acc + 1 > RECV_BUF_SIZE then (Scan_over, n)
      else scan_head junk n (acc @ [ch]) d)"

text \<open>
  Result of a reading function: the text, or the value it returns early (which is never
  positive), or an error; with the queue and the socket afterwards.
\<close>

datatype 'a rd = Rd_done 'a | Rd_ret int | Rd_err http_err

definition finish_scan :: "int \<Rightarrow> conn_ptr \<Rightarrow> scan \<Rightarrow> kern \<Rightarrow> mgx_socket \<Rightarrow> string rd \<times> kern \<times> mgx_socket" where
  "finish_scan now c r k s =
     (case r of
        Scan_done t rest \<Rightarrow> (Rd_done t, k\<lparr> k_data := rest \<rparr>, s)
      | Scan_more \<Rightarrow> (let (n, s') = recv_process now c (end_ret k) s in (Rd_ret n, k\<lparr> k_data := [] \<rparr>, s'))
      | Scan_over \<Rightarrow> (Rd_err Recv_buf_overflow, k, s))"

definition http_read_request_line ::
  "int \<Rightarrow> conn_ptr \<Rightarrow> kern \<Rightarrow> mgx_socket \<Rightarrow> string rd \<times> kern \<times> mgx_socket" where
  "http_read_request_line now c k s = finish_scan now c (scan_line [] (k_data k)) k s"

definition http_read_request_head ::
  "int \<Rightarrow> char \<Rightarrow> conn_ptr \<Rightarrow> kern \<Rightarrow> mgx_socket \<Rightarrow> string rd \<times> kern \<times> mgx_socket" where
  "http_read_request_head now junk c k s =
     (let (r, n) = scan_head junk 0 [] (k_data k) in finish_scan now c r k ((raise_fault Out_of_bounds ^^ n) s))"

section \<open>Parsing\<close>

definition starts_with :: "string \<Rightarrow> string \<Rightarrow> bool" where
  "starts_with p s \<longleftrightarrow> take (length p) s = p"

fun strstr :: "string \<Rightarrow> string \<Rightarrow> nat option" where
  "strstr [] p = (if p = [] then Some 0 else None)"
| "strstr (c # s) p = (if starts_with p (c # s) then Some 0 else map_option Suc (strstr s p))"

text \<open>\<open>None\<close> is the result \<open>false\<close>; otherwise the method and the URI.\<close>

definition http_parse_request_line :: "string \<Rightarrow> http_err + (u32 \<times> string) option" where
  "http_parse_request_line request_line =
     (let line = c_str request_line;
          method = (if starts_with ''GET'' line then Some (''GET'', METHOD_GET)
                    else if starts_with ''POST'' line then Some (''POST'', METHOD_POST) else None)
      in case method of
           None \<Rightarrow> Inr None
         | Some (mstr, m) \<Rightarrow>
             (case strstr line ''HTTP/'' of
                None \<Rightarrow> Inl Null_deref
              | Some p \<Rightarrow>
                  let url_len = int p - int (length mstr) - 2
                  in if url_len < 0 then Inl Bad_url_len
                     else Inr (Some (m, take (nat url_len) (drop (length mstr + 1) line)))))"

text \<open>\<open>strtok\<close> with the two line break characters as delimiters.\<close>

definition is_delim :: "char \<Rightarrow> bool" where
  "is_delim c \<longleftrightarrow> c = CR \<or> c = LF"

function strtok_all :: "string \<Rightarrow> string list" where
  "strtok_all s =
     (let s1 = dropWhile is_delim s
      in if s1 = [] then []
         else takeWhile (\<lambda>c. \<not> is_delim c) s1 # strtok_all (dropWhile (\<lambda>c. \<not> is_delim c) s1))"
  by pat_completeness auto
termination
proof (relation "measure length")
  fix s s1 :: string
  assume s1: "s1 = dropWhile is_delim s" "s1 \<noteq> []"
  have "\<not> is_delim (hd s1)" using s1 hd_dropWhile [of is_delim s] by simp
  with s1(2) obtain x xs where x: "s1 = x # xs" "\<not> is_delim x" by (cases s1) auto
  have "length (dropWhile (\<lambda>c. \<not> is_delim c) s1) \<le> length xs"
    using length_dropWhile_le [of "\<lambda>c. \<not> is_delim c" xs] x by simp
  moreover have "length s1 \<le> length s" unfolding s1(1) by (rule length_dropWhile_le)
  ultimately show "(dropWhile (\<lambda>c. \<not> is_delim c) s1, s) \<in> measure length" using x(1) by simp
qed simp

declare strtok_all.simps [simp del]

type_synonym headers = "string \<rightharpoonup> string"

definition header_line :: "string \<Rightarrow> headers \<Rightarrow> headers" where
  "header_line line hs =
     (let key = takeWhile (\<lambda>c. c \<noteq> CHR '':'') line;
          val = (if CHR '':'' \<in> set line then drop (Suc (length key)) line else [])
      in hs(strim key \<mapsto> strim val))"

definition http_parse_request_head :: "string \<Rightarrow> headers" where
  "http_parse_request_head head = foldl (\<lambda>hs l. header_line l hs) Map.empty (strtok_all (c_str head))"

text \<open>
  The body: \<open>content_len\<close> is the header value converted to an unsigned 32-bit number, the buffer
  has \<open>content_len + 1\<close> bytes in that arithmetic. \<open>Rd_done None\<close>: no body is announced.
\<close>

definition http_read_request_body ::
  "int \<Rightarrow> headers \<Rightarrow> conn_ptr \<Rightarrow> kern \<Rightarrow> mgx_socket \<Rightarrow> string option rd \<times> kern \<times> mgx_socket" where
  "http_read_request_body now hs c k s =
     (case hs ''Content-Length'' of
        None \<Rightarrow> (Rd_done None, k, s)
      | Some v \<Rightarrow>
          (case stoi v of
             Inl e \<Rightarrow> (Rd_err (Stoi_exn e), k, s)
           | Inr i \<Rightarrow>
               (let content_len = (word_of_int i :: u32);
                    alloc = unat (content_len + 1);
                    got = take (unat content_len) (k_data k);
                    k1 = k\<lparr> k_data := drop (unat content_len) (k_data k) \<rparr>
                in if content_len = 0 then (Rd_ret 0, k, s)
                   else if length got > alloc then (Rd_err Heap_overflow, k1, s)
                   else if length got < unat content_len then
                     (let (n, s') = recv_process now c (end_ret k) s in (Rd_ret n, k1, s'))
                   else (Rd_done (Some got), k1, s))))"

section \<open>The read handler\<close>

record http_env =
  he_now :: int
  he_addr :: addr
  he_junk :: char

definition queue_request ::
  "http_env \<Rightarrow> conn_ptr \<Rightarrow> u32 \<Rightarrow> string \<Rightarrow> string option \<Rightarrow> worker \<Rightarrow> http_err + worker" where
  "queue_request e c m uri body w =
     (let n = (case body of None \<Rightarrow> 0 | Some b \<Rightarrow> length (c_str b));
          hdr = \<lparr> mh_pconn = c, mh_cur_seq = m_cur_seq (wconn w c), mh_http_method = m, mh_uri = Some uri \<rparr>
      in case (if m = METHOD_POST then
                 (case body of None \<Rightarrow> Inl Null_deref | Some b \<Rightarrow> Inr (bytes_of (c_str b) @ [0]))
               else Inr (replicate (n + 1) 0)) of
           Inl err \<Rightarrow> Inl err
         | Inr data \<Rightarrow>
             Inr (upd_wconn c (\<lambda>k. k\<lparr> precv_mem_addr := None \<rparr>)
               (w\<lparr> wk_sock := new_buf (he_addr e) \<lparr> buf_hdr = hdr, buf_data = data \<rparr> (wk_sock w),
                   wk_pool := insert_msg_to_queue_and_signal (he_now e) (he_addr e) (wk_pool w) \<rparr>)))"

definition http_read_request_handler ::
  "http_env \<Rightarrow> conn_ptr \<Rightarrow> kern \<Rightarrow> worker \<Rightarrow> http_err + (kern \<times> worker)" where
  "http_read_request_handler e c k w =
     (case http_read_request_line (he_now e) c k (wk_sock w) of
        (Rd_err err, _, _) \<Rightarrow> Inl err
      | (Rd_ret _, k1, s1) \<Rightarrow> Inr (k1, w\<lparr> wk_sock := s1 \<rparr>)
      | (Rd_done line, k1, s1) \<Rightarrow>
          if line = [] then Inr (k1, w\<lparr> wk_sock := s1 \<rparr>)
          else
            (case http_parse_request_line line of
               Inl err \<Rightarrow> Inl err
             | Inr None \<Rightarrow> Inr (k1, w\<lparr> wk_sock := s1 \<rparr>)
             | Inr (Some (m, uri)) \<Rightarrow>
                 (case http_read_request_head (he_now e) (he_junk e) c k1 s1 of
                    (Rd_err err, _, _) \<Rightarrow> Inl err
                  | (Rd_ret _, k2, s2) \<Rightarrow> Inr (k2, w\<lparr> wk_sock := s2 \<rparr>)
                  | (Rd_done head, k2, s2) \<Rightarrow>
                      if head = [] then Inr (k2, w\<lparr> wk_sock := s2 \<rparr>)
                      else
                        (case http_read_request_body (he_now e) (http_parse_request_head head) c k2 s2 of
                           (Rd_err err, _, _) \<Rightarrow> Inl err
                         | (Rd_ret _, k3, s3) \<Rightarrow> Inr (k3, w\<lparr> wk_sock := s3 \<rparr>)
                         | (Rd_done body, k3, s3) \<Rightarrow>
                             map_sum id (\<lambda>w'. (k3, w'))
                               (queue_request e c m uri body (w\<lparr> wk_sock := s3 \<rparr>))))))"

section \<open>Answering a request\<close>

definition m_mime_types :: "(string \<times> string) list" where
  "m_mime_types =
     [(''.html'', ''text/html''), (''.htm'', ''text/html''), (''.xml'', ''text/xml''), (''.txt'', ''text/plain''),
      (''.css'', ''text/css''), (''.js'', ''application/javascript''), (''.json'', ''application/json''),
      (''.zip'', ''application/zip''), (''.jpeg'', ''image/jpeg''), (''.jpg'', ''image/jpeg''),
      (''.png'', ''image/png''), (''.gif'', ''image/gif''), (''.ico'', ''image/x-icon''), (''.bmp'', ''image/x-ms-bmp'')]"

text \<open>\<open>m_mime_types[extension]\<close>: an unknown extension yields a null pointer.\<close>

definition get_mime_type :: "string \<Rightarrow> string option" where
  "get_mime_type extension = map_of m_mime_types extension"

text \<open>
  The pointer walks back from the end of the path to a dot or to the start; \<open>get_ext_loop path p\<close>
  is its final position when it is at \<open>p\<close>.
\<close>

fun get_ext_loop :: "string \<Rightarrow> nat \<Rightarrow> nat" where
  "get_ext_loop path 0 = 0"
| "get_ext_loop path (Suc p) =
     (if Suc p < length path \<and> path ! Suc p = CHR ''.'' then Suc p else get_ext_loop path p)"

definition get_extension :: "string \<Rightarrow> string" where
  "get_extension path =
     (let p = get_ext_loop path (length path) in if p \<noteq> 0 then drop p path else ''.html'')"

definition status_lines :: "(nat \<times> string) list" where
  "status_lines =
     [
      (200, ''200 OK''),
      (201, ''201 Created''),
      (202, ''202 Acceptedd''),
      (203, ''203 Non-Authoritative Information''),
      (204, ''204 No Content''),
      (205, ''205 Reset Content''),
      (206, ''206 Partial Content''),
      (207, ''207 Multi-Status''),
      (300, ''300 Multiple Choices''),
      (301, ''301 Moved Permanently''),
      (302, ''302 Moved Temporarily''),
      (303, ''303 See Other''),
      (304, ''304 Not Modified''),
      (305, ''305 Use Proxy''),
      (306, ''306 unused''),
      (307, ''307 Temporary Redirect''),
      (308, ''308 Permanent Redirect''),
      (400, ''400 Bad Request''),
      (401, ''401 Unauthorized''),
      (402, ''402 Payment Required''),
      (403, ''403 Forbidden''),
      (404, ''404 Not Found''),
      (405, ''405 Not Allowed''),
      (406, ''406 Not Acceptable''),
      (407, ''407 Proxy Authentication Required''),
      (408, ''408 Request Time-out''),
      (409, ''409 Conflict''),
      (410, ''410 Gone''),
      (411, ''411 Length Required''),
      (412, ''412 Precondition Failed''),
      (413, ''413 Request Entity Too Large''),
      (414, ''414 Request-URI Too Large''),
      (415, ''415 Unsupported Media Type''),
      (416, ''416 Requested Range Not Satisfiable''),
      (417, ''417 Expectation Failed''),
      (418, ''418 unused''),
      (419, ''419 unused''),
      (420, ''420 unused''),
      (421, ''421 Misdirected Request''),
      (422, ''422 Unprocessable Entity''),
      (423, ''423 Locked''),
      (424, ''424 Failed Dependency''),
      (425, ''425 unused''),
      (426, ''426 Upgrade Required''),
      (427, ''427 unused''),
      (428, ''428 Precondition Required''),
      (429, ''429 Too Many Requests''),
      (500, ''500 Internal Server Error''),
      (501, ''501 Not Implemented''),
      (502, ''502 Bad Gateway''),
      (503, ''503 Service Temporarily Unavailable''),
      (504, ''504 Gateway Time-out''),
      (505, ''505 HTTP Version Not Supported''),
      (506, ''506 Variant Also Negotiates''),
      (507, ''507 Insufficient Storage''),
      (508, ''508 unused''),
      (509, ''509 unused''),
      (510, ''510 Not Extended'')]"

definition HTTP_STATUS_LINE :: "nat \<Rightarrow> string" where
  "HTTP_STATUS_LINE code = (case map_of status_lines code of Some l \<Rightarrow> l | None \<Rightarrow> [])"

definition status_200 :: string where "status_200 = ''HTTP/1.1 '' @ HTTP_STATUS_LINE 200"
definition status_404 :: string where "status_404 = ''HTTP/1.1 '' @ HTTP_STATUS_LINE 404"

lemma status_200_eq: "status_200 = ''HTTP/1.1 200 OK''"
  and status_404_eq: "status_404 = ''HTTP/1.1 404 Not Found''"
  by (simp_all add: status_200_def status_404_def HTTP_STATUS_LINE_def status_lines_def)

text \<open>Every line of the table begins with its code.\<close>

lemma status_lines_codes:
  "\<forall>(code, l) \<in> set status_lines. take 4 l = int_str (int code) @ '' ''"
  by code_simp

text \<open>The constructor: where the files are, and the table of types.\<close>

definition DEFAULT_INDEX_PATH :: string where "DEFAULT_INDEX_PATH = ''./html/''"

record mgx_http_socket =
  m_index_path :: string
  mime_types :: "(string \<times> string) list"

definition Mgx_http_socket :: "configs \<Rightarrow> mgx_http_socket" where
  "Mgx_http_socket cfg =
     \<lparr> m_index_path = get_string ''IndexPath'' DEFAULT_INDEX_PATH cfg, mime_types = m_mime_types \<rparr>"

record http_response =
  hs_status :: string
  hs_headers :: headers
  hs_body :: string

text \<open>
  \<open>http_write_response\<close>. \<open>order\<close> is the iteration order of the header table. The body is appended
  as a C string.
\<close>

definition response_text :: "string list \<Rightarrow> http_response \<Rightarrow> string" where
  "response_text order res =
     (let st = hs_status res;
          line = (if take 2 (drop (length st - 3) st) \<noteq> CRLF then st @ CRLF else st)
      in line @ concat (map (\<lambda>k. k @ '': '' @ the (hs_headers res k) @ CRLF) order) @ CRLF @ c_str (hs_body res))"

definition http_write_response ::
  "addr \<Rightarrow> string list \<Rightarrow> http_response \<Rightarrow> mgx_msg_hdr \<Rightarrow> mgx_socket \<Rightarrow> mgx_socket" where
  "http_write_response a order res hdr s =
     send_msg a (new_buf a \<lparr> buf_hdr = hdr, buf_data = bytes_of (response_text order res) @ [0] \<rparr> s)"

text \<open>A file of the server: missing, or opened, with the result of \<open>fstat\<close> and the results of \<open>read\<close>.\<close>

datatype file_res = File_missing | File_open "int option" "read_ret list"

text \<open>The zero-initialised response buffer after \<open>must_read\<close> has stored \<open>bs\<close>, without its terminator.\<close>

definition filled_body :: "nat \<Rightarrow> bytes \<Rightarrow> string" where
  "filled_body file_size bs = map (\<lambda>x. char_of (unat x)) bs @ replicate (file_size - length bs) NUL"

definition base_headers :: headers where
  "base_headers = [''Server'' \<mapsto> ''Mgx http server'', ''Connection'' \<mapsto> ''keep-alive'']"

definition with_body :: "string \<Rightarrow> string \<Rightarrow> string \<Rightarrow> http_response" where
  "with_body st mime body =
     \<lparr> hs_status = st,
       hs_headers = base_headers(''Content-Type'' \<mapsto> mime, ''Content-Length'' \<mapsto> int_str (int (length body))),
       hs_body = body \<rparr>"

text \<open>The response to a message; \<open>Inr None\<close> is the jump to \<open>out\<close> without an answer.\<close>

definition make_response ::
  "string \<Rightarrow> (string \<Rightarrow> file_res) \<Rightarrow> string option \<Rightarrow> mgx_buf \<Rightarrow> http_err + http_response option" where
  "make_response index_path fs page404 b =
     (let m = mh_http_method (buf_hdr b); uri = (case mh_uri (buf_hdr b) of None \<Rightarrow> [] | Some u \<Rightarrow> u)
      in if m = METHOD_GET then
           (case fs (index_path @ uri @ (if uri = ''/'' then ''index.html'' else [])) of
              File_open stat reads \<Rightarrow>
                let file_size = get_file_size stat
                in if file_size < 0 then Inr None
                   else (case get_mime_type (get_extension uri) of
                           None \<Rightarrow> Inl Null_deref
                         | Some mime \<Rightarrow>
                             (case must_read (nat file_size) reads of
                                None \<Rightarrow> Inl Read_blocked
                              | Some (ret, bs) \<Rightarrow>
                                  if ret < 0 then Inr None
                                  else Inr (Some (with_body status_200 mime (filled_body (nat file_size) bs)))))
            | File_missing \<Rightarrow>
                let res_body = (if uri = ''/favicon.ico'' then []
                                else case snd (read_file_all page404) of None \<Rightarrow> [] | Some t \<Rightarrow> t)
                in Inr (Some (with_body status_404 ''text/html; charset=UTF-8'' res_body)))
         else if m = METHOD_POST then
           Inr (Some (with_body status_200 ''application/json''
             (map (\<lambda>x. char_of (unat x)) (takeWhile (\<lambda>x. x \<noteq> 0) (buf_data b)))))
         else Inl No_status)"

text \<open>
  The worker's handler: the response is built, the table is queried through the database object
  \<open>db\<close> of the connection, and the answer is queued.
\<close>

definition http_th_msg_process_func ::
  "mysql_api \<Rightarrow> string \<Rightarrow> (string \<Rightarrow> file_res) \<Rightarrow> string option \<Rightarrow> string list \<Rightarrow> addr \<Rightarrow> addr \<Rightarrow>
   mgx_mysql \<Rightarrow> mgx_socket \<Rightarrow> http_err + (mgx_mysql \<times> mgx_socket)" where
  "http_th_msg_process_func api index_path fs page404 order a' a db s =
     (case bufs s a of
        None \<Rightarrow> Inr (db, raise_fault Bad_deref s)
      | Some b \<Rightarrow>
          (case make_response index_path fs page404 b of
             Inl e \<Rightarrow> Inl e
           | Inr None \<Rightarrow> Inr (db, s)
           | Inr (Some res) \<Rightarrow>
               if \<not> c_sql (conns s (mh_pconn (buf_hdr b))) then Inl Null_deref
               else (case query_table api ''student'' db of
                       Inl e \<Rightarrow> Inl (Db_error e)
                     | Inr db' \<Rightarrow> Inr (db', http_write_response a' order res (buf_hdr b) s))))"

section \<open>Scanning well-formed text\<close>

lemma CR_LF [simp]: "CR \<noteq> LF" "LF \<noteq> CR" "CR \<noteq> NUL" "LF \<noteq> NUL" "NUL \<noteq> LF" "NUL \<noteq> CR"
  by (simp_all add: CR_def LF_def NUL_def)

lemma scan_line_plain:
  "CR \<notin> set l \<Longrightarrow> length acc + length l \<le> RECV_BUF_SIZE \<Longrightarrow> scan_line acc (l @ d) = scan_line (acc @ l) d"
  by (induction l arbitrary: acc) auto

lemma scan_line_text:
  "CR \<notin> set l \<Longrightarrow> length l \<le> RECV_BUF_SIZE \<Longrightarrow> scan_line [] (l @ CRLF @ rest) = Scan_done l rest"
  using scan_line_plain [of l "[]" "CRLF @ rest"] by (simp add: CRLF_def)

lemma scan_head_plain:
  "CR \<notin> set l \<Longrightarrow> length acc + length l \<le> RECV_BUF_SIZE \<Longrightarrow> scan_head junk n acc (l @ d) = scan_head junk n (acc @ l) d"
  by (induction l arbitrary: acc) auto

text \<open>If the byte behind the buffer is not zero, the end of the head is never found.\<close>

lemma scan_head_junk: "junk \<noteq> NUL \<Longrightarrow> fst (scan_head junk n acc d) \<in> {Scan_more, Scan_over}"
  by (induction junk n acc d rule: scan_head.induct) (auto simp: Let_def split: list.split)

text \<open>Lines as they are collected: the carriage returns are dropped, the last line has no end.\<close>

fun join_lines :: "string list \<Rightarrow> string" where
  "join_lines [] = []"
| "join_lines [l] = l"
| "join_lines (l # l2 # ls) = l @ LF # join_lines (l2 # ls)"

lemma scan_head_lines:
  assumes "ls \<noteq> []" and "\<forall>l \<in> set ls. l \<noteq> [] \<and> CR \<notin> set l"
    and "length acc + length (join_lines ls) \<le> RECV_BUF_SIZE"
  shows "scan_head NUL n acc (concat (map (\<lambda>l. l @ CRLF) ls) @ CRLF @ rest) = (Scan_done (acc @ join_lines ls) rest, Suc n)"
  using assms
proof (induction ls arbitrary: acc rule: join_lines.induct)
  case 1
  then show ?case by simp
next
  case (2 l)
  then show ?case
    using scan_head_plain [of l acc NUL n "CRLF @ CRLF @ rest"] by (simp add: CRLF_def)
next
  case (3 l l2 ls)
  let ?d = "concat (map (\<lambda>l. l @ CRLF) (l2 # ls)) @ CRLF @ rest"
  obtain x xs where l2: "l2 = x # xs" "x \<noteq> CR" using 3(3) by (cases l2) auto
  have "scan_head NUL n acc (l @ CRLF @ ?d) = scan_head NUL n (acc @ l) (CRLF @ ?d)"
    by (rule scan_head_plain) (use 3(3,4) in auto)
  also have "\<dots> = scan_head NUL n ((acc @ l) @ [LF]) ?d"
    using l2 3(4) by (simp add: CRLF_def)
  also have "\<dots> = (Scan_done (((acc @ l) @ [LF]) @ join_lines (l2 # ls)) rest, Suc n)"
    by (rule 3(1)) (use 3(3,4) in auto)
  finally show ?case by simp
qed

lemma strtok_all_skip: "is_delim c \<Longrightarrow> strtok_all (c # s) = strtok_all s"
  by (simp add: strtok_all.simps [of "c # s"] strtok_all.simps [of s])

lemma strtok_all_token:
  assumes "l \<noteq> []" and "\<forall>c \<in> set l. \<not> is_delim c"
  shows "strtok_all l = [l]" and "is_delim d \<Longrightarrow> strtok_all (l @ d # s) = l # strtok_all s"
proof -
  obtain x xs where l: "l = x # xs" "\<not> is_delim x" using assms by (cases l) auto
  have tw: "takeWhile (\<lambda>c. \<not> is_delim c) l = l" "dropWhile (\<lambda>c. \<not> is_delim c) l = []"
    using assms(2) by (simp_all add: takeWhile_eq_all_conv)
  have nil: "strtok_all [] = []" by (simp add: strtok_all.simps)
  have "dropWhile is_delim l = l" using l by simp
  then show "strtok_all l = [l]"
    using assms(1) by (subst strtok_all.simps) (simp add: Let_def tw nil)
  assume d: "is_delim d"
  have "takeWhile (\<lambda>c. \<not> is_delim c) (l @ d # s) = l" "dropWhile (\<lambda>c. \<not> is_delim c) (l @ d # s) = d # s"
    using assms(2) d by (auto simp: takeWhile_append dropWhile_append)
  moreover have "dropWhile is_delim (l @ d # s) = l @ d # s" using l by simp
  ultimately show "strtok_all (l @ d # s) = l # strtok_all s"
    using assms(1) strtok_all_skip [OF d, of s] by (subst strtok_all.simps) (simp add: Let_def)
qed

lemma strtok_all_join:
  "ls \<noteq> [] \<Longrightarrow> \<forall>l \<in> set ls. l \<noteq> [] \<and> (\<forall>c \<in> set l. \<not> is_delim c) \<Longrightarrow> strtok_all (join_lines ls) = ls"
  by (induction ls rule: join_lines.induct) (simp_all add: strtok_all_token is_delim_def)

section \<open>Well-formed requests\<close>

lemma strstr_after_space:
  assumes "p \<noteq> []" and "space \<notin> set p" and "strstr a p = None"
  shows "strstr (a @ space # b) p = map_option (\<lambda>i. length a + Suc i) (strstr b p)"
  using assms(3)
proof (induction a)
  case Nil
  have "\<not> starts_with p (space # b)"
    using assms(1,2) by (cases p) (auto simp: starts_with_def)
  then show ?case by (simp add: option.map_comp comp_def)
next
  case (Cons x a)
  have "\<not> starts_with p (x # a @ space # b)"
  proof
    assume "starts_with p (x # a @ space # b)"
    then have eq: "take (length p) ((x # a) @ space # b) = p" by (simp add: starts_with_def)
    show False
    proof (cases "length p \<le> length (x # a)")
      case True
      then have "take (length p) ((x # a) @ space # b) = take (length p) (x # a)"
        unfolding take_append by simp
      with eq have "starts_with p (x # a)" unfolding starts_with_def by metis
      with Cons.prems show False by simp
    next
      case False
      then have "space \<in> set (take (length p) ((x # a) @ space # b))"
        unfolding take_append by (cases "length p - length (x # a)") auto
      with eq assms(2) show False by simp
    qed
  qed
  then show ?case
    using Cons by (cases "strstr b p") (auto split: if_splits)
qed

record request =
  rq_method :: string
  rq_uri :: string
  rq_headers :: "(string \<times> string) list"
  rq_body :: string

definition header_text :: "string \<times> string \<Rightarrow> string" where
  "header_text kv = fst kv @ '': '' @ snd kv"

definition request_text :: "request \<Rightarrow> string" where
  "request_text r =
     (rq_method r @ space # rq_uri r @ space # ''HTTP/1.1'') @ CRLF @
     concat (map (\<lambda>l. l @ CRLF) (map header_text (rq_headers r))) @ CRLF @ rq_body r"

definition plain_text :: "string \<Rightarrow> bool" where
  "plain_text s \<longleftrightarrow> CR \<notin> set s \<and> LF \<notin> set s \<and> NUL \<notin> set s"

definition header_ok :: "string \<times> string \<Rightarrow> bool" where
  "header_ok kv \<longleftrightarrow>
     trimmed (fst kv) \<and> trimmed (snd kv) \<and> CHR '':'' \<notin> set (fst kv) \<and> plain_text (fst kv) \<and> plain_text (snd kv)"

text \<open>
  A request the server is meant to handle: a GET request announces no body, a POST request
  announces the length of its non-empty body; line and head fit into the receive buffer.
\<close>

definition request_ok :: "request \<Rightarrow> bool" where
  "request_ok r \<longleftrightarrow>
     plain_text (rq_uri r) \<and> strstr (rq_uri r) ''HTTP/'' = None \<and> length (rq_uri r) + 14 \<le> RECV_BUF_SIZE \<and>
     rq_headers r \<noteq> [] \<and> (\<forall>kv \<in> set (rq_headers r). header_ok kv) \<and>
     length (join_lines (map header_text (rq_headers r))) \<le> RECV_BUF_SIZE \<and>
     (rq_method r = ''GET'' \<and> rq_body r = [] \<and> ''Content-Length'' \<notin> fst ` set (rq_headers r) \<or>
      rq_method r = ''POST'' \<and> rq_body r \<noteq> [] \<and> NUL \<notin> set (rq_body r) \<and> length (rq_body r) < 2 ^ 31 \<and>
      map_of (rev (rq_headers r)) ''Content-Length'' = Some (int_str (int (length (rq_body r)))))"

definition method_code :: "string \<Rightarrow> u32" where
  "method_code m = (if m = ''GET'' then METHOD_GET else METHOD_POST)"

lemma c_str_plain: "NUL \<notin> set s \<Longrightarrow> c_str s = s"
  by (auto simp: c_str_def takeWhile_eq_all_conv)

lemma parse_line_ok:
  assumes "request_ok r"
  shows "http_parse_request_line (rq_method r @ space # rq_uri r @ space # ''HTTP/1.1'') =
    Inr (Some (method_code (rq_method r), rq_uri r))"
proof -
  let ?m = "rq_method r" and ?p = "''HTTP/''"
  have m: "?m = ''GET'' \<or> ?m = ''POST''" and u: "NUL \<notin> set (rq_uri r)" "strstr (rq_uri r) ?p = None"
    using assms by (auto simp: request_ok_def plain_text_def)
  have c: "c_str (?m @ space # rq_uri r @ space # ''HTTP/1.1'') = ?m @ space # rq_uri r @ space # ''HTTP/1.1''"
    by (rule c_str_plain) (use m u(1) in \<open>auto simp: NUL_def\<close>)
  have sp: "space \<notin> set ?p" by simp
  have "strstr (rq_uri r @ space # ''HTTP/1.1'') ?p = Some (length (rq_uri r) + 1)"
    using strstr_after_space [OF _ sp u(2), of "''HTTP/1.1''"] by (simp add: starts_with_def)
  moreover have "strstr ?m ?p = None" using m by (auto simp: starts_with_def)
  ultimately have "strstr (?m @ space # rq_uri r @ space # ''HTTP/1.1'') ?p =
      Some (length ?m + Suc (length (rq_uri r) + 1))"
    using strstr_after_space [OF _ sp, of ?m "rq_uri r @ space # ''HTTP/1.1''"] by simp
  with m show ?thesis
    by (auto simp: http_parse_request_line_def Let_def c starts_with_def method_code_def)
qed

lemma header_line_ok:
  assumes "header_ok kv"
  shows "header_line (header_text kv) hs = hs(fst kv \<mapsto> snd kv)"
proof -
  obtain k v where kv: "kv = (k, v)" by (cases kv)
  have "takeWhile (\<lambda>c. c \<noteq> CHR '':'') (k @ '': '' @ v) = k"
    using assms kv by (auto simp: header_ok_def takeWhile_append)
  moreover have "strim k = k" "strim (space # v) = v"
    using strim_pad [of k 0 0] strim_pad [of v 1 0] assms kv by (simp_all add: header_ok_def trimmed_def)
  ultimately show ?thesis
    by (simp add: header_line_def header_text_def kv Let_def)
qed

lemma parse_head_ok:
  assumes "hs \<noteq> []" and "\<forall>kv \<in> set hs. header_ok kv"
  shows "http_parse_request_head (join_lines (map header_text hs)) = map_of (rev hs)"
proof -
  have line: "header_text kv \<noteq> [] \<and> (\<forall>c \<in> set (header_text kv). \<not> is_delim c \<and> c \<noteq> NUL)" if "kv \<in> set hs" for kv
    using assms(2) that by (auto simp: header_ok_def header_text_def plain_text_def is_delim_def CR_def LF_def NUL_def)
  have "NUL \<notin> set (join_lines ls)" if "\<forall>l \<in> set ls. NUL \<notin> set l" for ls
    using that by (induction ls rule: join_lines.induct) auto
  moreover have "\<forall>l \<in> set (map header_text hs). NUL \<notin> set l" using line by fastforce
  ultimately have "c_str (join_lines (map header_text hs)) = join_lines (map header_text hs)"
    by (intro c_str_plain) blast
  moreover have "strtok_all (join_lines (map header_text hs)) = map header_text hs"
    by (rule strtok_all_join) (use assms(1) line in auto)
  moreover have "foldl (\<lambda>m l. header_line l m) m (map header_text hs) = m ++ map_of (rev hs)" for m
    using assms(2)
  proof (induction hs arbitrary: m)
    case Nil
    then show ?case by simp
  next
    case (Cons kv hs)
    then show ?case by (cases kv) (simp add: header_line_ok map_add_def fun_eq_iff split: option.split)
  qed
  ultimately show ?thesis by (simp add: http_parse_request_head_def)
qed

section \<open>Reading a complete request\<close>

lemma http_read_body_complete:
  assumes ok: "request_ok r"
  shows "http_read_request_body now (map_of (rev (rq_headers r))) c (k\<lparr> k_data := rq_body r @ rest \<rparr>) s =
    (Rd_done (if rq_method r = ''GET'' then None else Some (rq_body r)), k\<lparr> k_data := rest \<rparr>, s)"
proof (cases "rq_method r = ''GET''")
  case True
  then have "map_of (rev (rq_headers r)) ''Content-Length'' = None" "rq_body r = []"
    using ok by (auto simp: request_ok_def map_of_eq_None_iff)
  with True show ?thesis by (simp add: http_read_request_body_def)
next
  case False
  then have cl: "map_of (rev (rq_headers r)) ''Content-Length'' = Some (int_str (int (length (rq_body r))))"
    and n: "length (rq_body r) < 2 ^ 31" "rq_body r \<noteq> []"
    using ok by (auto simp: request_ok_def)
  have "unat (word_of_nat (length (rq_body r)) :: u32) = length (rq_body r)"
    "unat (word_of_nat (Suc (length (rq_body r))) :: u32) = Suc (length (rq_body r))"
    using n(1) by (simp_all add: unat_word_of_nat_id del: of_nat_Suc)
  moreover have "(word_of_nat (length (rq_body r)) :: u32) \<noteq> 0"
    using calculation(1) n(2) by auto
  moreover have "(word_of_nat (length (rq_body r)) + 1 :: u32) = word_of_nat (Suc (length (rq_body r)))"
    by simp
  ultimately show ?thesis
    using n False stoi_int_str [of "int (length (rq_body r))"]
    by (simp add: http_read_request_body_def cl Let_def del: of_nat_Suc)
qed

lemma http_read_complete:
  assumes ok: "request_ok r" and k: "k_data k = request_text r @ rest"
  shows "he_junk e = NUL \<Longrightarrow> http_read_request_handler e c k w =
    map_sum id (\<lambda>w'. (k\<lparr> k_data := rest \<rparr>, w'))
      (queue_request e c (method_code (rq_method r)) (rq_uri r)
        (if rq_method r = ''GET'' then None else Some (rq_body r))
        (w\<lparr> wk_sock := raise_fault Out_of_bounds (wk_sock w) \<rparr>))"
    and "he_junk e \<noteq> NUL \<Longrightarrow> case http_read_request_handler e c k w of
        Inl err \<Rightarrow> err = Recv_buf_overflow
      | Inr (k', w') \<Rightarrow> k_data k' = [] \<and> wk_pool w' = wk_pool w"
proof -
  let ?line = "rq_method r @ space # rq_uri r @ space # ''HTTP/1.1''"
  let ?hs = "map header_text (rq_headers r)"
  define k1 where "k1 = k\<lparr> k_data := concat (map (\<lambda>l. l @ CRLF) ?hs) @ CRLF @ rq_body r @ rest \<rparr>"
  define line where "line = ?line"
  have m: "rq_method r = ''GET'' \<or> rq_method r = ''POST''" using ok by (auto simp: request_ok_def)
  have lines: "\<forall>l \<in> set ?hs. l \<noteq> [] \<and> CR \<notin> set l"
    using ok by (auto simp: request_ok_def header_ok_def plain_text_def header_text_def CR_def)
  have "CR \<notin> set ?line" "length ?line \<le> RECV_BUF_SIZE"
    using ok m by (auto simp: request_ok_def plain_text_def CR_def RECV_BUF_SIZE_def)
  then have l: "http_read_request_line (he_now e) c k (wk_sock w) = (Rd_done line, k1, wk_sock w)"
    using scan_line_text [of ?line] by (simp add: http_read_request_line_def finish_scan_def k request_text_def k1_def line_def)
  have "?hs \<noteq> []" "length (join_lines ?hs) \<le> RECV_BUF_SIZE" using ok by (simp_all add: request_ok_def)
  with lines have h: "http_read_request_head (he_now e) NUL c k1 (wk_sock w) =
      (Rd_done (join_lines ?hs), k\<lparr> k_data := rq_body r @ rest \<rparr>, raise_fault Out_of_bounds (wk_sock w))"
    using scan_head_lines [of ?hs "[]" 0 "rq_body r @ rest"]
    by (simp add: http_read_request_head_def finish_scan_def k1_def)
  have ph: "http_parse_request_head (join_lines ?hs) = map_of (rev (rq_headers r))"
    by (rule parse_head_ok) (use ok in \<open>simp_all add: request_ok_def\<close>)
  have ne: "join_lines ?hs \<noteq> []"
    using lines \<open>?hs \<noteq> []\<close> by (cases ?hs rule: join_lines.cases) auto
  note b = http_read_body_complete [OF ok, of "he_now e" c rest k "raise_fault Out_of_bounds (wk_sock w)"]
  have p: "line \<noteq> []" "http_parse_request_line line = Inr (Some (method_code (rq_method r), rq_uri r))"
    using parse_line_ok [OF ok] by (simp_all add: line_def)
  show "http_read_request_handler e c k w = map_sum id (\<lambda>w'. (k\<lparr> k_data := rest \<rparr>, w'))
      (queue_request e c (method_code (rq_method r)) (rq_uri r)
        (if rq_method r = ''GET'' then None else Some (rq_body r))
        (w\<lparr> wk_sock := raise_fault Out_of_bounds (wk_sock w) \<rparr>))" if "he_junk e = NUL"
    unfolding http_read_request_handler_def l using p by (simp add: that h ph ne b)
  show "case http_read_request_handler e c k w of
        Inl err \<Rightarrow> err = Recv_buf_overflow
      | Inr (k', w') \<Rightarrow> k_data k' = [] \<and> wk_pool w' = wk_pool w" if "he_junk e \<noteq> NUL"
  proof -
    obtain sc n where sc: "scan_head (he_junk e) 0 [] (k_data k1) = (sc, n)" by fastforce
    obtain m s' where m: "recv_process (he_now e) c (end_ret k1) ((raise_fault Out_of_bounds ^^ n) (wk_sock w)) = (m, s')"
      by fastforce
    from scan_head_junk [OF that, of 0 "[]" "k_data k1"] sc have "sc = Scan_more \<or> sc = Scan_over" by simp
    then show ?thesis
      unfolding http_read_request_handler_def l using p sc m
      by (auto simp: http_read_request_head_def finish_scan_def)
  qed
qed

text \<open>The message that a request becomes.\<close>

definition request_buf :: "conn_ptr \<Rightarrow> u64 \<Rightarrow> request \<Rightarrow> mgx_buf" where
  "request_buf c seq r = \<lparr>
     buf_hdr = \<lparr> mh_pconn = c, mh_cur_seq = seq, mh_http_method = method_code (rq_method r), mh_uri = Some (rq_uri r) \<rparr>,
     buf_data = bytes_of (rq_body r) @ [0] \<rparr>"

lemma http_request_queued:
  assumes "request_ok r" and "k_data k = request_text r @ rest" and "he_junk e = NUL"
  shows "http_read_request_handler e c k w = Inr (k\<lparr> k_data := rest \<rparr>,
    upd_wconn c (\<lambda>k. k\<lparr> precv_mem_addr := None \<rparr>)
      (w\<lparr> wk_sock := new_buf (he_addr e) (request_buf c (m_cur_seq (wconn w c)) r) (raise_fault Out_of_bounds (wk_sock w)),
          wk_pool := insert_msg_to_queue_and_signal (he_now e) (he_addr e) (wk_pool w) \<rparr>))"
proof -
  have "NUL \<notin> set (rq_body r)" "rq_method r = ''GET'' \<Longrightarrow> rq_body r = []"
    using assms(1) by (auto simp: request_ok_def)
  then show ?thesis
    by (auto simp: http_read_complete(1) [OF assms] queue_request_def request_buf_def Let_def method_code_def
        METHOD_GET_def METHOD_POST_def c_str_plain bytes_of_def raise_fault_def)
qed

section \<open>Properties\<close>

text \<open>
  C34: request round trip. Let the complete text of a well-formed GET or POST request be in the
  receive queue. At the end of the head the handler reads the byte behind its two-byte peek buffer,
  which is a bad access, and what follows depends on that byte. If it is zero, the handler
  consumes exactly the text of the request, queues one message, which carries the connection, its
  sequence number, the method, the URI and, as a C string, the body, and there is no other bad access.
  If it is not zero, the handler misses the end of the head: it queues nothing and consumes the
  whole receive queue, or it overflows the receive buffer.
\<close>

theorem http_request_roundtrip:
  assumes "request_ok r" and "k_data k = request_text r @ rest"
  shows "(he_junk e = NUL \<longrightarrow> (\<exists>w'. http_read_request_handler e c k w = Inr (k\<lparr> k_data := rest \<rparr>, w') \<and>
      m_msg_queue (wk_pool w') = m_msg_queue (wk_pool w) @ [he_addr e] \<and>
      bufs (wk_sock w') (he_addr e) = Some \<lparr>
        buf_hdr = \<lparr> mh_pconn = c, mh_cur_seq = m_cur_seq (wconn w c), mh_http_method = method_code (rq_method r),
                    mh_uri = Some (rq_uri r) \<rparr>,
        buf_data = bytes_of (rq_body r) @ [0] \<rparr> \<and>
      faults (wk_sock w') = Out_of_bounds # faults (wk_sock w))) \<and>
    (he_junk e \<noteq> NUL \<longrightarrow> (case http_read_request_handler e c k w of
        Inl err \<Rightarrow> err = Recv_buf_overflow
      | Inr (k', w') \<Rightarrow> k_data k' = [] \<and> wk_pool w' = wk_pool w))"
proof (intro conjI impI)
  assume "he_junk e = NUL"
  from http_request_queued [OF assms this] show "\<exists>w'. http_read_request_handler e c k w = Inr (k\<lparr> k_data := rest \<rparr>, w') \<and>
      m_msg_queue (wk_pool w') = m_msg_queue (wk_pool w) @ [he_addr e] \<and>
      bufs (wk_sock w') (he_addr e) = Some \<lparr>
        buf_hdr = \<lparr> mh_pconn = c, mh_cur_seq = m_cur_seq (wconn w c), mh_http_method = method_code (rq_method r),
                    mh_uri = Some (rq_uri r) \<rparr>,
        buf_data = bytes_of (rq_body r) @ [0] \<rparr> \<and>
      faults (wk_sock w') = Out_of_bounds # faults (wk_sock w)"
    by (simp add: request_buf_def upd_wconn_def upd_conn_def new_buf_def raise_fault_def)
qed (rule http_read_complete(2) [OF assms])

definition demo_request :: request where
  "demo_request = \<lparr> rq_method = ''POST'', rq_uri = ''/echo'',
     rq_headers = [(''Host'', ''x''), (''Content-Length'', ''2'')], rq_body = ''hi'' \<rparr>"

lemma demo_request_ok: "request_ok demo_request"
proof -
  have "int_str 2 = ''2''" by code_simp
  then show ?thesis
    by (simp add: request_ok_def demo_request_def plain_text_def header_ok_def trimmed_def header_text_def
        starts_with_def RECV_BUF_SIZE_def CR_def LF_def NUL_def)
qed

theorem http_request_roundtrip_witness:
  "(\<exists>w'. http_read_request_handler \<lparr> he_now = 1, he_addr = 64, he_junk = NUL \<rparr> 16
      \<lparr> k_data = request_text demo_request @ [], k_end = Some EAGAIN \<rparr> demo_worker =
    Inr (\<lparr> k_data = [], k_end = Some EAGAIN \<rparr>, w') \<and>
    m_msg_queue (wk_pool w') = m_msg_queue (wk_pool demo_worker) @ [64]) \<and>
   (case http_read_request_handler \<lparr> he_now = 1, he_addr = 64, he_junk = LF \<rparr> 16
      \<lparr> k_data = request_text demo_request @ [], k_end = Some EAGAIN \<rparr> demo_worker of
      Inl err \<Rightarrow> err = Recv_buf_overflow
    | Inr (k', w') \<Rightarrow> k_data k' = [] \<and> wk_pool w' = wk_pool demo_worker)"
  using http_request_roundtrip [OF demo_request_ok,
      of "\<lparr> k_data = request_text demo_request @ [], k_end = Some EAGAIN \<rparr>" "[]"
         "\<lparr> he_now = 1, he_addr = 64, he_junk = NUL \<rparr>" 16 demo_worker]
    http_request_roundtrip [OF demo_request_ok,
      of "\<lparr> k_data = request_text demo_request @ [], k_end = Some EAGAIN \<rparr>" "[]"
         "\<lparr> he_now = 1, he_addr = 64, he_junk = LF \<rparr>" 16 demo_worker]
  by auto

text \<open>A text without zero bytes is sent completely.\<close>

lemma payload_bytes_of:
  assumes "NUL \<notin> set s"
  shows "payload True \<lparr> buf_hdr = h, buf_data = bytes_of s @ [0] \<rparr> = bytes_of s"
proof -
  have "(word_of_nat (of_char c) :: byte) \<noteq> 0" if "c \<in> set s" for c
  proof
    assume "(word_of_nat (of_char c) :: byte) = 0"
    moreover have "(of_char c :: nat) < 2 ^ 8" using nat_of_char_less_256 [of c] by simp
    ultimately have "(of_char c :: nat) = 0"
      using unat_word_of_nat_id [where ?'a = 8, of "of_char c"] by simp
    then have "(of_char c :: nat) = of_char NUL" by (simp add: NUL_def)
    then have "c = NUL" by simp
    with assms that show False by simp
  qed
  then show ?thesis
    by (auto simp: payload_def bytes_of_def takeWhile_append)
qed

lemma int_str_plain: "NUL \<notin> set (int_str i)"
proof -
  have "digit_char d \<noteq> NUL" if "d < 10" for d
    using digit_char_props(1) [OF that] by (auto simp: is_digit_def NUL_def)
  then have "NUL \<notin> digit_char ` set (base_digits 10 (nat \<bar>i\<bar>))" using base_digits_less [of 10] by fastforce
  then show ?thesis by (simp add: int_str_def) (simp add: NUL_def)
qed

lemma mime_plain: "get_mime_type x = Some mime \<Longrightarrow> NUL \<notin> set mime"
proof -
  assume "get_mime_type x = Some mime"
  then have "(x, mime) \<in> set m_mime_types" by (simp add: get_mime_type_def map_of_SomeD)
  moreover have "\<forall>kv \<in> set m_mime_types. NUL \<notin> set (snd kv)" by (simp add: m_mime_types_def NUL_def)
  ultimately show ?thesis by fastforce
qed

text \<open>
  The text of an answer: status line, the four headers in the order of the hash table, empty line,
  content. The announced length is the length of the content.
\<close>

definition reply_headers :: "string \<Rightarrow> string \<Rightarrow> (string \<times> string) list" where
  "reply_headers mime content =
     [(''Server'', ''Mgx http server''), (''Connection'', ''keep-alive''), (''Content-Type'', mime),
      (''Content-Length'', int_str (int (length content)))]"

definition header_order :: "string list \<Rightarrow> bool" where
  "header_order order \<longleftrightarrow> distinct order \<and> set order = {''Server'', ''Connection'', ''Content-Type'', ''Content-Length''}"

definition reply_text :: "string list \<Rightarrow> string \<Rightarrow> string \<Rightarrow> string \<Rightarrow> string" where
  "reply_text order st mime content = st @ CRLF @
     concat (map (\<lambda>k. k @ '': '' @ the (map_of (reply_headers mime content) k) @ CRLF) order) @
     CRLF @ content"

lemma with_body_headers:
  "header_order order \<Longrightarrow> k \<in> set order \<Longrightarrow>
   hs_headers (with_body st mime content) k = map_of (reply_headers mime content) k"
  by (auto simp: header_order_def with_body_def base_headers_def reply_headers_def)

lemma response_text_plain:
  assumes "st \<in> {status_200, status_404}" and "header_order order" and "NUL \<notin> set mime" and "NUL \<notin> set body"
  shows "NUL \<notin> set (response_text order (with_body st mime body))"
    and "response_text order (with_body st mime body) = reply_text order st mime body"
proof -
  have line: "take 2 (drop (length st - 3) st) \<noteq> CRLF"
    using assms(1) by (auto simp: status_200_eq status_404_eq CRLF_def CR_def LF_def)
  have "hs_status (with_body st mime body) = st" "hs_body (with_body st mime body) = body"
    by (simp_all add: with_body_def)
  then show eq: "response_text order (with_body st mime body) = reply_text order st mime body"
    using assms(4) line with_body_headers [OF assms(2)] unfolding response_text_def reply_text_def
    by (simp add: Let_def c_str_plain cong: map_cong)
  have "NUL \<notin> set k \<and> NUL \<notin> set (the (map_of (reply_headers mime body) k))" if "k \<in> set order" for k
    using that assms(2,3) int_str_plain
    by (auto simp: header_order_def reply_headers_def NUL_def)
  then show "NUL \<notin> set (response_text order (with_body st mime body))"
    using assms(1,4) unfolding eq reply_text_def
    by (auto simp: status_200_eq status_404_eq CRLF_def CR_def LF_def NUL_def)
qed

lemma length_bytes_of [simp]: "length (bytes_of s) = length s"
  and bytes_of_eq_Nil: "bytes_of s = [] \<longleftrightarrow> s = []"
  by (simp_all add: bytes_of_def)

lemma bytes_of_inverse: "map (\<lambda>x. char_of (unat x)) (bytes_of s) = s"
proof -
  have "unat (word_of_nat (of_char c) :: 8 word) = of_char c" for c :: char
    by (simp add: unat_of_nat take_bit_nat_eq_self)
  then show ?thesis by (simp add: bytes_of_def comp_def)
qed

text \<open>The extension of a path: from its last dot on, if that is not the first character.\<close>

definition extension_of :: "string \<Rightarrow> string" where
  "extension_of path =
     (if CHR ''.'' \<in> set (tl path) then CHR ''.'' # rev (takeWhile (\<lambda>c. c \<noteq> CHR ''.'') (rev path)) else ''.html'')"

lemma get_ext_loop_plain:
  "\<forall>i. p < i \<longrightarrow> i \<le> q \<longrightarrow> \<not> (i < length path \<and> path ! i = CHR ''.'') \<Longrightarrow> p \<le> q \<Longrightarrow>
   get_ext_loop path q = get_ext_loop path p"
proof (induction q)
  case (Suc q)
  then show ?case by (cases "p = Suc q") auto
qed simp

lemma get_extension_spec: "get_extension path = extension_of path"
proof (cases "CHR ''.'' \<in> set (tl path)")
  case False
  then have "\<not> (i < length path \<and> path ! i = CHR ''.'')" if "0 < i" for i
    using that by (cases path) (auto simp: nth_Cons in_set_conv_nth split: nat.splits)
  then have "get_ext_loop path (length path) = get_ext_loop path 0"
    by (intro get_ext_loop_plain) auto
  with False show ?thesis by (simp add: get_extension_def extension_of_def)
next
  case True
  then obtain a b where ab: "tl path = a @ CHR ''.'' # b" "CHR ''.'' \<notin> set b" by (meson split_list_last)
  then obtain x where x: "path = x # a @ CHR ''.'' # b" by (cases path) auto
  have "path ! i \<noteq> CHR ''.''" if "Suc (length a) < i" "i < length path" for i
  proof -
    have "i = length a + 2 + (i - (length a + 2))" using that(1) by linarith
    then obtain j where "i = length a + 2 + j" by blast
    with that(2) have "path ! i = b ! j" "j < length b" by (simp_all add: x nth_append)
    with ab(2) nth_mem show ?thesis by metis
  qed
  then have "get_ext_loop path (length path) = get_ext_loop path (Suc (length a))"
    by (intro get_ext_loop_plain) (auto simp: x)
  also have "\<dots> = Suc (length a)" by (simp add: x)
  finally have "get_extension path = drop (Suc (length a)) path" by (simp add: get_extension_def)
  then have "get_extension path = CHR ''.'' # b" by (simp add: x)
  moreover have "takeWhile (\<lambda>c. c \<noteq> CHR ''.'') (rev path) = rev b"
    using ab(2) by (subst x) (auto simp: takeWhile_append)
  ultimately show ?thesis using True by (simp add: extension_of_def)
qed

text \<open>
  What a request is meant to be answered with: status line, type and content. A file is found by its
  path and must be readable and of a known type; where there is none the error page is given; a
  POST request is answered by its own body.
\<close>

definition answer_to ::
  "string \<Rightarrow> (string \<Rightarrow> file_res) \<Rightarrow> string option \<Rightarrow> request \<Rightarrow> (string \<times> string \<times> string) option" where
  "answer_to index_path fs page404 r =
     (if rq_method r = ''GET'' then
        (case fs (index_path @ (if rq_uri r = ''/'' then ''/index.html'' else rq_uri r)) of
           File_open stat reads \<Rightarrow>
             if progress reads \<and> stat = Some (int (length (delivered_bytes reads)))
             then map_option (\<lambda>mime. (''HTTP/1.1 200 OK'', mime, map (\<lambda>x. char_of (unat x)) (delivered_bytes reads)))
               (map_of m_mime_types (extension_of (rq_uri r)))
             else None
         | File_missing \<Rightarrow>
             Some (''HTTP/1.1 404 Not Found'', ''text/html; charset=UTF-8'',
               if rq_uri r = ''/favicon.ico'' then []
               else (case page404 of None \<Rightarrow> [] | Some t \<Rightarrow> if t = [] \<or> last t = LF then t else t @ [LF])))
      else Some (''HTTP/1.1 200 OK'', ''application/json'', rq_body r))"

lemma http_get_answer:
  assumes "bufs s a = Some b" and "mh_http_method (buf_hdr b) = METHOD_GET" and "mh_uri (buf_hdr b) = Some uri"
    and "fs (index_path @ uri @ (if uri = ''/'' then ''index.html'' else [])) =
      File_open (Some (int (length content))) reads"
    and "progress reads" and "delivered_bytes reads = bytes_of content"
    and "table_ok api ''select * from student'' db"
    and "get_mime_type (get_extension uri) = Some mime"
    and "c_sql (conns s (mh_pconn (buf_hdr b)))"
  shows "\<exists>db'. http_th_msg_process_func api index_path fs page404 order a' a db s =
    Inr (db', http_write_response a' order (with_body status_200 mime content) (buf_hdr b) s)"
proof -
  let ?res = "with_body status_200 mime content"
  have read: "must_read (length content) reads = Some (int (length content), bytes_of content)"
    using must_read_cases(1) [OF assms(5), of "length content" "[]"] assms(6) by (simp add: bytes_of_def)
  then have "make_response index_path fs page404 b = Inr (Some ?res)"
    using assms(2-4,8) by (simp add: make_response_def Let_def get_file_size_def filled_body_def bytes_of_inverse)
  moreover obtain db' where "query_table api ''student'' db = Inr db'"
    using query_table_returns [of api "''student''" db] assms(7) by auto
  ultimately show ?thesis
    using assms(1,9) by (simp add: http_th_msg_process_func_def)
qed

lemma reply_text_sent:
  assumes "st \<in> {status_200, status_404}" and "header_order order" and "NUL \<notin> set mime" and "NUL \<notin> set content"
  shows "payload True \<lparr> buf_hdr = h,
      buf_data = bytes_of (response_text order (with_body st mime content)) @ [0] \<rparr> =
    bytes_of (reply_text order st mime content)"
  using response_text_plain [OF assms] payload_bytes_of by simp

lemma answer_to_plain:
  assumes "answer_to index_path fs page404 r = Some (st, mime, content)"
  shows "st \<in> {status_200, status_404}" and "NUL \<notin> set mime"
  using assms mime_plain [of "extension_of (rq_uri r)" mime]
  by (auto simp: answer_to_def NUL_def get_mime_type_def status_200_eq status_404_eq split: if_splits file_res.splits)

text \<open>The handler builds the answer and queues it.\<close>

lemma make_response_answer:
  assumes "request_ok r" and "answer_to index_path fs page404 r = Some (st, mime, content)"
  shows "make_response index_path fs page404 (request_buf c seq r) = Inr (Some (with_body st mime content))"
proof (cases "rq_method r = ''GET''")
  case True
  let ?f = "fs (index_path @ rq_uri r @ (if rq_uri r = ''/'' then ''index.html'' else []))"
  have path: "rq_uri r @ (if rq_uri r = ''/'' then ''index.html'' else []) =
      (if rq_uri r = ''/'' then ''/index.html'' else rq_uri r)" by simp
  show ?thesis
  proof (cases ?f)
    case File_missing
    with True assms(2) show ?thesis
      unfolding make_response_def answer_to_def path
      by (auto simp: request_buf_def method_code_def Let_def path status_404_eq read_file_all_def read_file_all_text
          split: option.splits)
  next
    case (File_open stat reads)
    let ?n = "length (delivered_bytes reads)"
    have p: "progress reads" "stat = Some (int ?n)" and st: "st = status_200"
      "get_mime_type (get_extension (rq_uri r)) = Some mime" "content = map (\<lambda>x. char_of (unat x)) (delivered_bytes reads)"
      using assms(2) True File_open unfolding answer_to_def path
      by (auto simp: get_mime_type_def get_extension_spec status_200_eq split: if_splits)
    have "must_read ?n reads = Some (int ?n, delivered_bytes reads)"
      using must_read_cases(1) [OF p(1), of ?n "[]"] by simp
    with True File_open p(2) st show ?thesis
      by (simp add: make_response_def request_buf_def method_code_def Let_def get_file_size_def filled_body_def)
  qed
next
  case False
  then have "NUL \<notin> set (rq_body r)" using assms(1) by (auto simp: request_ok_def)
  then have "takeWhile (\<lambda>x. x \<noteq> 0) (bytes_of (rq_body r) @ [0]) = bytes_of (rq_body r)"
    using payload_bytes_of [of "rq_body r" undefined] by (simp add: payload_def)
  with False assms(2) show ?thesis
    by (simp add: make_response_def answer_to_def request_buf_def method_code_def METHOD_GET_def METHOD_POST_def
        Let_def bytes_of_inverse status_200_eq)
qed

lemma http_answer:
  assumes "request_ok r" and "answer_to index_path fs page404 r = Some (st, mime, content)"
    and "bufs s a = Some (request_buf c seq r)" and "c_sql (conns s c)" and "table_ok api ''select * from student'' db"
  shows "\<exists>db'. http_th_msg_process_func api index_path fs page404 order a' a db s =
    Inr (db', http_write_response a' order (with_body st mime content) (buf_hdr (request_buf c seq r)) s)"
proof -
  obtain db' where "query_table api ''student'' db = Inr db'"
    using query_table_returns [of api "''student''" db] assms(5) by auto
  with make_response_answer [OF assms(1,2), of c seq] assms(3,4) show ?thesis
    by (simp add: http_th_msg_process_func_def) (simp add: request_buf_def)
qed

text \<open>
  Serving a file. For a GET request whose file can be opened, delivers its content in any
  sequence of short and interrupted reads, has a known extension and contains no zero byte, and
  with a database that answers the query of the table, the worker queues exactly one answer to the same connection and sequence number;
  what the send thread will put on the wire for it is the status line, the four headers (in
  the order of the hash table), an empty line and the content, and the announced length is the
  length of the content.
\<close>

theorem http_get_served:
  assumes "bufs s a = Some b" and "mh_http_method (buf_hdr b) = METHOD_GET" and "mh_uri (buf_hdr b) = Some uri"
    and "fs (index_path @ uri @ (if uri = ''/'' then ''index.html'' else [])) =
      File_open (Some (int (length content))) reads"
    and "progress reads" and "delivered_bytes reads = bytes_of content"
    and "table_ok api ''select * from student'' db"
    and "get_mime_type (get_extension uri) = Some mime" and "NUL \<notin> set content"
    and "c_sql (conns s (mh_pconn (buf_hdr b)))" and "header_order order"
  shows "\<exists>db' s' b'. http_th_msg_process_func api index_path fs page404 order a' a db s = Inr (db', s') \<and>
    m_send_list s' = m_send_list s @ [a'] \<and> bufs s' a' = Some b' \<and> buf_hdr b' = buf_hdr b \<and>
    payload True b' = bytes_of (reply_text order status_200 mime content) \<and>
    faults s' = faults s"
  using http_get_answer [of s a b uri fs index_path content reads api db mime page404 order a', OF assms(1-8,10)]
     reply_text_sent [OF _ assms(11) mime_plain [OF assms(8)] assms(9), of status_200 "buf_hdr b"]
  by (auto simp: http_write_response_def send_msg_def new_buf_def)

definition demo_get :: mgx_buf where
  "demo_get = \<lparr> buf_hdr = \<lparr> mh_pconn = 16, mh_cur_seq = 0, mh_http_method = METHOD_GET, mh_uri = Some ''/a.txt'' \<rparr>,
     buf_data = [0] \<rparr>"

definition demo_order :: "string list" where
  "demo_order = [''Content-Length'', ''Content-Type'', ''Connection'', ''Server'']"

lemma demo_order_ok: "header_order demo_order"
  by (auto simp: header_order_def demo_order_def)

text \<open>A file that is read in two pieces, the second after an interrupt.\<close>

definition demo_reads :: "read_ret list" where
  "demo_reads = [Read_n (bytes_of ''he''), Read_err EINTR, Read_n (bytes_of ''llo'')]"

definition demo_file :: file_res where
  "demo_file = File_open (Some 5) demo_reads"

theorem http_get_served_witness:
  "\<exists>db' s'. http_th_msg_process_func demo_db_api ''./html'' (\<lambda>_. demo_file) None demo_order 96 64
      (Mgx_mysql demo_db_api 0)
      (Mgx_socket\<lparr> bufs := [64 \<mapsto> demo_get], conns := (\<lambda>_. new_conn\<lparr> c_sql := True \<rparr>) \<rparr>) = Inr (db', s') \<and>
    m_send_list s' = [96]"
  using http_get_served [of "Mgx_socket\<lparr> bufs := [64 \<mapsto> demo_get], conns := (\<lambda>_. new_conn\<lparr> c_sql := True \<rparr>) \<rparr>"
      64 demo_get "''/a.txt''" "\<lambda>_. demo_file" "''./html''" "''hello''" demo_reads demo_db_api
      "Mgx_mysql demo_db_api 0" "''text/plain''" demo_order None 96]
    demo_db_ok demo_order_ok
  by (auto simp: demo_get_def demo_file_def demo_reads_def bytes_of_def Mgx_socket_def get_mime_type_def get_extension_def m_mime_types_def NUL_def
      eval_nat_numeral)

text \<open>
  A request that arrives in two pieces is lost. The request structure lives on the stack of
  the handler, so when the receive queue runs empty in the middle of the request line the part
  that was read is forgotten while the connection stays open and unchanged; the rest, read by
  the next call, does not begin with a method and is dropped as well. No message is queued.
\<close>

theorem http_split_request_lost:
  assumes "CR \<notin> set (part1 @ part2)" and "length part1 \<le> RECV_BUF_SIZE" and "length part2 \<le> RECV_BUF_SIZE"
    and "\<not> starts_with ''GET'' (c_str part2)" and "\<not> starts_with ''POST'' (c_str part2)"
  shows "http_read_request_handler e c \<lparr> k_data = part1, k_end = Some EAGAIN \<rparr> w =
      Inr (\<lparr> k_data = [], k_end = Some EAGAIN \<rparr>, w) \<and>
    http_read_request_handler e' c \<lparr> k_data = part2 @ CRLF @ tl2, k_end = x \<rparr> w =
      Inr (\<lparr> k_data = tl2, k_end = x \<rparr>, w)"
proof
  have "scan_line [] part1 = Scan_more"
    using scan_line_plain [of part1 "[]" "[]"] assms(1,2) by simp
  then show "http_read_request_handler e c \<lparr> k_data = part1, k_end = Some EAGAIN \<rparr> w =
      Inr (\<lparr> k_data = [], k_end = Some EAGAIN \<rparr>, w)"
    by (simp add: http_read_request_handler_def http_read_request_line_def finish_scan_def end_ret_def recv_process_def)
  have "scan_line [] (part2 @ CRLF @ tl2) = Scan_done part2 tl2"
    by (rule scan_line_text) (use assms(1,3) in simp_all)
  then show "http_read_request_handler e' c \<lparr> k_data = part2 @ CRLF @ tl2, k_end = x \<rparr> w =
      Inr (\<lparr> k_data = tl2, k_end = x \<rparr>, w)"
    using assms(4,5)
    by (simp add: http_read_request_handler_def http_read_request_line_def finish_scan_def
        http_parse_request_line_def Let_def)
qed

theorem http_split_request_lost_witness:
  "http_read_request_handler \<lparr> he_now = 1, he_addr = 64, he_junk = NUL \<rparr> 16
      \<lparr> k_data = ''GET /ind'', k_end = Some EAGAIN \<rparr> demo_worker =
      Inr (\<lparr> k_data = [], k_end = Some EAGAIN \<rparr>, demo_worker) \<and>
    http_read_request_handler \<lparr> he_now = 2, he_addr = 64, he_junk = NUL \<rparr> 16
      \<lparr> k_data = ''ex.html HTTP/1.1'' @ CRLF @ [], k_end = None \<rparr> demo_worker =
      Inr (\<lparr> k_data = [], k_end = None \<rparr>, demo_worker)"
  by (rule http_split_request_lost)
    (simp_all add: CR_def RECV_BUF_SIZE_def starts_with_def c_str_def NUL_def)

text \<open>
  A negative content length overruns the heap. For \<open>Content-Length: -1\<close> the unsigned length is
  \<open>2 ^ 32 - 1\<close>, the allocation of \<open>content_len + 1\<close> bytes has size zero, and the first bytes of
  the body that are in the receive queue are stored behind it.
\<close>

theorem http_negative_length_overflows:
  assumes "hs ''Content-Length'' = Some ''-1''" and "k_data k \<noteq> []"
  shows "\<exists>k'. http_read_request_body now hs c k s = (Rd_err Heap_overflow, k', s)"
proof -
  have "stoi ''-1'' = Inr (-1)" by code_simp
  moreover have "unat ((word_of_int (-1) :: u32) + 1) = 0" "(word_of_int (-1) :: u32) \<noteq> 0" by simp_all
  moreover from this(2) have "unat (word_of_int (-1) :: u32) \<noteq> 0" by (simp only: unat_eq_zero not_False_eq_True simp_thms)
  then have "take (unat (word_of_int (-1) :: u32)) (k_data k) \<noteq> []"
    using assms(2) by simp
  ultimately show ?thesis
    using assms(1) by (simp add: http_read_request_body_def Let_def)
qed

theorem http_negative_length_overflows_witness:
  "\<exists>k'. http_read_request_body 0 [''Content-Length'' \<mapsto> ''-1''] 16 \<lparr> k_data = ''x'', k_end = None \<rparr> Mgx_socket =
    (Rd_err Heap_overflow, k', Mgx_socket)"
  by (rule http_negative_length_overflows) simp_all

text \<open>
  A connection beyond the pool stops the worker. \<open>conn_pool_init\<close> gives every pooled object a database
  object; \<open>get_conn\<close> creates further objects without one when the pool is empty, and every answered
  request goes through it.
\<close>

lemma http_beyond_pool_reads_null:
  assumes "m_free_conns_cnt s \<le> 0" and "get_conn now p fd s = (c, s')"
    and "bufs s1 a = Some b" and "mh_pconn (buf_hdr b) = c" and "c_sql (conns s1 c) = c_sql (conns s' c)"
    and "make_response index_path fs page404 b = Inr (Some res)"
  shows "http_th_msg_process_func api index_path fs page404 order a' a db s1 = Inl Null_deref"
  using assms by (auto simp: get_conn_def http_th_msg_process_func_def get_one_to_use_def new_conn_def)

end
