(* ===== verification/Mgx_Context.thy ===== *)
theory Mgx_Context
  imports Mgx_Prelude
begin

text \<open>
  The context switch of \<^verbatim>\<open>src/misc/mgx_coroutine.cpp\<close>: the two assembly routines of \<open>_switch\<close> and the
  context that the constructor of a coroutine prepares. Registers and 8-byte memory cells hold
  64-bit words; all addresses the routines use are multiples of eight apart. The routine is
  entered with nothing pushed after the return address, as \<open>-O2\<close> compiles it.
\<close>

section \<open>Instructions\<close>

record 'r cpu =
  regs :: "'r \<Rightarrow> u64"
  pc :: u64
  cells :: "u64 \<Rightarrow> u64"

text \<open>
  \<open>Store r d b\<close> is \<^verbatim>\<open>movq %r, d(%b)\<close> or \<^verbatim>\<open>str r, [b, #d]\<close>; a pair instruction \<^verbatim>\<open>stp\<close>, \<^verbatim>\<open>ldp\<close> is two of them.
  \<open>Ret_pop\<close> returns through the stack, \<open>Ret_link\<close> through the link register.
\<close>

datatype 'r instr = Store 'r u64 'r | Load u64 'r 'r | Move 'r 'r | Ret_pop 'r | Ret_link 'r

fun exec_instr :: "'r instr \<Rightarrow> 'r cpu \<Rightarrow> 'r cpu" where
  "exec_instr (Store r d b) s = s\<lparr> cells := (cells s)(regs s b + d := regs s r) \<rparr>"
| "exec_instr (Load d b r) s = s\<lparr> regs := (regs s)(r := cells s (regs s b + d)) \<rparr>"
| "exec_instr (Move a b) s = s\<lparr> regs := (regs s)(b := regs s a) \<rparr>"
| "exec_instr (Ret_pop sp) s = s\<lparr> pc := cells s (regs s sp), regs := (regs s)(sp := regs s sp + 8) \<rparr>"
| "exec_instr (Ret_link lr) s = s\<lparr> pc := regs s lr \<rparr>"

fun exec_code :: "'r instr list \<Rightarrow> 'r cpu \<Rightarrow> 'r cpu" where
  "exec_code [] s = s"
| "exec_code (i # is) s = exec_code is (exec_instr i s)"

section \<open>The routine for x86-64\<close>

datatype reg = RSP | RBP | RBX | R12 | R13 | R14 | R15 | RAX | RDI | RSI | RDX

definition switch_x86 :: "reg instr list" where
  "switch_x86 =
    [Store RSP 0 RSI, Store RBP 8 RSI,
     Load 0 RSP RAX, Store RAX 16 RSI,
     Store RBX 24 RSI, Store R12 32 RSI, Store R13 40 RSI, Store R14 48 RSI, Store R15 56 RSI,
     Load 56 RDX R15, Load 48 RDX R14, Load 40 RDX R13, Load 32 RDX R12, Load 24 RDX RBX,
     Load 8 RDX RBP, Load 0 RDX RSP,
     Load 16 RDX RAX, Store RAX 0 RSP,
     Ret_pop RSP]"

definition saved_x86 :: "reg list" where
  "saved_x86 = [RBP, RBX, R12, R13, R14, R15]"

section \<open>The routine for aarch64\<close>

text \<open>The operands \<^verbatim>\<open>%0\<close>, \<^verbatim>\<open>%1\<close>, \<^verbatim>\<open>%2\<close> are the argument registers.\<close>

datatype areg = SP | X0 | X1 | X2 | X10 | X19 | X20 | X21 | X22 | X23 | X24 | X25 | X26 | X27 | X28 | X29 | X30

definition switch_arm :: "areg instr list" where
  "switch_arm =
    [Move SP X10, Store X10 0 X1,
     Store X29 8 X1, Store X30 16 X1,
     Store X19 24 X1, Store X20 32 X1,
     Store X21 40 X1, Store X22 48 X1,
     Store X23 56 X1, Store X24 64 X1,
     Store X25 72 X1, Store X26 80 X1,
     Store X27 88 X1, Store X28 96 X1,
     Load 88 X2 X27, Load 96 X2 X28,
     Load 72 X2 X25, Load 80 X2 X26,
     Load 56 X2 X23, Load 64 X2 X24,
     Load 40 X2 X21, Load 48 X2 X22,
     Load 24 X2 X19, Load 32 X2 X20,
     Load 8 X2 X29, Load 16 X2 X30,
     Load 0 X2 X10, Move X10 SP,
     Move X0 X0, Move X0 X1,
     Ret_link X30]"

definition saved_arm :: "areg list" where
  "saved_arm = [SP, X29, X19, X20, X21, X22, X23, X24, X25, X26, X27, X28]"

section \<open>The context of a new coroutine\<close>

definition MGX_CO_STACK_SIZE :: u64 where "MGX_CO_STACK_SIZE = 16 * 1024"

text \<open>The cells of a context of \<open>n\<close> pointers, and what the constructor stores in them on x86-64.\<close>

fun ctx_cells :: "nat \<Rightarrow> u64 \<Rightarrow> u64 list" where
  "ctx_cells 0 a = []"
| "ctx_cells (Suc n) a = a # ctx_cells n (a + 8)"

definition init_ctx_x86 :: "u64 \<Rightarrow> u64 \<Rightarrow> u64 \<Rightarrow> (u64 \<Rightarrow> u64) \<Rightarrow> u64 \<Rightarrow> u64" where
  "init_ctx_x86 m_ctx m_stack exec mem =
     mem(m_ctx + 8 := m_stack, m_ctx := m_stack + MGX_CO_STACK_SIZE - 16, m_ctx + 16 := exec)"

section \<open>Correctness of the switch\<close>

lemma ctx_cells_8: "ctx_cells 8 a = [a, a + 8, a + 16, a + 24, a + 32, a + 40, a + 48, a + 56]"
  by (simp add: eval_nat_numeral)

lemma ctx_cells_13:
  "ctx_cells 13 a = ctx_cells 8 a @ [a + 64, a + 72, a + 80, a + 88, a + 96]"
  by (simp add: eval_nat_numeral)

text \<open>Both routines first store into the old context and then read the new one.\<close>

lemma exec_code_append: "exec_code (xs @ ys) s = exec_code ys (exec_code xs s)"
  by (induction xs arbitrary: s) auto

lemma switch_x86_split: "switch_x86 = take 9 switch_x86 @ drop 9 switch_x86"
  by simp

lemma switch_arm_split: "switch_arm = take 14 switch_arm @ drop 14 switch_arm"
  by simp

definition writes_only :: "'r \<Rightarrow> u64 set \<Rightarrow> 'r instr \<Rightarrow> bool" where
  "writes_only base D i =
     (case i of Store r d b \<Rightarrow> b = base \<and> d \<in> D | Load d b r \<Rightarrow> r \<noteq> base | Move a r \<Rightarrow> r \<noteq> base
      | Ret_pop r \<Rightarrow> False | Ret_link r \<Rightarrow> False)"

lemma set_ctx_cells: "set (ctx_cells n a) = (\<lambda>d. a + d) ` set (ctx_cells n 0)"
proof (induction n arbitrary: a)
  case 0
  then show ?case by simp
next
  case (Suc n)
  from Suc [of "a + 8"] Suc [of "0 + 8"] show ?case
    by (simp add: image_image add.assoc)
qed

lemma exec_code_frame:
  "list_all (writes_only base D) is \<Longrightarrow> \<forall>d \<in> D. x \<noteq> regs s base + d \<Longrightarrow>
   cells (exec_code is s) x = cells s x"
proof (induction "is" arbitrary: s)
  case Nil
  then show ?case by simp
next
  case (Cons i "is")
  then show ?case
    by (cases i) (auto simp: writes_only_def)
qed

lemma stores_regs_x86:
  "r \<noteq> RAX \<Longrightarrow> regs (exec_code (take 9 switch_x86) s) r = regs s r"
  by (simp add: switch_x86_def split del: if_split)

lemma stores_cells_x86:
  assumes "x \<notin> set (ctx_cells 8 (regs s RSI))"
  shows "cells (exec_code (take 9 switch_x86) s) x = cells s x"
proof (rule exec_code_frame)
  show "list_all (writes_only RSI (set (ctx_cells 8 0))) (take 9 switch_x86)"
    by (simp add: switch_x86_def writes_only_def ctx_cells_8)
qed (use assms set_ctx_cells in blast)

lemma stores_regs_arm: "regs (exec_code (take 14 switch_arm) s) = (regs s)(X10 := regs s SP)"
  by (simp add: switch_arm_def)

lemma stores_cells_arm:
  assumes "x \<notin> set (ctx_cells 13 (regs s X1))"
  shows "cells (exec_code (take 14 switch_arm) s) x = cells s x"
proof (rule exec_code_frame)
  show "list_all (writes_only X1 (set (ctx_cells 13 0))) (take 14 switch_arm)"
    by (simp add: switch_arm_def writes_only_def ctx_cells_13 ctx_cells_8)
qed (use assms set_ctx_cells in blast)

lemma disjoint_cells:
  assumes "set (ctx_cells n a) \<inter> set (ctx_cells n b) = {}" and "\<And>x. x \<notin> set (ctx_cells n a) \<Longrightarrow> f x = g x"
  shows "map f (ctx_cells n b) = map g (ctx_cells n b)"
  unfolding map_eq_conv using assms by blast

lemma restore_x86:
  assumes "set (ctx_cells 8 (regs s RSI)) \<inter> set (ctx_cells 8 (regs s RDX)) = {}"
  shows "regs (exec_code switch_x86 s) = (regs s)(RSP := cells s (regs s RDX) + 8,
           RBP := cells s (regs s RDX + 8), RBX := cells s (regs s RDX + 24),
           R12 := cells s (regs s RDX + 32), R13 := cells s (regs s RDX + 40),
           R14 := cells s (regs s RDX + 48), R15 := cells s (regs s RDX + 56),
           RAX := cells s (regs s RDX + 16))"
    and "pc (exec_code switch_x86 s) = cells s (regs s RDX + 16)"
proof -
  define s1 where "s1 = exec_code (take 9 switch_x86) s"
  have "map (cells s1) (ctx_cells 8 (regs s RDX)) = map (cells s) (ctx_cells 8 (regs s RDX))"
    using assms unfolding s1_def by (rule disjoint_cells) (rule stores_cells_x86)
  then have c: "cells s1 (regs s RDX) = cells s (regs s RDX)"
    "\<And>d. d \<in> {8, 16, 24, 32, 40, 48, 56} \<Longrightarrow> cells s1 (regs s RDX + d) = cells s (regs s RDX + d)"
    by (auto simp: ctx_cells_8)
  have e: "exec_code switch_x86 s = exec_code (drop 9 switch_x86) s1"
    unfolding s1_def by (subst switch_x86_split) (rule exec_code_append)
  have r: "r \<noteq> RAX \<Longrightarrow> regs s1 r = regs s r" for r
    unfolding s1_def by (rule stores_regs_x86)
  have d: "drop 9 switch_x86 = [Load 56 RDX R15, Load 48 RDX R14, Load 40 RDX R13, Load 32 RDX R12,
     Load 24 RDX RBX, Load 8 RDX RBP, Load 0 RDX RSP, Load 16 RDX RAX, Store RAX 0 RSP, Ret_pop RSP]"
    by (simp add: switch_x86_def)
  show "regs (exec_code switch_x86 s) = (regs s)(RSP := cells s (regs s RDX) + 8,
           RBP := cells s (regs s RDX + 8), RBX := cells s (regs s RDX + 24),
           R12 := cells s (regs s RDX + 32), R13 := cells s (regs s RDX + 40),
           R14 := cells s (regs s RDX + 48), R15 := cells s (regs s RDX + 56),
           RAX := cells s (regs s RDX + 16))"
    unfolding e d by (rule ext) (simp add: c r)
  show "pc (exec_code switch_x86 s) = cells s (regs s RDX + 16)"
    unfolding e d by (simp add: c r)
qed

lemma ctx_disjoint_head:
  "set (ctx_cells (Suc n) a) \<inter> set (ctx_cells (Suc m) b) = {} \<Longrightarrow> b \<notin> set (ctx_cells (Suc n) a)"
  by auto

lemma switch_x86_cells:
  assumes "regs s RDX \<notin> set (ctx_cells 8 (regs s RSI))" and "regs s RSP \<notin> set (ctx_cells 8 (regs s RSI))"
  shows "\<exists>v. cells (exec_code switch_x86 s) = (cells s)(regs s RSI := regs s RSP,
     regs s RSI + 8 := regs s RBP, regs s RSI + 16 := cells s (regs s RSP),
     regs s RSI + 24 := regs s RBX, regs s RSI + 32 := regs s R12, regs s RSI + 40 := regs s R13,
     regs s RSI + 48 := regs s R14, regs s RSI + 56 := regs s R15, cells s (regs s RDX) := v)"
  using assms by (simp add: switch_x86_def ctx_cells_8 split del: if_split) (rule exI, rule refl)

lemma save_x86:
  assumes "regs s RDX \<notin> set (ctx_cells 8 (regs s RSI))" and "regs s RSP \<notin> set (ctx_cells 8 (regs s RSI))"
    and "cells s (regs s RDX) \<notin> set (ctx_cells 8 (regs s RSI))"
  shows "map (cells (exec_code switch_x86 s)) (ctx_cells 8 (regs s RSI)) =
    [regs s RSP, regs s RBP, cells s (regs s RSP), regs s RBX, regs s R12, regs s R13, regs s R14, regs s R15]"
  using switch_x86_cells [OF assms(1,2)] assms(3) by (auto simp: ctx_cells_8)

lemma frame_x86:
  assumes "regs s RDX \<notin> set (ctx_cells 8 (regs s RSI))" and "regs s RSP \<notin> set (ctx_cells 8 (regs s RSI))"
    and "x \<notin> set (ctx_cells 8 (regs s RSI))" and "x \<noteq> cells s (regs s RDX)"
  shows "cells (exec_code switch_x86 s) x = cells s x"
  using switch_x86_cells [OF assms(1,2)] assms(3,4) by (elim exE) (simp add: ctx_cells_8 split del: if_split)

lemma restore_arm:
  assumes "set (ctx_cells 13 (regs s X1)) \<inter> set (ctx_cells 13 (regs s X2)) = {}"
  shows "regs (exec_code switch_arm s) = (regs s)(SP := cells s (regs s X2), X10 := cells s (regs s X2),
           X29 := cells s (regs s X2 + 8), X30 := cells s (regs s X2 + 16),
           X19 := cells s (regs s X2 + 24), X20 := cells s (regs s X2 + 32),
           X21 := cells s (regs s X2 + 40), X22 := cells s (regs s X2 + 48),
           X23 := cells s (regs s X2 + 56), X24 := cells s (regs s X2 + 64),
           X25 := cells s (regs s X2 + 72), X26 := cells s (regs s X2 + 80),
           X27 := cells s (regs s X2 + 88), X28 := cells s (regs s X2 + 96), X1 := regs s X0)"
    and "pc (exec_code switch_arm s) = cells s (regs s X2 + 16)"
proof -
  define s1 where "s1 = exec_code (take 14 switch_arm) s"
  have "map (cells s1) (ctx_cells 13 (regs s X2)) = map (cells s) (ctx_cells 13 (regs s X2))"
    using assms unfolding s1_def by (rule disjoint_cells) (rule stores_cells_arm)
  then have c: "cells s1 (regs s X2) = cells s (regs s X2)"
    "\<And>d. d \<in> {8, 16, 24, 32, 40, 48, 56, 64, 72, 80, 88, 96} \<Longrightarrow>
       cells s1 (regs s X2 + d) = cells s (regs s X2 + d)"
    by (auto simp: ctx_cells_13 ctx_cells_8)
  have e: "exec_code switch_arm s = exec_code (drop 14 switch_arm) s1"
    unfolding s1_def by (subst switch_arm_split) (rule exec_code_append)
  have r: "regs s1 = (regs s)(X10 := regs s SP)"
    unfolding s1_def by (rule stores_regs_arm)
  have d: "drop 14 switch_arm = [Load 88 X2 X27, Load 96 X2 X28, Load 72 X2 X25, Load 80 X2 X26,
     Load 56 X2 X23, Load 64 X2 X24, Load 40 X2 X21, Load 48 X2 X22, Load 24 X2 X19, Load 32 X2 X20,
     Load 8 X2 X29, Load 16 X2 X30, Load 0 X2 X10, Move X10 SP, Move X0 X0, Move X0 X1, Ret_link X30]"
    by (simp add: switch_arm_def)
  show "regs (exec_code switch_arm s) = (regs s)(SP := cells s (regs s X2), X10 := cells s (regs s X2),
           X29 := cells s (regs s X2 + 8), X30 := cells s (regs s X2 + 16),
           X19 := cells s (regs s X2 + 24), X20 := cells s (regs s X2 + 32),
           X21 := cells s (regs s X2 + 40), X22 := cells s (regs s X2 + 48),
           X23 := cells s (regs s X2 + 56), X24 := cells s (regs s X2 + 64),
           X25 := cells s (regs s X2 + 72), X26 := cells s (regs s X2 + 80),
           X27 := cells s (regs s X2 + 88), X28 := cells s (regs s X2 + 96), X1 := regs s X0)"
    unfolding e d by (rule ext) (simp add: c r)
  show "pc (exec_code switch_arm s) = cells s (regs s X2 + 16)"
    unfolding e d by (simp add: c r)
qed

lemma save_arm:
  "map (cells (exec_code switch_arm s)) (ctx_cells 13 (regs s X1)) =
    map (regs s) [SP, X29, X30, X19, X20, X21, X22, X23, X24, X25, X26, X27, X28]"
  by (simp add: switch_arm_def ctx_cells_13 ctx_cells_8)


text \<open>Away and back on aarch64: the stack pointer and all callee-saved registers return.\<close>

lemma context_switch_roundtrip_arm:
  assumes "set (ctx_cells 13 (regs t X1)) \<inter> set (ctx_cells 13 (regs t X2)) = {}"
    and "regs t X2 = regs s X1"
    and "map (cells t) (ctx_cells 13 (regs s X1)) = map (cells (exec_code switch_arm s)) (ctx_cells 13 (regs s X1))"
  shows "map (regs (exec_code switch_arm t)) saved_arm = map (regs s) saved_arm"
    and "pc (exec_code switch_arm t) = regs s X30"
  using assms(2,3) unfolding save_arm
  by (simp_all add: restore_arm [OF assms(1)] saved_arm_def ctx_cells_13 ctx_cells_8)

text \<open>
  The first switch to a new coroutine enters \<open>_exec\<close> with the coroutine as its argument (the \<open>this\<close>
  of the call of \<open>_switch\<close>) and a stack pointer inside the new stack that is aligned as a function
  entry requires.
\<close>

lemma new_coroutine_entry:
  assumes "cells s = init_ctx_x86 (regs s RDX) m_stack exec mem"
    and "set (ctx_cells 8 (regs s RSI)) \<inter> set (ctx_cells 8 (regs s RDX)) = {}"
    and "unat m_stack mod 4096 = 0" and "unat m_stack + 16384 < 2 ^ 64"
  shows "pc (exec_code switch_x86 s) = exec" and "regs (exec_code switch_x86 s) RDI = regs s RDI"
    and "unat (regs (exec_code switch_x86 s) RSP) = unat m_stack + 16376"
    and "(unat (regs (exec_code switch_x86 s) RSP) + 8) mod 16 = 0"
proof -
  have sp: "regs (exec_code switch_x86 s) RSP = m_stack + 16376"
    by (simp add: restore_x86 [OF assms(2)] assms(1) init_ctx_x86_def MGX_CO_STACK_SIZE_def)
  then show u: "unat (regs (exec_code switch_x86 s) RSP) = unat m_stack + 16376"
    using assms(4) by (simp add: unat_word_ariths)
  have "16 dvd unat m_stack"
    using assms(3) dvd_trans [of 16 4096 "unat m_stack"] by (simp add: mod_eq_0_iff_dvd)
  then have "16 dvd unat m_stack + 16384"
    by simp
  with u show "(unat (regs (exec_code switch_x86 s) RSP) + 8) mod 16 = 0"
    by (simp add: mod_eq_0_iff_dvd add.commute)
qed (simp_all add: restore_x86 [OF assms(2)] assms(1) init_ctx_x86_def)

text \<open>
  C38: a coroutine continues where it stopped. Let \<open>_switch\<close> save the running context at one address
  and continue another. When \<open>_switch\<close> later runs with the saved context as its target, and nobody
  has written to it, then every callee-saved register has its old value, the return address has
  been popped from the same stack, and execution continues behind the first call.
\<close>

theorem context_switch_roundtrip:
  assumes "set (ctx_cells 8 (regs s RSI)) \<inter> set (ctx_cells 8 (regs s RDX)) = {}"
    and "regs s RSP \<notin> set (ctx_cells 8 (regs s RSI))"
    and "cells s (regs s RDX) \<notin> set (ctx_cells 8 (regs s RSI))"
    and "regs t RDX = regs s RSI"
    and "set (ctx_cells 8 (regs t RSI)) \<inter> set (ctx_cells 8 (regs t RDX)) = {}"
    and "map (cells t) (ctx_cells 8 (regs s RSI)) = map (cells (exec_code switch_x86 s)) (ctx_cells 8 (regs s RSI))"
  shows "map (regs (exec_code switch_x86 t)) saved_x86 = map (regs s) saved_x86 \<and>
    regs (exec_code switch_x86 t) RSP = regs s RSP + 8 \<and>
    pc (exec_code switch_x86 t) = cells s (regs s RSP)"
proof -
  have "regs s RDX \<notin> set (ctx_cells 8 (regs s RSI))"
    using assms(1) ctx_disjoint_head [of 7 _ 7] by simp
  from assms(4,6) show ?thesis
    unfolding save_x86 [OF \<open>regs s RDX \<notin> _\<close> assms(2,3)]
    by (simp add: restore_x86 [OF assms(5)] saved_x86_def ctx_cells_8)
qed

definition demo_cpu :: "reg cpu" where
  "demo_cpu = \<lparr> regs = (\<lambda>_. 7)(RSP := 0x7000, RSI := 0x1000, RDX := 0x2000),
     pc = 0, cells = (\<lambda>_. 0)(0x7000 := 42, 0x2000 := 0x8000, 0x2010 := 99) \<rparr>"

definition demo_back :: "reg cpu" where
  "demo_back = \<lparr> regs = (\<lambda>_. 0)(RSP := 0x8008, RSI := 0x2000, RDX := 0x1000),
     pc = 99, cells = cells (exec_code switch_x86 demo_cpu) \<rparr>"

lemma demo_facts:
  "regs demo_cpu RSI = 0x1000" "regs demo_cpu RDX = 0x2000" "regs demo_cpu RSP = 0x7000"
  "regs demo_cpu RBX = 7" "cells demo_cpu 0x2000 = 0x8000" "cells demo_cpu 0x7000 = 42"
  "regs demo_back RSI = 0x2000" "regs demo_back RDX = 0x1000"
  "cells demo_back = cells (exec_code switch_x86 demo_cpu)"
  by (simp_all add: demo_cpu_def demo_back_def)

theorem context_switch_roundtrip_witness:
  "regs (exec_code switch_x86 demo_back) RBX = 7 \<and>
   regs (exec_code switch_x86 demo_back) RSP = 0x7008 \<and> pc (exec_code switch_x86 demo_back) = 42"
  using context_switch_roundtrip [of demo_cpu demo_back]
  by (simp add: demo_facts saved_x86_def ctx_cells_8)

end
