(* ===== verification/Mgx_Coroutine.thy ===== *)
theory Mgx_Coroutine
  imports Mgx_Epoll
begin

text \<open>
  \<^verbatim>\<open>src/misc/mgx_coroutine.cpp\<close> and \<^verbatim>\<open>src/misc/mgx_coroutine_scheduler.cpp\<close>: coroutines and their
  scheduler. A coroutine object lives in a store indexed by its address. What its function does
  between two switches is a parameter, a \<^emph>\<open>segment\<close>: the coroutines it creates and the descriptors it
  closes, then the call that switches back. The saved context is represented by the point of
  the library code at which the coroutine goes on (the register level is in the theory of the
  context switch). The interest list of the \<open>epoll\<close> descriptor is part of the state. A failed
  \<open>MGX_ASSERT\<close> aborts the process.
\<close>

section \<open>Objects\<close>

definition MGX_CO_MAX_EVENTS :: nat where "MGX_CO_MAX_EVENTS = 500"
definition MGX_CO_SCHEDULER_EPOLL_WAIT_TIMEOUT :: int where "MGX_CO_SCHEDULER_EPOLL_WAIT_TIMEOUT = 200"
definition EPOLLERR :: u32 where "EPOLLERR = 8"
definition EPOLLHUP :: u32 where "EPOLLHUP = 0x10"

type_synonym co_ptr = u64

datatype COROUTINE_STATUS = READY | WAITING | SLEEPING | RUNNING | EXITED

datatype co_cont = At_exec | After_yield | After_msleep | After_wait

record mgx_coroutine =
  co_id :: u64
  co_status :: COROUTINE_STATUS
  co_wait_fd :: int
  co_ctx :: co_cont

datatype co_err = Assert_failed | Use_after_free | Erase_end

record co_sys =
  co_cnt :: int
  co_objs :: "co_ptr \<Rightarrow> mgx_coroutine option"
  m_co_ready_list :: "co_ptr list"
  m_co_sleep_rbtree :: "(int \<times> co_ptr) list"
  m_cur_co :: "co_ptr option"
  co_epoll_fd :: int
  co_interest :: "(int \<times> u32 \<times> co_ptr) list"
  co_resumed :: "co_ptr list"

text \<open>\<open>co_resumed\<close> records the order in which \<open>resume\<close> was called; the code does not have it.\<close>

section \<open>Scheduler operations\<close>

text \<open>The constructor, with the result of \<open>epoll_create\<close>, and the singleton.\<close>

definition new_scheduler :: "int \<Rightarrow> co_err + co_sys" where
  "new_scheduler fd =
     (if fd \<ge> 0
      then Inr \<lparr> co_cnt = 0, co_objs = Map.empty, m_co_ready_list = [], m_co_sleep_rbtree = [],
                 m_cur_co = None, co_epoll_fd = fd, co_interest = [], co_resumed = [] \<rparr>
      else Inl Assert_failed)"

definition get_instance :: "int \<Rightarrow> co_sys option \<Rightarrow> co_err + co_sys" where
  "get_instance fd inst = (case inst of None \<Rightarrow> new_scheduler fd | Some s \<Rightarrow> Inr s)"

definition push_back_ready_list :: "co_ptr \<Rightarrow> co_sys \<Rightarrow> co_sys" where
  "push_back_ready_list co s = s\<lparr> m_co_ready_list := m_co_ready_list s @ [co] \<rparr>"

definition erase_ready_list :: "co_ptr \<Rightarrow> co_sys \<Rightarrow> co_sys" where
  "erase_ready_list co s = s\<lparr> m_co_ready_list := removeAll co (m_co_ready_list s) \<rparr>"

definition insert_sleep_rbtree :: "int \<Rightarrow> co_ptr \<Rightarrow> co_sys \<Rightarrow> co_sys" where
  "insert_sleep_rbtree ms co s = s\<lparr> m_co_sleep_rbtree := mm_emplace ms co (m_co_sleep_rbtree s) \<rparr>"

definition remove_first_sleep_rbtree :: "co_sys \<Rightarrow> co_err + co_sys" where
  "remove_first_sleep_rbtree s =
     (case m_co_sleep_rbtree s of [] \<Rightarrow> Inl Erase_end
      | e # m \<Rightarrow> Inr (s\<lparr> m_co_sleep_rbtree := m \<rparr>))"

definition set_current_coroutine :: "co_ptr option \<Rightarrow> co_sys \<Rightarrow> co_sys" where
  "set_current_coroutine co s = s\<lparr> m_cur_co := co \<rparr>"

text \<open>Access through a pointer to a coroutine.\<close>

definition deref_co :: "co_ptr \<Rightarrow> co_sys \<Rightarrow> co_err + mgx_coroutine" where
  "deref_co p s = (case co_objs s p of None \<Rightarrow> Inl Use_after_free | Some k \<Rightarrow> Inr k)"

definition upd_co :: "co_ptr \<Rightarrow> (mgx_coroutine \<Rightarrow> mgx_coroutine) \<Rightarrow> co_sys \<Rightarrow> co_err + co_sys" where
  "upd_co p f s =
     ebind (deref_co p s) (\<lambda>k. Inr (s\<lparr> co_objs := (co_objs s)(p \<mapsto> f k) \<rparr>))"

definition set_status :: "COROUTINE_STATUS \<Rightarrow> co_ptr \<Rightarrow> co_sys \<Rightarrow> co_err + co_sys" where
  "set_status st p = upd_co p (\<lambda>k. k\<lparr> co_status := st \<rparr>)"

definition set_wait_fd :: "int \<Rightarrow> co_ptr \<Rightarrow> co_sys \<Rightarrow> co_err + co_sys" where
  "set_wait_fd fd p = upd_co p (\<lambda>k. k\<lparr> co_wait_fd := fd \<rparr>)"

text \<open>
  \<open>epoll_ctl\<close> refuses to add a descriptor twice and to delete one that is not registered;
  \<open>kernel_ok\<close> covers its other reasons to refuse.
\<close>

definition add_event_wait_epoll :: "bool \<Rightarrow> u32 \<Rightarrow> co_ptr \<Rightarrow> co_sys \<Rightarrow> co_err + co_sys" where
  "add_event_wait_epoll kernel_ok rw_event p s =
     ebind (deref_co p s) (\<lambda>k.
       let fd = co_wait_fd k
       in if kernel_ok \<and> fd \<notin> fst ` set (co_interest s)
          then Inr (s\<lparr> co_interest := co_interest s @ [(fd, EPOLLERR OR EPOLLHUP OR rw_event, p)] \<rparr>)
          else Inl Assert_failed)"

definition epoll_del :: "int \<Rightarrow> co_sys \<Rightarrow> co_sys" where
  "epoll_del fd s = s\<lparr> co_interest := filter (\<lambda>e. fst e \<noteq> fd) (co_interest s) \<rparr>"

definition remove_event_wait_epoll :: "co_ptr \<Rightarrow> co_sys \<Rightarrow> co_err + co_sys" where
  "remove_event_wait_epoll p s =
     ebind (deref_co p s) (\<lambda>k.
       if co_wait_fd k \<in> fst ` set (co_interest s) then Inr (epoll_del (co_wait_fd k) s)
       else Inl Assert_failed)"

text \<open>\<open>get_now_ms\<close> from the fields of \<open>struct timeval\<close>.\<close>

definition get_now_ms :: "int \<Rightarrow> int \<Rightarrow> int" where
  "get_now_ms tv_sec tv_usec = tv_sec * 1000 + tv_usec div 1000"

definition get_epoll_wait_timeout_ms :: "int \<Rightarrow> co_sys \<Rightarrow> int" where
  "get_epoll_wait_timeout_ms now_ms s =
     (case m_co_sleep_rbtree s of
        (sleep_ms, _) # _ \<Rightarrow>
          if m_co_ready_list s = [] \<and> sleep_ms > now_ms
          then min (sleep_ms - now_ms) MGX_CO_SCHEDULER_EPOLL_WAIT_TIMEOUT
          else MGX_CO_SCHEDULER_EPOLL_WAIT_TIMEOUT
      | [] \<Rightarrow> MGX_CO_SCHEDULER_EPOLL_WAIT_TIMEOUT)"

section \<open>Coroutine operations\<close>

text \<open>
  The constructor: \<open>p\<close> is the address of the object, \<open>mem_ok\<close> tells whether the stack could be
  allocated, \<open>junk\<close> is the uninitialised \<open>m_wait_fd\<close>.
\<close>

definition new_coroutine :: "co_ptr \<Rightarrow> bool \<Rightarrow> int \<Rightarrow> co_sys \<Rightarrow> co_err + co_sys" where
  "new_coroutine p mem_ok junk s =
     (if mem_ok
      then Inr (push_back_ready_list p
             (s\<lparr> co_cnt := co_cnt s + 1,
                 co_objs := (co_objs s)(p \<mapsto> \<lparr> co_id = word_of_int (co_cnt s + 1), co_status = READY,
                                               co_wait_fd = junk, co_ctx = At_exec \<rparr>) \<rparr>))
      else Inl Assert_failed)"

definition delete_coroutine :: "co_ptr \<Rightarrow> co_sys \<Rightarrow> co_sys" where
  "delete_coroutine p s = s\<lparr> co_objs := (co_objs s)(p := None) \<rparr>"

text \<open>\<open>yield\<close> up to its \<open>_switch\<close>.\<close>

definition yield :: "bool \<Rightarrow> co_ptr \<Rightarrow> co_sys \<Rightarrow> co_err + co_sys" where
  "yield push_ready_list p s =
     (if push_ready_list then set_status READY p (push_back_ready_list p s)
      else set_status WAITING p s)"

text \<open>\<open>msleep\<close> up to its \<open>_switch\<close>; the rest of it runs when the coroutine is resumed.\<close>

definition msleep :: "int \<Rightarrow> int \<Rightarrow> co_ptr \<Rightarrow> co_sys \<Rightarrow> co_err + co_sys" where
  "msleep now_ms ms p s =
     ebind (set_status SLEEPING p s) (\<lambda>s1. Inr (insert_sleep_rbtree (now_ms + ms) p s1))"

text \<open>
  What a segment consists of. \<open>Sw_wait\<close> is the sequence that the socket operations use to wait for
  a descriptor: register, \<open>yield(false)\<close>, and after the switch back deregister.
\<close>

datatype co_act = Co_new co_ptr bool int | Co_close int
datatype co_sw = Sw_exit | Sw_yield bool | Sw_msleep int int | Sw_wait int u32 bool
type_synonym co_seg = "co_act list \<times> co_sw"

fun run_act :: "co_act \<Rightarrow> co_sys \<Rightarrow> co_err + co_sys" where
  "run_act (Co_new p mem_ok junk) s = new_coroutine p mem_ok junk s"
| "run_act (Co_close fd) s = Inr (epoll_del fd s)"

fun run_acts :: "co_act list \<Rightarrow> co_sys \<Rightarrow> co_err + co_sys" where
  "run_acts [] s = Inr s"
| "run_acts (a # as) s = ebind (run_act a s) (run_acts as)"

definition save_ctx :: "co_cont \<Rightarrow> co_ptr \<Rightarrow> co_sys \<Rightarrow> co_err + co_sys" where
  "save_ctx c p = upd_co p (\<lambda>k. k\<lparr> co_ctx := c \<rparr>)"

fun run_switch :: "co_sw \<Rightarrow> co_ptr \<Rightarrow> co_sys \<Rightarrow> co_err + co_sys" where
  "run_switch Sw_exit p s = set_status EXITED p s"
| "run_switch (Sw_yield b) p s = ebind (yield b p s) (save_ctx After_yield p)"
| "run_switch (Sw_msleep now ms) p s = ebind (msleep now ms p s) (save_ctx After_msleep p)"
| "run_switch (Sw_wait fd ev kernel_ok) p s =
     ebind (set_wait_fd fd p s) (\<lambda>s1.
     ebind (add_event_wait_epoll kernel_ok ev p s1) (\<lambda>s2.
     ebind (yield False p s2) (save_ctx After_wait p)))"

definition continue_at :: "co_ptr \<Rightarrow> co_sys \<Rightarrow> co_err + co_sys" where
  "continue_at p s =
     ebind (deref_co p s) (\<lambda>k.
       case co_ctx k of
         At_exec \<Rightarrow> Inr s
       | After_yield \<Rightarrow> Inr s
       | After_msleep \<Rightarrow> remove_first_sleep_rbtree s
       | After_wait \<Rightarrow> remove_event_wait_epoll p s)"

definition resume :: "co_seg \<Rightarrow> co_ptr \<Rightarrow> co_sys \<Rightarrow> co_err + (bool \<times> co_sys)" where
  "resume seg p s =
     ebind (set_status RUNNING p (set_current_coroutine (Some p) s)) (\<lambda>s1.
     ebind (continue_at p (s1\<lparr> co_resumed := co_resumed s1 @ [p] \<rparr>)) (\<lambda>s2.
     ebind (run_acts (fst seg) s2) (\<lambda>s3.
     ebind (run_switch (snd seg) p s3) (\<lambda>s4.
     ebind (deref_co p s4) (\<lambda>k.
       Inr (co_status k \<noteq> EXITED, set_current_coroutine None s4))))))"

definition resume_or_delete :: "co_seg \<Rightarrow> co_ptr \<Rightarrow> co_sys \<Rightarrow> co_err + co_sys" where
  "resume_or_delete seg p s =
     ebind (resume seg p s) (\<lambda>(alive, s'). Inr (if alive then s' else delete_coroutine p s'))"

section \<open>One call of \<open>schedule\<close>\<close>

record sched_io =
  si_now :: int
  si_sleep_seg :: co_seg
  si_ready_seg :: co_seg
  si_wait :: "errno + (co_ptr \<times> u32 \<times> co_seg) list"

definition sleep_phase :: "int \<Rightarrow> co_seg \<Rightarrow> co_sys \<Rightarrow> co_err + co_sys" where
  "sleep_phase now_ms seg s =
     (case m_co_sleep_rbtree s of
        [] \<Rightarrow> Inr s
      | (sleep_ms, co) # _ \<Rightarrow> if now_ms \<ge> sleep_ms then resume_or_delete seg co s else Inr s)"

definition ready_phase :: "co_seg \<Rightarrow> co_sys \<Rightarrow> co_err + co_sys" where
  "ready_phase seg s =
     (case m_co_ready_list s of
        [] \<Rightarrow> Inr s
      | co # q \<Rightarrow> resume_or_delete seg co (s\<lparr> m_co_ready_list := q \<rparr>))"

definition wait_event :: "co_ptr \<times> u32 \<times> co_seg \<Rightarrow> co_sys \<Rightarrow> co_err + co_sys" where
  "wait_event = (\<lambda>(co, recv_events, seg) s.
     if recv_events AND EPOLLERR \<noteq> 0
     then ebind (deref_co co s) (\<lambda>k. Inr (epoll_del (co_wait_fd k) s))
     else resume_or_delete seg co s)"

fun wait_events :: "(co_ptr \<times> u32 \<times> co_seg) list \<Rightarrow> co_sys \<Rightarrow> co_err + co_sys" where
  "wait_events [] s = Inr s"
| "wait_events (e # es) s = ebind (wait_event e s) (wait_events es)"

definition wait_phase :: "errno + (co_ptr \<times> u32 \<times> co_seg) list \<Rightarrow> co_sys \<Rightarrow> co_err + co_sys" where
  "wait_phase ret s =
     (case ret of
        Inl e \<Rightarrow> if e = EINTR then Inr s else Inl Assert_failed
      | Inr evs \<Rightarrow> wait_events evs s)"

definition schedule :: "sched_io \<Rightarrow> co_sys \<Rightarrow> co_err + co_sys" where
  "schedule io s =
     ebind (sleep_phase (si_now io) (si_sleep_seg io) s) (\<lambda>s1.
     ebind (ready_phase (si_ready_seg io) s1) (wait_phase (si_wait io)))"

fun schedules :: "sched_io list \<Rightarrow> co_sys \<Rightarrow> co_err + co_sys" where
  "schedules [] s = Inr s"
| "schedules (io # ios) s = ebind (schedule io s) (schedules ios)"

section \<open>The invariant of the scheduler\<close>

definition co_wf :: "co_ptr option \<Rightarrow> co_sys \<Rightarrow> bool" where
  "co_wf r s \<longleftrightarrow>
     distinct (m_co_ready_list s) \<and>
     (\<forall>p. p \<in> set (m_co_ready_list s) \<longleftrightarrow> (\<exists>k. co_objs s p = Some k \<and> co_status k = READY)) \<and>
     distinct (map snd (m_co_sleep_rbtree s)) \<and> mm_sorted (m_co_sleep_rbtree s) \<and>
     (\<forall>p. p \<in> snd ` set (m_co_sleep_rbtree s) \<longleftrightarrow>
          (\<exists>k. co_objs s p = Some k \<and> co_status k = SLEEPING)) \<and>
     (\<forall>p k. co_objs s p = Some k \<longrightarrow>
        (co_status k = READY \<longrightarrow> co_ctx k \<in> {At_exec, After_yield}) \<and>
        (co_status k = SLEEPING \<longrightarrow> co_ctx k = After_msleep) \<and>
        (co_status k = RUNNING \<longleftrightarrow> r = Some p) \<and> co_status k \<noteq> EXITED) \<and>
     distinct (map fst (co_interest s)) \<and>
     (\<forall>fd ev p. (fd, ev, p) \<in> set (co_interest s) \<longrightarrow>
        (\<exists>k. co_objs s p = Some k \<and> co_status k = WAITING \<and> co_ctx k = After_wait \<and> co_wait_fd k = fd)) \<and>
     (\<forall>p. r = Some p \<longrightarrow> co_objs s p \<noteq> None) \<and> m_cur_co s = r"

lemmas co_op_defs = upd_co_def deref_co_def set_status_def set_wait_fd_def save_ctx_def yield_def msleep_def
  push_back_ready_list_def insert_sleep_rbtree_def set_current_coroutine_def add_event_wait_epoll_def
  remove_event_wait_epoll_def remove_first_sleep_rbtree_def delete_coroutine_def continue_at_def

lemma distinct_snd_mm_emplace:
  "distinct (map snd (mm_emplace k v m)) \<longleftrightarrow> v \<notin> snd ` set m \<and> distinct (map snd m)"
  by (induction k v m rule: mm_emplace.induct) auto

lemma co_wf_epoll_del: "co_wf r s \<Longrightarrow> co_wf r (epoll_del fd s)"
  by (auto simp: co_wf_def epoll_del_def distinct_map_filter)

lemma co_wf_new_coroutine:
  "co_wf r s \<Longrightarrow> co_objs s p = None \<Longrightarrow> holds_or Assert_failed (co_wf r) (new_coroutine p mem_ok junk s)"
  unfolding co_wf_def new_coroutine_def push_back_ready_list_def
  by (auto; fastforce)

lemma co_wf_begin:
  assumes "co_wf None s" and "co_objs s p = Some k"
    and "co_status k = SLEEPING \<Longrightarrow> \<exists>t m. m_co_sleep_rbtree s = (t, p) # m"
    and "co_status k = WAITING \<Longrightarrow> co_ctx k = After_wait"
    and "co_status k = READY \<Longrightarrow> rl = removeAll p (m_co_ready_list s)"
    and "co_status k \<noteq> READY \<Longrightarrow> rl = m_co_ready_list s"
  shows "holds_or Assert_failed (co_wf (Some p))
    (ebind (set_status RUNNING p (set_current_coroutine (Some p) (s\<lparr> m_co_ready_list := rl \<rparr>)))
       (\<lambda>s1. continue_at p (s1\<lparr> co_resumed := rs s1 \<rparr>)))"
proof -
  have quiet: "\<forall>fd ev. (fd, ev, p) \<notin> set (co_interest s)" if "co_status k \<noteq> WAITING"
    using assms(1,2) that by (fastforce simp: co_wf_def)
  have own: "\<forall>fd ev. (fd, ev, p) \<in> set (co_interest s) \<longrightarrow> fd = co_wait_fd k"
    using assms(1,2) by (fastforce simp: co_wf_def)
  show ?thesis
  proof (cases "co_status k")
    case READY
    with assms(1,2) have "co_ctx k = At_exec \<or> co_ctx k = After_yield"
      by (auto simp: co_wf_def)
    then have "continue_at p t = Inr t" if "co_objs t p = Some k'" "co_ctx k' = co_ctx k" for t k'
      using that by (auto simp: continue_at_def deref_co_def)
    with assms READY quiet show ?thesis
      unfolding co_wf_def by (auto simp: distinct_removeAll set_status_def upd_co_def deref_co_def set_current_coroutine_def)
  next
    case SLEEPING
    with assms obtain t m where "m_co_sleep_rbtree s = (t, p) # m" by blast
    with assms SLEEPING quiet show ?thesis
      unfolding co_wf_def by (auto simp: co_op_defs)
  next
    case WAITING
    with assms own show ?thesis
      unfolding co_wf_def by (auto simp: co_op_defs epoll_del_def distinct_map_filter)
  qed (use assms in \<open>auto simp: co_wf_def\<close>)
qed

lemma co_wf_running:
  assumes "co_wf (Some p) s"
  obtains k where "co_objs s p = Some k" "co_status k = RUNNING" "p \<notin> set (m_co_ready_list s)"
    "p \<notin> snd ` set (m_co_sleep_rbtree s)" "\<forall>fd ev. (fd, ev, p) \<notin> set (co_interest s)"
proof -
  from assms obtain k where "co_objs s p = Some k" "co_status k = RUNNING"
    unfolding co_wf_def by blast
  with assms that show thesis
    unfolding co_wf_def by fastforce
qed

lemma co_wf_switch:
  assumes "co_wf (Some p) s"
  shows "holds_or Assert_failed (co_wf None)
     (ebind (run_switch sw p s) (\<lambda>s4. ebind (deref_co p s4) (\<lambda>k.
        Inr (if co_status k \<noteq> EXITED then set_current_coroutine None s4
             else delete_coroutine p (set_current_coroutine None s4)))))"
proof -
  from assms obtain k where k: "co_objs s p = Some k" "co_status k = RUNNING" "p \<notin> set (m_co_ready_list s)"
    "p \<notin> snd ` set (m_co_sleep_rbtree s)" "\<forall>fd ev. (fd, ev, p) \<notin> set (co_interest s)"
    by (rule co_wf_running)
  show ?thesis
  proof (cases sw)
    case Sw_exit
    with assms k show ?thesis
      unfolding co_wf_def by (auto simp: co_op_defs)
  next
    case (Sw_yield b)
    with assms k show ?thesis
      unfolding co_wf_def by (cases b) (auto simp: co_op_defs)
  next
    case (Sw_msleep now ms)
    with assms k show ?thesis
      unfolding co_wf_def by (auto simp: co_op_defs distinct_snd_mm_emplace mm_sorted_emplace)
  next
    case (Sw_wait fd ev ok)
    with assms k show ?thesis
      unfolding co_wf_def by (auto simp: co_op_defs Let_def)
  qed
qed

text \<open>The allocator: the objects a segment creates are at new addresses.\<close>

fun new_ptrs :: "co_act list \<Rightarrow> co_ptr list" where
  "new_ptrs [] = []"
| "new_ptrs (Co_new p ok junk # as) = p # new_ptrs as"
| "new_ptrs (Co_close fd # as) = new_ptrs as"

definition seg_fresh :: "co_seg \<Rightarrow> co_sys \<Rightarrow> bool" where
  "seg_fresh seg s \<longleftrightarrow> distinct (new_ptrs (fst seg)) \<and> (\<forall>p \<in> set (new_ptrs (fst seg)). co_objs s p = None)"

lemma co_wf_acts:
  "co_wf r s \<Longrightarrow> seg_fresh (as, sw) s \<Longrightarrow> holds_or Assert_failed (co_wf r) (run_acts as s)"
proof (induction "as" arbitrary: s)
  case Nil
  then show ?case by simp
next
  case (Cons a "as")
  show ?case
  proof (cases a)
    case (Co_new p ok junk)
    with Cons.prems have "holds_or Assert_failed (co_wf r) (new_coroutine p ok junk s)"
      by (intro co_wf_new_coroutine) (auto simp: seg_fresh_def)
    moreover have "seg_fresh (as, sw) s1" if "new_coroutine p ok junk s = Inr s1" for s1
      using that Cons.prems(2) Co_new
      by (auto simp: seg_fresh_def new_coroutine_def push_back_ready_list_def split: if_splits)
    ultimately show ?thesis
      using Cons.IH Co_new by (simp add: holds_or_ebind)
  next
    case (Co_close fd)
    with Cons.prems have "seg_fresh (as, sw) (epoll_del fd s)"
      by (simp add: seg_fresh_def epoll_del_def)
    with Cons Co_close show ?thesis
      by (simp add: co_wf_epoll_del)
  qed
qed

lemma continue_at_objs: "continue_at p s = Inr s' \<Longrightarrow> co_objs s' = co_objs s"
  by (cases "co_objs s p"; cases "co_ctx (the (co_objs s p))"; cases "m_co_sleep_rbtree s")
     (auto simp: continue_at_def deref_co_def remove_first_sleep_rbtree_def remove_event_wait_epoll_def
       epoll_del_def split: if_splits)

lemma resume_or_delete_unfold:
  "resume_or_delete seg p s =
     ebind (ebind (set_status RUNNING p (set_current_coroutine (Some p) s))
             (\<lambda>s1. continue_at p (s1\<lparr> co_resumed := co_resumed s1 @ [p] \<rparr>))) (\<lambda>s2.
     ebind (run_acts (fst seg) s2) (\<lambda>s3.
     ebind (run_switch (snd seg) p s3) (\<lambda>s4. ebind (deref_co p s4) (\<lambda>k.
        Inr (if co_status k \<noteq> EXITED then set_current_coroutine None s4
             else delete_coroutine p (set_current_coroutine None s4))))))"
  by (simp add: resume_or_delete_def resume_def ebind_assoc)

definition resumable :: "co_ptr \<Rightarrow> co_sys \<Rightarrow> bool" where
  "resumable p s \<longleftrightarrow> (\<exists>k. co_objs s p = Some k \<and>
     (co_status k = SLEEPING \<longrightarrow> (\<exists>t m. m_co_sleep_rbtree s = (t, p) # m)) \<and>
     (co_status k = WAITING \<longrightarrow> co_ctx k = After_wait))"

lemma co_wf_resume:
  assumes "co_wf None s" and "resumable p s" and "seg_fresh seg s"
    and "rl = removeAll p (m_co_ready_list s)"
  shows "holds_or Assert_failed (co_wf None) (resume_or_delete seg p (s\<lparr> m_co_ready_list := rl \<rparr>))"
proof -
  from assms(2) obtain k where k: "co_objs s p = Some k" 
    "co_status k = SLEEPING \<Longrightarrow> \<exists>t m. m_co_sleep_rbtree s = (t, p) # m"
    "co_status k = WAITING \<Longrightarrow> co_ctx k = After_wait"
    by (auto simp: resumable_def)
  have rl: "rl = m_co_ready_list s" if "co_status k \<noteq> READY"
    using assms(1,4) k(1) that by (auto simp: co_wf_def)
  show ?thesis
    unfolding resume_or_delete_unfold
  proof (rule holds_or_ebind, rule co_wf_begin [OF assms(1) k assms(4) rl], goal_cases)
    case (4 s2)
    then have "seg_fresh (fst seg, snd seg) s2"
      using assms(3) k(1)
      by (auto simp: seg_fresh_def ebind_eq_Inr set_status_def upd_co_def deref_co_def
          set_current_coroutine_def dest!: continue_at_objs)
    with 4 show ?case
      by (intro holds_or_ebind [OF co_wf_acts co_wf_switch])
  qed
qed

text \<open>What a segment of coroutine \<open>p\<close> leaves alone.\<close>

definition co_frame :: "co_ptr \<Rightarrow> co_ptr set \<Rightarrow> co_sys \<Rightarrow> co_sys \<Rightarrow> bool" where
  "co_frame p N s s' \<longleftrightarrow>
     (\<forall>q. q \<noteq> p \<longrightarrow> q \<notin> N \<longrightarrow> co_objs s' q = co_objs s q) \<and>
     (\<forall>fd ev q. (fd, ev, q) \<in> set (co_interest s') \<longrightarrow> q = p \<or> (fd, ev, q) \<in> set (co_interest s)) \<and>
     (\<exists>new. m_co_ready_list s' = m_co_ready_list s @ new) \<and> co_resumed s' = co_resumed s"

lemma co_frame_refl [simp]: "co_frame p N s s"
  by (simp add: co_frame_def)

lemma co_frame_trans: "co_frame p N s t \<Longrightarrow> co_frame p N t u \<Longrightarrow> co_frame p N s u"
  unfolding co_frame_def by (auto; metis)

lemma co_frame_upd: "upd_co p f s = Inr s' \<Longrightarrow> co_frame p N s s'"
  by (auto simp: upd_co_def ebind_eq_Inr co_frame_def)

lemma co_frame_act:
  "run_act a s = Inr s' \<Longrightarrow> set (new_ptrs [a]) \<subseteq> N \<Longrightarrow> co_frame p N s s'"
  by (cases a) (auto simp: co_frame_def new_coroutine_def push_back_ready_list_def epoll_del_def split: if_splits)

lemma new_ptrs_Cons: "new_ptrs (a # as) = new_ptrs [a] @ new_ptrs as"
  by (cases a) auto

lemma co_frame_acts:
  "run_acts as s = Inr s' \<Longrightarrow> set (new_ptrs as) \<subseteq> N \<Longrightarrow> co_frame p N s s'"
proof (induction "as" arbitrary: s)
  case Nil
  then show ?case by simp
next
  case (Cons a "as")
  then show ?case
    unfolding new_ptrs_Cons [of a "as"]
    by (auto simp: ebind_eq_Inr intro: co_frame_trans co_frame_act)
qed

lemma co_frame_switch: "run_switch sw p s = Inr s' \<Longrightarrow> co_frame p N s s'"
  by (cases sw; cases "co_objs s p")
     (auto simp: co_op_defs co_frame_def Let_def split: if_splits)

lemma co_frame_continue: "continue_at p s = Inr s' \<Longrightarrow> co_frame p N s s'"
  by (cases "co_objs s p"; cases "co_ctx (the (co_objs s p))"; cases "m_co_sleep_rbtree s")
     (auto simp: continue_at_def deref_co_def remove_first_sleep_rbtree_def remove_event_wait_epoll_def
       epoll_del_def co_frame_def split: if_splits)

lemma resume_or_delete_frame:
  assumes "resume_or_delete seg p s = Inr s'"
  shows "co_frame p (set (new_ptrs (fst seg))) (s\<lparr> co_resumed := co_resumed s @ [p] \<rparr>) s'"
proof -
  let ?N = "set (new_ptrs (fst seg))"
  from assms obtain s1 s2 s3 s4 where
    "set_status RUNNING p (set_current_coroutine (Some p) s) = Inr s1"
    and 2: "continue_at p (s1\<lparr> co_resumed := co_resumed s1 @ [p] \<rparr>) = Inr s2"
    and 3: "run_acts (fst seg) s2 = Inr s3" and 4: "run_switch (snd seg) p s3 = Inr s4"
    and s': "s' = set_current_coroutine None s4 \<or> s' = delete_coroutine p (set_current_coroutine None s4)"
    unfolding resume_or_delete_unfold by (auto simp: ebind_eq_Inr split: if_splits)
  then have 1: "co_frame p ?N (s\<lparr> co_resumed := co_resumed s @ [p] \<rparr>) (s1\<lparr> co_resumed := co_resumed s1 @ [p] \<rparr>)"
    by (auto simp: set_status_def upd_co_def deref_co_def ebind_eq_Inr co_frame_def set_current_coroutine_def
        split: option.splits)
  have "co_frame p ?N s4 s'"
    using s' by (auto simp: co_frame_def set_current_coroutine_def delete_coroutine_def)
  with co_frame_switch [OF 4] have "co_frame p ?N s3 s'"
    by (blast intro: co_frame_trans)
  with co_frame_acts [OF 3] have "co_frame p ?N s2 s'"
    by (blast intro: co_frame_trans)
  with co_frame_continue [OF 2] 1 show ?thesis
    by (blast intro: co_frame_trans)
qed


section \<open>The phases keep the invariant\<close>

lemma co_wf_ready:
  "co_wf r s \<Longrightarrow> p \<in> set (m_co_ready_list s) \<longleftrightarrow> (\<exists>k. co_objs s p = Some k \<and> co_status k = READY)"
  by (simp add: co_wf_def)

lemma co_wf_sleep:
  "co_wf r s \<Longrightarrow> p \<in> snd ` set (m_co_sleep_rbtree s) \<longleftrightarrow> (\<exists>k. co_objs s p = Some k \<and> co_status k = SLEEPING)"
  by (simp add: co_wf_def)

lemma co_wf_interest:
  "co_wf r s \<Longrightarrow> (fd, ev, p) \<in> set (co_interest s) \<Longrightarrow>
   \<exists>k. co_objs s p = Some k \<and> co_status k = WAITING \<and> co_ctx k = After_wait \<and> co_wait_fd k = fd"
  unfolding co_wf_def by blast

lemma not_ready_removeAll:
  "co_wf r s \<Longrightarrow> co_objs s p = Some k \<Longrightarrow> co_status k \<noteq> READY \<Longrightarrow>
   removeAll p (m_co_ready_list s) = m_co_ready_list s"
  by (rule removeAll_id) (simp add: co_wf_ready)

lemma sleep_phase_wf:
  assumes "co_wf None s" and "seg_fresh seg s"
  shows "holds_or Assert_failed (co_wf None) (sleep_phase now seg s)"
proof (cases "m_co_sleep_rbtree s")
  case (Cons e m)
  obtain t p where e: "e = (t, p)" by (cases e)
  with Cons have "p \<in> snd ` set (m_co_sleep_rbtree s)"
    by simp
  then obtain k where k: "co_objs s p = Some k" "co_status k = SLEEPING"
    using co_wf_sleep [OF assms(1)] by blast
  then have "holds_or Assert_failed (co_wf None) (resume_or_delete seg p s)"
    using co_wf_resume [OF assms(1) _ assms(2) refl, of p] Cons e not_ready_removeAll [OF assms(1) k(1)]
    by (simp add: resumable_def)
  with Cons e assms(1) show ?thesis
    by (simp add: sleep_phase_def)
qed (simp add: sleep_phase_def assms(1))

lemma ready_phase_wf:
  assumes "co_wf None s" and "seg_fresh seg s"
  shows "holds_or Assert_failed (co_wf None) (ready_phase seg s)"
proof (cases "m_co_ready_list s")
  case (Cons p q)
  then have "p \<in> set (m_co_ready_list s)"
    by simp
  then obtain k where k: "co_objs s p = Some k" "co_status k = READY"
    using co_wf_ready [OF assms(1)] by blast
  have "distinct (p # q)"
    using assms(1) Cons by (simp add: co_wf_def)
  with Cons k show ?thesis
    using co_wf_resume [OF assms(1) _ assms(2) refl, of p] by (simp add: ready_phase_def resumable_def)
qed (simp add: ready_phase_def assms(1))

definition blocked :: "co_ptr \<Rightarrow> co_sys \<Rightarrow> bool" where
  "blocked p s \<longleftrightarrow> (\<exists>k. co_objs s p = Some k \<and> co_status k = WAITING \<and> co_ctx k = After_wait)"

lemma wait_event_wf:
  assumes "co_wf None s" and "blocked p s" and "seg_fresh seg s"
  shows "holds_or Assert_failed (co_wf None) (wait_event (p, ev, seg) s)"
proof -
  from assms(2) obtain k where k: "co_objs s p = Some k" "co_status k = WAITING" "co_ctx k = After_wait"
    by (auto simp: blocked_def)
  with co_wf_resume [OF assms(1) _ assms(3) refl, of p] not_ready_removeAll [OF assms(1) k(1)]
  have "holds_or Assert_failed (co_wf None) (resume_or_delete seg p s)"
    by (simp add: resumable_def)
  with k assms(1) show ?thesis
    by (simp add: wait_event_def deref_co_def co_wf_epoll_del)
qed

lemma wait_event_objs:
  assumes "wait_event (p, ev, seg) s = Inr s'" and "q \<noteq> p" and "q \<notin> set (new_ptrs (fst seg))"
  shows "co_objs s' q = co_objs s q"
  using assms resume_or_delete_frame [of seg p s s']
  by (auto simp: wait_event_def ebind_eq_Inr epoll_del_def co_frame_def split: if_splits)

text \<open>
  What the code relies on: new objects are at fresh addresses, and \<open>epoll_wait\<close> reports at most
  \<open>MGX_CO_MAX_EVENTS\<close> registrations, each once.
\<close>

fun events_fresh :: "(co_ptr \<times> u32 \<times> co_seg) list \<Rightarrow> co_sys \<Rightarrow> bool" where
  "events_fresh [] s = True"
| "events_fresh ((p, ev, seg) # es) s \<longleftrightarrow>
     seg_fresh seg s \<and> (case wait_event (p, ev, seg) s of Inl _ \<Rightarrow> True | Inr s' \<Rightarrow> events_fresh es s')"

definition wait_contract :: "errno + (co_ptr \<times> u32 \<times> co_seg) list \<Rightarrow> co_sys \<Rightarrow> bool" where
  "wait_contract ret s \<longleftrightarrow>
     (case ret of Inl _ \<Rightarrow> True
      | Inr es \<Rightarrow> length es \<le> MGX_CO_MAX_EVENTS \<and> distinct (map fst es) \<and>
          set (map fst es) \<subseteq> set (map (\<lambda>(fd, ev, p). p) (co_interest s)) \<and> events_fresh es s)"

definition sched_contract :: "sched_io \<Rightarrow> co_sys \<Rightarrow> bool" where
  "sched_contract io s \<longleftrightarrow>
     seg_fresh (si_sleep_seg io) s \<and>
     (case sleep_phase (si_now io) (si_sleep_seg io) s of Inl _ \<Rightarrow> True
      | Inr s1 \<Rightarrow> seg_fresh (si_ready_seg io) s1 \<and>
          (case ready_phase (si_ready_seg io) s1 of Inl _ \<Rightarrow> True
           | Inr s2 \<Rightarrow> wait_contract (si_wait io) s2))"

lemma wait_event_keeps_blocked:
  assumes "distinct (map fst ((p, ev, seg) # es))" and "\<forall>e \<in> set es. blocked (fst e) s" and "seg_fresh seg s"
    and "wait_event (p, ev, seg) s = Inr s1"
  shows "\<forall>e \<in> set es. blocked (fst e) s1"
proof
  fix d assume "d \<in> set es"
  with assms have "blocked (fst d) s" "fst d \<noteq> p" "fst d \<notin> set (new_ptrs (fst seg))"
    by (auto simp: seg_fresh_def blocked_def)
  with assms(4) show "blocked (fst d) s1"
    by (simp add: blocked_def wait_event_objs)
qed

lemma wait_events_wf:
  "co_wf None s \<Longrightarrow> distinct (map fst es) \<Longrightarrow> \<forall>e \<in> set es. blocked (fst e) s \<Longrightarrow> events_fresh es s \<Longrightarrow>
   holds_or Assert_failed (co_wf None) (wait_events es s)"
proof (induction es arbitrary: s)
  case Nil
  then show ?case by simp
next
  case (Cons e es)
  obtain p ev seg where e: "e = (p, ev, seg)" by (cases e)
  have "holds_or Assert_failed (co_wf None) (wait_event e s)"
    using Cons.prems e by (auto intro: wait_event_wf)
  then show ?case
    using Cons e wait_event_keeps_blocked [of p ev seg es s] by (auto intro: holds_or_ebind)
qed

lemma wait_contract_blocked:
  assumes "co_wf None s" and "wait_contract (Inr es) s"
  shows "\<forall>e \<in> set es. blocked (fst e) s"
proof
  fix e assume "e \<in> set es"
  with assms(2) have "fst e \<in> set (map (\<lambda>(fd, ev, p). p) (co_interest s))"
    by (auto simp: wait_contract_def)
  then obtain fd ev where "(fd, ev, fst e) \<in> set (co_interest s)"
    by auto
  with co_wf_interest [OF assms(1)] show "blocked (fst e) s"
    unfolding blocked_def by blast
qed

lemma wait_phase_wf:
  assumes "co_wf None s" and "wait_contract ret s"
  shows "holds_or Assert_failed (co_wf None) (wait_phase ret s)"
proof (cases ret)
  case (Inl e)
  with assms show ?thesis by (simp add: wait_phase_def)
next
  case (Inr es)
  have "\<forall>e \<in> set es. blocked (fst e) s"
    using assms Inr by (intro wait_contract_blocked) simp_all
  with assms Inr show ?thesis
    by (auto simp: wait_phase_def wait_contract_def intro: wait_events_wf)
qed
lemma schedule_wf:
  assumes "co_wf None s" and "sched_contract io s"
  shows "holds_or Assert_failed (co_wf None) (schedule io s)"
  unfolding schedule_def
  using assms
  by (intro holds_or_ebind [OF sleep_phase_wf] holds_or_ebind [OF ready_phase_wf] wait_phase_wf)
     (auto simp: sched_contract_def)

section \<open>Fairness\<close>

text \<open>Everything but the ready phase only appends to the ready list.\<close>

definition co_grows :: "co_sys \<Rightarrow> co_sys \<Rightarrow> bool" where
  "co_grows s s' \<longleftrightarrow> (\<exists>new. m_co_ready_list s' = m_co_ready_list s @ new) \<and>
     (\<exists>more. co_resumed s' = co_resumed s @ more)"

lemma co_grows_refl [simp]: "co_grows s s"
  by (simp add: co_grows_def)

lemma co_grows_trans: "co_grows s t \<Longrightarrow> co_grows t u \<Longrightarrow> co_grows s u"
  by (auto simp: co_grows_def)

lemma resume_or_delete_grows: "resume_or_delete seg p s = Inr s' \<Longrightarrow> co_grows s s'"
  by (drule resume_or_delete_frame) (auto simp: co_frame_def co_grows_def)

lemma sleep_phase_grows: "sleep_phase now seg s = Inr s' \<Longrightarrow> co_grows s s'"
  by (auto simp: sleep_phase_def resume_or_delete_grows split: list.splits if_splits)

lemma wait_event_grows: "wait_event e s = Inr s' \<Longrightarrow> co_grows s s'"
  by (auto simp: wait_event_def ebind_eq_Inr epoll_del_def co_grows_def
      dest: resume_or_delete_grows split: prod.splits if_splits)

lemma wait_events_grows: "wait_events es s = Inr s' \<Longrightarrow> co_grows s s'"
  by (induction es arbitrary: s) (auto simp: ebind_eq_Inr intro: co_grows_trans dest: wait_event_grows)

lemma wait_phase_grows: "wait_phase ret s = Inr s' \<Longrightarrow> co_grows s s'"
  by (auto simp: wait_phase_def wait_events_grows split: sum.splits if_splits)

lemma ready_phase_takes_first:
  assumes "m_co_ready_list s = p # q" and "ready_phase seg s = Inr s'"
  shows "(\<exists>new. m_co_ready_list s' = q @ new) \<and> co_resumed s' = co_resumed s @ [p]"
  using assms resume_or_delete_frame [of seg p "s\<lparr> m_co_ready_list := q \<rparr>" s']
  by (auto simp: ready_phase_def co_frame_def)

lemma schedule_takes_first:
  assumes "m_co_ready_list s = p # q" and "schedule io s = Inr s'"
  shows "\<exists>new more. m_co_ready_list s' = q @ new \<and> co_resumed s' = co_resumed s @ more \<and> p \<in> set more"
proof -
  from assms(2) obtain s1 s2 where 1: "sleep_phase (si_now io) (si_sleep_seg io) s = Inr s1"
    and 2: "ready_phase (si_ready_seg io) s1 = Inr s2" and 3: "wait_phase (si_wait io) s2 = Inr s'"
    by (auto simp: schedule_def ebind_eq_Inr)
  from sleep_phase_grows [OF 1] assms(1) obtain q1 m1 where
    s1: "m_co_ready_list s1 = p # q @ q1" "co_resumed s1 = co_resumed s @ m1"
    by (auto simp: co_grows_def)
  from ready_phase_takes_first [OF s1(1) 2] wait_phase_grows [OF 3] s1(2) show ?thesis
    by (auto simp: co_grows_def)
qed

lemma ready_phase_grows_resumed: "ready_phase seg s = Inr s' \<Longrightarrow> \<exists>more. co_resumed s' = co_resumed s @ more"
  by (cases "m_co_ready_list s") (auto simp: ready_phase_def dest!: resume_or_delete_grows simp: co_grows_def)

lemma schedule_resumed: "schedule io s = Inr s' \<Longrightarrow> \<exists>more. co_resumed s' = co_resumed s @ more"
  by (auto simp: schedule_def ebind_eq_Inr co_grows_def
      dest!: sleep_phase_grows wait_phase_grows ready_phase_grows_resumed)

lemma schedules_resumed: "schedules ios s = Inr s' \<Longrightarrow> \<exists>more. co_resumed s' = co_resumed s @ more"
  by (induction ios arbitrary: s) (fastforce simp: ebind_eq_Inr dest!: schedule_resumed)+

lemma schedules_reach:
  "schedules ios s = Inr s' \<Longrightarrow> m_co_ready_list s = xs @ p # ys \<Longrightarrow> length xs < length ios \<Longrightarrow>
   \<exists>more. co_resumed s' = co_resumed s @ more \<and> p \<in> set more"
proof (induction ios arbitrary: s xs ys)
  case Nil
  then show ?case by simp
next
  case (Cons io ios)
  then obtain s1 where s1: "schedule io s = Inr s1" "schedules ios s1 = Inr s'"
    by (auto simp: ebind_eq_Inr)
  show ?case
  proof (cases xs)
    case Nil
    with Cons.prems(2) schedule_takes_first [OF _ s1(1)] schedules_resumed [OF s1(2)] show ?thesis
      by fastforce
  next
    case (Cons x xs')
    with Cons.prems(2) schedule_takes_first [OF _ s1(1)]
    obtain new more where "m_co_ready_list s1 = (xs' @ p # ys) @ new" "co_resumed s1 = co_resumed s @ more"
      by fastforce
    with Cons.IH [OF s1(2), of xs' "ys @ new"] Cons Cons.prems(3) show ?thesis
      by auto
  qed
qed

section \<open>Coroutines that are lost\<close>

definition stranded :: "co_ptr \<Rightarrow> co_sys \<Rightarrow> bool" where
  "stranded p s \<longleftrightarrow> (\<exists>k. co_objs s p = Some k \<and> co_status k = WAITING) \<and>
     (\<forall>fd ev. (fd, ev, p) \<notin> set (co_interest s))"

text \<open>\<open>p\<close> stays stranded and is not resumed.\<close>

definition stays_lost :: "co_ptr \<Rightarrow> co_sys \<Rightarrow> co_sys \<Rightarrow> bool" where
  "stays_lost p s s' \<longleftrightarrow> stranded p s' \<and> (\<exists>more. co_resumed s' = co_resumed s @ more \<and> p \<notin> set more)"

lemma stays_lost_refl: "stranded p s \<Longrightarrow> stays_lost p s s"
  by (simp add: stays_lost_def)

lemma stays_lost_trans: "stays_lost p s t \<Longrightarrow> stays_lost p t u \<Longrightarrow> stays_lost p s u"
  by (auto simp: stays_lost_def)

lemma resume_stays_lost:
  assumes "resume_or_delete seg q s = Inr s'" and "stranded p s" and "q \<noteq> p" and "seg_fresh seg s"
  shows "stays_lost p s s'"
proof -
  from assms(2,4) have "p \<notin> set (new_ptrs (fst seg))"
    by (auto simp: stranded_def seg_fresh_def)
  with resume_or_delete_frame [OF assms(1)] assms(2,3) show ?thesis
    unfolding co_frame_def stays_lost_def stranded_def by (auto, blast)
qed

lemma sleep_phase_lost:
  assumes "co_wf None s" and "stranded p s" and "seg_fresh seg s" and "sleep_phase now seg s = Inr s'"
  shows "stays_lost p s s'"
proof (cases "m_co_sleep_rbtree s")
  case (Cons e m)
  then have "snd e \<in> snd ` set (m_co_sleep_rbtree s)"
    by simp
  then have "snd e \<noteq> p"
    using co_wf_sleep [OF assms(1)] assms(2) by (auto simp: stranded_def)
  with Cons assms(2-4) show ?thesis
    by (auto simp: sleep_phase_def stays_lost_refl resume_stays_lost split: prod.splits if_splits)
qed (use assms in \<open>simp add: sleep_phase_def stays_lost_refl\<close>)

lemma ready_phase_lost:
  assumes "co_wf None s" and "stranded p s" and "seg_fresh seg s" and "ready_phase seg s = Inr s'"
  shows "stays_lost p s s'"
proof (cases "m_co_ready_list s")
  case (Cons q qs)
  then have "q \<in> set (m_co_ready_list s)"
    by simp
  then have "q \<noteq> p"
    using co_wf_ready [OF assms(1)] assms(2) by (auto simp: stranded_def)
  with Cons assms(2-4) resume_stays_lost [of seg q "s\<lparr> m_co_ready_list := qs \<rparr>" s' p] show ?thesis
    by (simp add: ready_phase_def stays_lost_def stranded_def seg_fresh_def)
qed (use assms in \<open>simp add: ready_phase_def stays_lost_refl\<close>)

lemma wait_event_lost:
  assumes "stranded p s" and "q \<noteq> p" and "seg_fresh seg s" and "wait_event (q, ev, seg) s = Inr s'"
  shows "stays_lost p s s'"
proof (cases "ev AND EPOLLERR = 0")
  case True
  with assms show ?thesis
    by (auto simp: wait_event_def intro: resume_stays_lost)
next
  case False
  with assms show ?thesis
    by (auto simp: wait_event_def ebind_eq_Inr epoll_del_def stays_lost_def stranded_def)
qed

lemma wait_events_lost:
  "stranded p s \<Longrightarrow> p \<notin> set (map fst es) \<Longrightarrow> events_fresh es s \<Longrightarrow> wait_events es s = Inr s' \<Longrightarrow>
   stays_lost p s s'"
proof (induction es arbitrary: s)
  case Nil
  then show ?case by (simp add: stays_lost_refl)
next
  case (Cons e es)
  obtain q ev seg where e: "e = (q, ev, seg)" by (cases e)
  with Cons.prems obtain s1 where s1: "wait_event e s = Inr s1" "wait_events es s1 = Inr s'"
    by (auto simp: ebind_eq_Inr)
  with Cons.prems e have "stays_lost p s s1"
    by (auto intro: wait_event_lost)
  moreover from this Cons s1 e have "stays_lost p s1 s'"
    by (auto simp: stays_lost_def)
  ultimately show ?case
    by (rule stays_lost_trans)
qed


lemma schedule_lost:
  assumes "co_wf None s" and "sched_contract io s" and "stranded p s" and "schedule io s = Inr s'"
  shows "stays_lost p s s'"
proof -
  from assms(4) obtain s1 s2 where 1: "sleep_phase (si_now io) (si_sleep_seg io) s = Inr s1"
    and 2: "ready_phase (si_ready_seg io) s1 = Inr s2" and 3: "wait_phase (si_wait io) s2 = Inr s'"
    by (auto simp: schedule_def ebind_eq_Inr)
  with assms(2) have f: "seg_fresh (si_sleep_seg io) s" "seg_fresh (si_ready_seg io) s1" "wait_contract (si_wait io) s2"
    by (auto simp: sched_contract_def)
  have wf: "co_wf None s1"
    using sleep_phase_wf [OF assms(1) f(1), of "si_now io"] 1 by simp
  have l1: "stays_lost p s s1"
    using sleep_phase_lost [OF assms(1,3) f(1) 1] .
  then have l2: "stays_lost p s1 s2"
    using ready_phase_lost [OF wf _ f(2) 2] by (simp add: stays_lost_def)
  then have "stranded p s2"
    by (simp add: stays_lost_def)
  have "stays_lost p s2 s'"
  proof (cases "si_wait io")
    case (Inl e)
    with 3 \<open>stranded p s2\<close> show ?thesis
      by (auto simp: wait_phase_def stays_lost_refl split: if_splits)
  next
    case (Inr es)
    with f(3) \<open>stranded p s2\<close> have "p \<notin> set (map fst es)" "events_fresh es s2"
      unfolding wait_contract_def stranded_def by fastforce+
    with 3 Inr \<open>stranded p s2\<close> show ?thesis
      by (intro wait_events_lost [of p s2 es]) (simp_all add: wait_phase_def)
  qed
  with l1 l2 show ?thesis
    by (blast intro: stays_lost_trans)
qed

fun sched_contracts :: "sched_io list \<Rightarrow> co_sys \<Rightarrow> bool" where
  "sched_contracts [] s = True"
| "sched_contracts (io # ios) s \<longleftrightarrow>
     sched_contract io s \<and> (case schedule io s of Inl _ \<Rightarrow> True | Inr s1 \<Rightarrow> sched_contracts ios s1)"

lemma schedules_lost:
  "co_wf None s \<Longrightarrow> sched_contracts ios s \<Longrightarrow> stranded p s \<Longrightarrow> schedules ios s = Inr s' \<Longrightarrow> stays_lost p s s'"
proof (induction ios arbitrary: s)
  case Nil
  then show ?case by (simp add: stays_lost_refl)
next
  case (Cons io ios)
  then obtain s1 where s1: "schedule io s = Inr s1" "schedules ios s1 = Inr s'"
    by (auto simp: ebind_eq_Inr)
  with Cons.prems have l: "stays_lost p s s1"
    by (auto intro: schedule_lost)
  have "co_wf None s1"
    using schedule_wf [of s io] Cons.prems s1 by simp
  with Cons s1 l have "stays_lost p s1 s'"
    by (simp add: stays_lost_def)
  with l show ?case
    by (rule stays_lost_trans)
qed

lemma epollerr_strands:
  assumes "co_wf None s" and "blocked p s" and "ev AND EPOLLERR \<noteq> 0" and "wait_event (p, ev, seg) s = Inr s'"
  shows "stranded p s'"
proof -
  from assms(2) obtain k where k: "co_objs s p = Some k" "co_status k = WAITING"
    by (auto simp: blocked_def)
  with assms(3,4) have s': "s' = epoll_del (co_wait_fd k) s"
    by (simp add: wait_event_def deref_co_def)
  with k co_wf_interest [OF assms(1), of _ _ p] show ?thesis
    by (auto simp: stranded_def epoll_del_def)
qed

lemma wait_events_epollerr:
  "co_wf None s \<Longrightarrow> distinct (map fst es) \<Longrightarrow> \<forall>e \<in> set es. blocked (fst e) s \<Longrightarrow> events_fresh es s \<Longrightarrow>
   (p, ev, seg) \<in> set es \<Longrightarrow> ev AND EPOLLERR \<noteq> 0 \<Longrightarrow> wait_events es s = Inr s' \<Longrightarrow> stranded p s'"
proof (induction es arbitrary: s)
  case Nil
  then show ?case by simp
next
  case (Cons e es)
  obtain q ev' seg' where e: "e = (q, ev', seg')" by (cases e)
  with Cons.prems obtain s1 where s1: "wait_event (q, ev', seg') s = Inr s1" "wait_events es s1 = Inr s'"
    by (auto simp: ebind_eq_Inr)
  have f: "seg_fresh seg' s" "events_fresh es s1" "blocked q s"
    using Cons.prems(3,4) e s1 by auto
  show ?case
  proof (cases "(p, ev, seg) = e")
    case True
    with e s1 Cons.prems(1,6) f have "stranded p s1"
      by (auto intro: epollerr_strands)
    with wait_events_lost [OF _ _ f(2) s1(2)] Cons.prems(2) True e show ?thesis
      by (auto simp: stays_lost_def)
  next
    case False
    have "co_wf None s1"
      using wait_event_wf [OF Cons.prems(1) f(3,1), of ev'] s1(1) by simp
    moreover have "\<forall>e \<in> set es. blocked (fst e) s1"
      using wait_event_keeps_blocked [OF _ _ f(1) s1(1)] Cons.prems(2,3) e by simp
    ultimately show ?thesis
      using Cons.IH [OF _ _ _ f(2) _ Cons.prems(6) s1(2)] Cons.prems(2,5) False by auto
  qed
qed

lemma schedule_epollerr:
  assumes "co_wf None s" and "sched_contract io s" and "si_wait io = Inr es" and "(p, ev, seg) \<in> set es"
    and "ev AND EPOLLERR \<noteq> 0" and "schedule io s = Inr s'"
  shows "stranded p s'"
proof -
  from assms(6) obtain s1 s2 where 1: "sleep_phase (si_now io) (si_sleep_seg io) s = Inr s1"
    and 2: "ready_phase (si_ready_seg io) s1 = Inr s2" and 3: "wait_events es s2 = Inr s'"
    by (auto simp: schedule_def ebind_eq_Inr wait_phase_def assms(3))
  with assms(2,3) have f: "seg_fresh (si_sleep_seg io) s" "seg_fresh (si_ready_seg io) s1" "wait_contract (Inr es) s2"
    by (auto simp: sched_contract_def)
  have "co_wf None s1"
    using sleep_phase_wf [OF assms(1) f(1), of "si_now io"] 1 by simp
  then have wf: "co_wf None s2"
    using ready_phase_wf [OF _ f(2)] 2 by fastforce
  show ?thesis
    using wait_events_epollerr [OF wf _ wait_contract_blocked [OF wf f(3)] _ assms(4,5) 3] f(3)
    by (simp add: wait_contract_def)
qed

section \<open>The waiting time\<close>

lemma epoll_timeout_bounds:
  "0 < get_epoll_wait_timeout_ms now s \<and> get_epoll_wait_timeout_ms now s \<le> 200"
  by (auto simp: get_epoll_wait_timeout_ms_def MGX_CO_SCHEDULER_EPOLL_WAIT_TIMEOUT_def split: list.splits)

lemma epoll_timeout_not_late:
  "m_co_ready_list s = [] \<Longrightarrow> m_co_sleep_rbtree s = (t, p) # m \<Longrightarrow> now < t \<Longrightarrow>
   now + get_epoll_wait_timeout_ms now s \<le> t"
  by (simp add: get_epoll_wait_timeout_ms_def)

text \<open>With a coroutine in the ready list the scheduler waits for events as long as with none.\<close>

lemma epoll_timeout_ready:
  "m_co_ready_list s \<noteq> [] \<Longrightarrow> get_epoll_wait_timeout_ms now s = 200"
  by (auto simp: get_epoll_wait_timeout_ms_def MGX_CO_SCHEDULER_EPOLL_WAIT_TIMEOUT_def split: list.splits)

section \<open>Properties\<close>

text \<open>
  C39: the scheduler keeps its books. In a state where every live coroutine is exactly where its
  status says (the ready list, the sleep tree, or waiting), one call of \<open>schedule\<close> either ends in
  a failed assertion (memory or \<open>epoll_ctl\<close>) or leads to such a state again: no coroutine is used
  after it was deleted, \<open>msleep\<close> removes its own entry from the sleep tree although it erases the
  first one, no coroutine is queued twice, and no one is running afterwards.
\<close>

theorem schedule_keeps_invariant:
  assumes "co_wf None s" and "sched_contract io s"
  shows "case schedule io s of Inl e \<Rightarrow> e = Assert_failed | Inr s' \<Rightarrow> co_wf None s'"
  using schedule_wf [OF assms] by (simp add: holds_or_def)

definition demo_co :: co_sys where
  "demo_co = \<lparr> co_cnt = 2,
     co_objs = [0x10 \<mapsto> \<lparr> co_id = 1, co_status = READY, co_wait_fd = 0, co_ctx = At_exec \<rparr>,
                0x20 \<mapsto> \<lparr> co_id = 2, co_status = SLEEPING, co_wait_fd = 0, co_ctx = After_msleep \<rparr>,
                0x30 \<mapsto> \<lparr> co_id = 3, co_status = WAITING, co_wait_fd = 7, co_ctx = After_wait \<rparr>],
     m_co_ready_list = [0x10], m_co_sleep_rbtree = [(5, 0x20)], m_cur_co = None, co_epoll_fd = 3,
     co_interest = [(7, 0x19, 0x30)], co_resumed = [] \<rparr>"

definition demo_co_io :: "u32 \<Rightarrow> sched_io" where
  "demo_co_io ev = \<lparr> si_now = 6, si_sleep_seg = ([], Sw_yield True),
     si_ready_seg = ([Co_new 0x40 True 0], Sw_exit), si_wait = Inr [(0x30, ev, ([], Sw_wait 7 1 True))] \<rparr>"

lemma demo_co_wf: "co_wf None demo_co"
  by (auto simp: co_wf_def demo_co_def split: if_splits)

lemmas co_eval = demo_co_def demo_co_io_def schedule_def sleep_phase_def ready_phase_def wait_phase_def
  wait_event_def resume_or_delete_def resume_def co_op_defs epoll_del_def new_coroutine_def Let_def

lemma demo_co_contract: "sched_contract (demo_co_io 1) demo_co" "sched_contract (demo_co_io 8) demo_co"
  by (simp_all add: sched_contract_def wait_contract_def seg_fresh_def MGX_CO_MAX_EVENTS_def EPOLLERR_def co_eval)

theorem schedule_keeps_invariant_witness:
  "case schedule (demo_co_io 1) demo_co of Inl e \<Rightarrow> e = Assert_failed | Inr s' \<Rightarrow> co_wf None s'"
  by (rule schedule_keeps_invariant [OF demo_co_wf demo_co_contract(1)])

text \<open>
  C40: no ready coroutine starves. Every call of \<open>schedule\<close> resumes the first coroutine of the ready
  list and everyone else only appends to it: a coroutine with \<open>n\<close> coroutines before it has been
  resumed after \<open>n + 1\<close> calls.
\<close>

theorem ready_coroutine_resumed:
  assumes "schedules ios s = Inr s'" and "m_co_ready_list s = xs @ p # ys" and "length xs < length ios"
  shows "p \<in> set (drop (length (co_resumed s)) (co_resumed s'))"
  using schedules_reach [OF assms] by auto

theorem ready_coroutine_resumed_witness:
  "\<exists>s'. schedules [demo_co_io 1] demo_co = Inr s' \<and> 0x10 \<in> set (co_resumed s')"
proof -
  have "\<exists>s'. schedules [demo_co_io 1] demo_co = Inr s'"
    by (simp add: EPOLLERR_def co_eval)
  then obtain s' where s': "schedules [demo_co_io 1] demo_co = Inr s'" ..
  with ready_coroutine_resumed [OF s', of "[]" "0x10" "[]"] show ?thesis
    by (simp add: demo_co_def)
qed

text \<open>
  C30: an error event loses its coroutine. When \<open>epoll_wait\<close> reports \<open>EPOLLERR\<close> for a descriptor a
  coroutine waits for, \<open>schedule\<close> only removes the registration. The coroutine stays allocated and
  waiting, and no later call of \<open>schedule\<close>, with whatever events, ever resumes it.
\<close>

theorem epollerr_loses_coroutine:
  assumes "co_wf None s" and "sched_contract io s" and "si_wait io = Inr es" and "(p, ev, seg) \<in> set es"
    and "ev AND EPOLLERR \<noteq> 0" and "schedule io s = Inr s1"
    and "sched_contracts ios s1" and "schedules ios s1 = Inr s'"
  shows "stranded p s' \<and> p \<notin> set (drop (length (co_resumed s1)) (co_resumed s'))"
proof -
  have "co_wf None s1"
    using schedule_wf [OF assms(1,2)] assms(6) by simp
  then have "stays_lost p s1 s'"
    using schedules_lost schedule_epollerr [OF assms(1-6)] assms(7,8) by blast
  then show ?thesis
    by (auto simp: stays_lost_def)
qed

theorem epollerr_loses_coroutine_witness:
  "\<exists>s'. schedule (demo_co_io 8) demo_co = Inr s' \<and> stranded 0x30 s'"
proof -
  have "\<exists>s1. schedule (demo_co_io 8) demo_co = Inr s1"
    by (simp add: EPOLLERR_def co_eval)
  then obtain s1 where s1: "schedule (demo_co_io 8) demo_co = Inr s1" ..
  with epollerr_loses_coroutine [OF demo_co_wf demo_co_contract(2) _ _ _ s1, where ios = "[]"] show ?thesis
    by (simp add: demo_co_io_def EPOLLERR_def)
qed
end
