(* ===== verification/Mgx_Cosocket.thy ===== *)
theory Mgx_Cosocket
  imports Mgx_Coroutine Mgx_Io
begin

text \<open>
  \<^verbatim>\<open>src/misc/mgx_cosocket.cpp\<close>: socket calls for coroutines. A call that would block registers the
  descriptor, switches to the scheduler and tries again when it is resumed. The result of a
  system call is its value together with the value of \<open>errno\<close> after it; the results of the
  successive calls are a list. An operation yields the waits it makes (each is one switch of the
  coroutine, see \<open>wait_switch\<close>) and its result, or \<open>None\<close> while it still waits.
\<close>

section \<open>Operations\<close>

type_synonym sys_ret = "int \<times> errno"

datatype co_wait = W_fd int u32 | W_sleep int

text \<open>The switch that a wait is for the scheduler.\<close>

fun wait_switch :: "bool \<Rightarrow> int \<Rightarrow> co_wait \<Rightarrow> co_sw" where
  "wait_switch kernel_ok now (W_fd fd ev) = Sw_wait fd ev kernel_ok"
| "wait_switch kernel_ok now (W_sleep ms) = Sw_msleep now ms"

record mgx_cosocket =
  m_sockfd :: int

text \<open>The results of \<open>fcntl\<close> and of the two \<open>setsockopt\<close>; the descriptors that are closed on the way.\<close>

definition set_socket_opt :: "int \<Rightarrow> int \<Rightarrow> int \<Rightarrow> int \<Rightarrow> int \<times> int list" where
  "set_socket_opt setfl reuseport reuseaddr sockfd =
     (if setfl < 0 then (setfl, [sockfd])
      else (reuseaddr, (if reuseport < 0 then [sockfd] else []) @ (if reuseaddr < 0 then [sockfd] else [])))"

definition co_socket :: "int \<Rightarrow> int \<Rightarrow> int \<Rightarrow> int \<Rightarrow> mgx_cosocket \<Rightarrow> int \<times> int list \<times> mgx_cosocket" where
  "co_socket fd setfl reuseport reuseaddr k =
     (let k1 = k\<lparr> m_sockfd := fd \<rparr>
      in if fd < 0 then (fd, [], k1)
         else let (ret, closes) = set_socket_opt setfl reuseport reuseaddr fd in (ret, closes, k1))"

fun co_recv :: "int \<Rightarrow> sys_ret list \<Rightarrow> (co_wait list \<times> int) option" where
  "co_recv sockfd [] = None"
| "co_recv sockfd ((ret, err) # rs) =
     (if ret < 0
      then if err = EAGAIN
           then map_option (\<lambda>(ws, x). (W_fd sockfd EPOLLIN # ws, x)) (co_recv sockfd rs)
           else Some ([], ret)
      else Some ([], ret))"

fun co_send :: "int \<Rightarrow> sys_ret list \<Rightarrow> (co_wait list \<times> int) option" where
  "co_send sockfd [] = None"
| "co_send sockfd ((ret, err) # rs) =
     (if ret > 0 then Some ([], ret)
      else if err = EAGAIN
      then map_option (\<lambda>(ws, x). (W_fd sockfd EPOLLOUT # ws, x)) (co_send sockfd rs)
      else Some ([], ret))"

fun co_accept_loop :: "int \<Rightarrow> sys_ret list \<Rightarrow> (co_wait list \<times> int) option" where
  "co_accept_loop m_fd [] = None"
| "co_accept_loop m_fd ((sockfd, err) # rs) =
     (if sockfd \<ge> 0 then Some ([], sockfd)
      else if err = EAGAIN
      then map_option (\<lambda>(ws, x). (W_fd m_fd EPOLLIN # ws, x)) (co_accept_loop m_fd rs)
      else Some ([], sockfd))"

definition co_accept :: "int \<Rightarrow> int \<Rightarrow> int \<Rightarrow> sys_ret list \<Rightarrow> mgx_cosocket \<Rightarrow> (co_wait list \<times> int \<times> int list) option" where
  "co_accept setfl reuseport reuseaddr rs k =
     map_option (\<lambda>(ws, sockfd).
        if sockfd < 0 then (ws, sockfd, [])
        else let (ret, closes) = set_socket_opt setfl reuseport reuseaddr sockfd
             in (ws, if ret < 0 then ret else sockfd, closes))
       (co_accept_loop (m_sockfd k) rs)"

text \<open>The variants for the socket of the object, and closing, with the descriptor that is closed.\<close>

definition co_recv_self :: "sys_ret list \<Rightarrow> mgx_cosocket \<Rightarrow> (co_wait list \<times> int) option" where
  "co_recv_self rs k = co_recv (m_sockfd k) rs"

definition co_send_self :: "sys_ret list \<Rightarrow> mgx_cosocket \<Rightarrow> (co_wait list \<times> int) option" where
  "co_send_self rs k = co_send (m_sockfd k) rs"

definition co_close_self :: "mgx_cosocket \<Rightarrow> co_act" where
  "co_close_self k = Co_close (m_sockfd k)"

text \<open>
  \<open>connect\<close>: the result of the system call, the behaviour of \<open>select\<close> after the sleep, and the socket
  error read by \<open>getsockopt\<close>. The timeout is an \<open>unsigned long\<close> passed to \<open>msleep(int)\<close>. The result comes
  with the value the code assigns to \<open>errno\<close>, if it does.
\<close>

definition co_connect ::
  "sys_ret \<Rightarrow> (int \<Rightarrow> bool \<Rightarrow> bool \<Rightarrow> int \<times> bool \<times> bool) \<Rightarrow> int \<Rightarrow> u64 \<Rightarrow> mgx_cosocket \<Rightarrow>
   io_err + (co_wait list \<times> int \<times> errno option)" where
  "co_connect r select so_error timeout k =
     (let finish = (if so_error = 0 then (0, None) else (-1, Some ETIMEDOUT))
      in if snd r \<noteq> EINPROGRESS then Inr ([], fst r, None)
         else if timeout = 0 then Inr ([W_fd (m_sockfd k) EPOLLOUT], finish)
         else
           let ws = [W_sleep (sint (ucast timeout :: u32))]
           in ebind (mgx_select select (m_sockfd k) False True 0) (\<lambda>ret.
                if ret = 0 then Inr (ws, -1, Some ETIMEDOUT)
                else if ret < 0 then Inr (ws, ret, None)
                else Inr (ws, finish)))"

section \<open>Calls that wait\<close>

text \<open>The common contract of the loops: wait once for each result that says so, then return.\<close>

locale blocking_call =
  fixes call :: "int \<Rightarrow> sys_ret list \<Rightarrow> (co_wait list \<times> int) option"
    and ev :: u32
    and again :: "sys_ret \<Rightarrow> bool"
  assumes call_start: "call fd [] = None"
    and call_again: "again r \<Longrightarrow> call fd (r # rs) = map_option (\<lambda>(ws, x). (W_fd fd ev # ws, x)) (call fd rs)"
    and call_done: "\<not> again r \<Longrightarrow> call fd (r # rs) = Some ([], fst r)"
begin

lemma call_returns:
  "list_all again rs \<Longrightarrow> \<not> again r \<Longrightarrow>
   call fd (rs @ r # rest) = Some (replicate (length rs) (W_fd fd ev), fst r)"
  by (induction rs) (auto simp: call_again call_done)

lemma call_waits: "list_all again rs \<Longrightarrow> call fd rs = None"
  by (induction rs) (auto simp: call_start call_again)

lemma call_result:
  "call fd rs = Some (ws, x) \<Longrightarrow>
   \<exists>n r rest. rs = take n rs @ r # rest \<and> list_all again (take n rs) \<and> \<not> again r \<and>
     ws = replicate n (W_fd fd ev) \<and> x = fst r"
proof (induction rs arbitrary: ws)
  case Nil
  then show ?case by (simp add: call_start)
next
  case (Cons r rs)
  show ?case
  proof (cases "again r")
    case True
    with Cons.prems obtain ws' where ws: "call fd rs = Some (ws', x)" "ws = W_fd fd ev # ws'"
      by (auto simp: call_again)
    with Cons.IH obtain n r' rest where "rs = take n rs @ r' # rest" "list_all again (take n rs)"
      "\<not> again r'" "ws' = replicate n (W_fd fd ev)" "x = fst r'"
      by blast
    with True ws show ?thesis
      by (intro exI [of _ "Suc n"] exI [of _ r'] exI [of _ rest]) simp
  next
    case False
    with Cons.prems show ?thesis
      by (intro exI [of _ 0] exI [of _ r] exI [of _ rs]) (simp add: call_done)
  qed
qed

end

definition recv_again :: "sys_ret \<Rightarrow> bool" where
  "recv_again r \<longleftrightarrow> fst r < 0 \<and> snd r = EAGAIN"

definition send_again :: "sys_ret \<Rightarrow> bool" where
  "send_again r \<longleftrightarrow> fst r \<le> 0 \<and> snd r = EAGAIN"

interpretation recv_call: blocking_call co_recv EPOLLIN recv_again
  by unfold_locales (auto simp: recv_again_def)

interpretation send_call: blocking_call co_send EPOLLOUT send_again
  by unfold_locales (auto simp: send_again_def)

interpretation accept_call: blocking_call co_accept_loop EPOLLIN recv_again
  by unfold_locales (auto simp: recv_again_def)

section \<open>Observations\<close>

text \<open>
  \<open>send\<close> looks at \<open>errno\<close> for the result 0 as well, which does not set it: sending an empty message
  after an earlier \<open>EAGAIN\<close> waits again and again.
\<close>

lemma empty_send_never_returns: "co_send fd (replicate n (0, EAGAIN)) = None"
  by (rule send_call.call_waits) (simp add: send_again_def list_all_iff)

text \<open>After a failed \<open>SO_REUSEPORT\<close> the descriptor is closed, used and closed again.\<close>

lemma set_socket_opt_closes_twice:
  "setfl \<ge> 0 \<Longrightarrow> reuseport < 0 \<Longrightarrow> reuseaddr < 0 \<Longrightarrow>
   set_socket_opt setfl reuseport reuseaddr fd = (reuseaddr, [fd, fd])"
  by (simp add: set_socket_opt_def)

text \<open>A connection that succeeds at once returns at once only if \<open>errno\<close> is not stale.\<close>

lemma co_connect_cases:
  "err \<noteq> EINPROGRESS \<Longrightarrow> co_connect (ret, err) sel so t k = Inr ([], ret, None)"
  "co_connect (ret, EINPROGRESS) sel so 0 k =
     Inr ([W_fd (m_sockfd k) EPOLLOUT], if so = 0 then (0, None) else (-1, Some ETIMEDOUT))"
  "t \<noteq> 0 \<Longrightarrow> 0 \<le> m_sockfd k \<Longrightarrow> m_sockfd k < 1024 \<Longrightarrow> sel 0 False True = (0, False, False) \<Longrightarrow>
     co_connect (ret, EINPROGRESS) sel so t k = Inr ([W_sleep (sint (ucast t :: u32))], -1, Some ETIMEDOUT)"
  by (simp_all add: co_connect_def mgx_select_def FD_SETSIZE_def)

text \<open>With a timeout the call fails for descriptors that do not fit into a descriptor set.\<close>

lemma co_connect_large_fd:
  "t \<noteq> 0 \<Longrightarrow> m_sockfd k \<ge> 1024 \<Longrightarrow> co_connect (ret, EINPROGRESS) sel so t k = Inl Fd_set_overrun"
  by (simp add: co_connect_def mgx_select_def FD_SETSIZE_def)

text \<open>
  C37: the socket calls of a coroutine look blocking to their caller. While every system call so far
  would block, \<open>recv\<close>, \<open>send\<close> and \<open>accept\<close> do not return. For each such call they wait exactly once
  for their own descriptor and direction, and then \<open>recv\<close> and \<open>send\<close> return the result of the first
  call that does not block, be it data or an error. So does \<open>accept\<close> for an error, and nothing is closed. A
  descriptor is returned, and not closed, if its options could be set. If not, the result of the option that
  failed is returned and the descriptor is closed: once for each failing option, and at once
  if the first one fails; a failure of \<open>SO_REUSEPORT\<close> alone closes the descriptor but returns it.
\<close>

theorem cosocket_calls_block:
  assumes "list_all recv_again rs"
  shows "co_recv fd rs = None \<and> co_send fd rs = None \<and> co_accept setfl port reuse rs k = None \<and>
    (\<not> recv_again r \<longrightarrow> co_recv fd (rs @ r # rest) = Some (replicate (length rs) (W_fd fd EPOLLIN), fst r)) \<and>
    (fst r > 0 \<or> snd r \<noteq> EAGAIN \<longrightarrow>
       co_send fd (rs @ r # rest) = Some (replicate (length rs) (W_fd fd EPOLLOUT), fst r)) \<and>
    (\<not> recv_again r \<longrightarrow> co_accept setfl port reuse (rs @ r # rest) k =
       Some (replicate (length rs) (W_fd (m_sockfd k) EPOLLIN),
         if fst r < 0 then (fst r, [])
         else if setfl < 0 then (setfl, [fst r])
         else (if reuse < 0 then reuse else fst r,
               (if port < 0 then [fst r] else []) @ (if reuse < 0 then [fst r] else []))))"
proof -
  have s: "list_all send_again rs"
    using assms by (auto simp: list_all_iff recv_again_def send_again_def)
  have "co_accept_loop (m_sockfd k) (rs @ r # rest) =
      Some (replicate (length rs) (W_fd (m_sockfd k) EPOLLIN), fst r)" if "\<not> recv_again r"
    using that assms by (intro accept_call.call_returns) (auto simp: recv_again_def)
  with recv_call.call_returns [OF assms] send_call.call_returns [OF s] show ?thesis
    using recv_call.call_waits [OF assms] send_call.call_waits [OF s] accept_call.call_waits [OF assms]
    by (auto simp: send_again_def co_accept_def set_socket_opt_def)
qed

theorem cosocket_calls_block_witness:
  "co_recv 5 [(-1, EAGAIN), (-1, EAGAIN), (12, EAGAIN)] = Some ([W_fd 5 EPOLLIN, W_fd 5 EPOLLIN], 12) \<and>
   co_accept 0 0 0 [(-1, EAGAIN), (-1, EAGAIN), (12, EAGAIN)] \<lparr> m_sockfd = 4 \<rparr> =
     Some ([W_fd 4 EPOLLIN, W_fd 4 EPOLLIN], 12, []) \<and>
   co_accept 0 0 (-1) [(-1, EAGAIN), (-1, EAGAIN), (12, EAGAIN)] \<lparr> m_sockfd = 4 \<rparr> =
     Some ([W_fd 4 EPOLLIN, W_fd 4 EPOLLIN], -1, [12])"
  using cosocket_calls_block [of "[(-1, EAGAIN), (-1, EAGAIN)]" 5 0 0 0 "\<lparr> m_sockfd = 4 \<rparr>" "(12, EAGAIN)" "[]"]
    cosocket_calls_block [of "[(-1, EAGAIN), (-1, EAGAIN)]" 5 0 0 "-1" "\<lparr> m_sockfd = 4 \<rparr>" "(12, EAGAIN)" "[]"]
  by (simp add: recv_again_def)

end
