(* ===== verification/Mgx_Proctitle.thy ===== *)
theory Mgx_Proctitle
  imports Mgx_Printf
begin

text \<open>
  \<^verbatim>\<open>src/app/mgx_setproctitle.cpp\<close>: the environment strings are copied to new memory, and the title of
  the process is then written over the area that held the arguments and the environment. The
  area is a character list; a pointer is an offset into it or into the new block. A write that
  would leave its memory is an error.
\<close>

section \<open>Operations\<close>

abbreviation zero :: char where "zero \<equiv> CHR 0x00"

datatype pt_err = Area_overrun | Block_overrun | Null_argv
datatype str_ptr = In_area nat | In_block nat

record proc_mem =
  pt_area :: string
  pt_block :: string
  g_argv :: "str_ptr list"
  environ :: "str_ptr list"
  g_env_size :: nat
  argv_size :: nat

definition cstr_at :: "string \<Rightarrow> nat \<Rightarrow> string" where
  "cstr_at mem off = takeWhile (\<lambda>c. c \<noteq> zero) (drop off mem)"

fun str_of :: "proc_mem \<Rightarrow> str_ptr \<Rightarrow> string" where
  "str_of m (In_area off) = cstr_at (pt_area m) off"
| "str_of m (In_block off) = cstr_at (pt_block m) off"

definition sizes :: "proc_mem \<Rightarrow> str_ptr list \<Rightarrow> nat" where
  "sizes m ps = sum_list (map (\<lambda>p. length (str_of m p) + 1) ps)"

text \<open>Writing at an offset, \<open>None\<close> if the text does not fit.\<close>

definition write_at :: "nat \<Rightarrow> string \<Rightarrow> string \<Rightarrow> string option" where
  "write_at off s mem =
     (if off + length s \<le> length mem then Some (take off mem @ s @ drop (off + length s) mem) else None)"

text \<open>The second loop of \<open>mgx_move_env\<close>; \<open>t\<close> is the offset of \<open>t_mgx_env\<close>.\<close>

fun move_env_loop :: "nat \<Rightarrow> str_ptr list \<Rightarrow> proc_mem \<Rightarrow> pt_err + (str_ptr list \<times> proc_mem)" where
  "move_env_loop t [] m = Inr ([], m)"
| "move_env_loop t (p # ps) m =
     (let s = str_of m p
      in case write_at t (s @ [zero]) (pt_block m) of
           None \<Rightarrow> Inl Block_overrun
         | Some block \<Rightarrow>
             let m1 = m\<lparr> pt_block := block \<rparr>
             in ebind (move_env_loop (t + length (str_of m1 (In_block t)) + 1) ps m1)
                  (\<lambda>(qs, m2). Inr (In_block t # qs, m2)))"

definition mgx_move_env :: "proc_mem \<Rightarrow> pt_err + proc_mem" where
  "mgx_move_env m =
     (let sz = g_env_size m + sizes m (environ m);
          m1 = m\<lparr> g_env_size := sz, pt_block := replicate sz zero \<rparr>
      in ebind (move_env_loop 0 (environ m) m1) (\<lambda>(qs, m2). Inr (m2\<lparr> environ := qs \<rparr>)))"

definition mgx_setproctitle :: "string \<Rightarrow> proc_mem \<Rightarrow> pt_err + proc_mem" where
  "mgx_setproctitle title m =
     (let m1 = (if argv_size m = 0 then m\<lparr> argv_size := sizes m (g_argv m) \<rparr> else m);
          title_size = length title + 1;
          total = g_env_size m1 + argv_size m1
      in if title_size > total then Inr m1
         else
           case g_argv m1 of
             In_area off # _ \<Rightarrow>
               (case write_at off (title @ [zero] @ replicate (total - title_size) zero) (pt_area m1) of
                  None \<Rightarrow> Inl Area_overrun
                | Some area \<Rightarrow> Inr (m1\<lparr> g_argv := [In_area off], pt_area := area \<rparr>))
           | _ \<Rightarrow> Inl Null_argv)"

fun setproctitles :: "string list \<Rightarrow> proc_mem \<Rightarrow> pt_err + proc_mem" where
  "setproctitles [] m = Inr m"
| "setproctitles (t # ts) m = ebind (mgx_setproctitle t m) (setproctitles ts)"

section \<open>The layout the kernel provides\<close>

definition flat :: "string list \<Rightarrow> string" where
  "flat ss = concat (map (\<lambda>s. s @ [zero]) ss)"

fun offsets :: "nat \<Rightarrow> string list \<Rightarrow> nat list" where
  "offsets off [] = []"
| "offsets off (s # ss) = off # offsets (off + length s + 1) ss"

definition proc_layout :: "string list \<Rightarrow> string list \<Rightarrow> string \<Rightarrow> proc_mem \<Rightarrow> bool" where
  "proc_layout argv env rest m \<longleftrightarrow>
     argv \<noteq> [] \<and> list_all (\<lambda>s. zero \<notin> set s) (argv @ env) \<and>
     pt_area m = flat argv @ flat env @ rest \<and>
     g_argv m = map In_area (offsets 0 argv) \<and>
     environ m = map In_area (offsets (length (flat argv)) env) \<and>
     g_env_size m = 0 \<and> argv_size m = 0"

lemma flat_simps [simp]: "flat [] = []" "flat (s # ss) = s @ zero # flat ss" "flat (xs @ ys) = flat xs @ flat ys"
  by (simp_all add: flat_def)

lemma length_flat: "length (flat ss) = sum_list (map (\<lambda>s. length s + 1) ss)"
  by (induction ss) auto

lemma takeWhile_zero: "zero \<notin> set s \<Longrightarrow> takeWhile (\<lambda>c. c \<noteq> zero) (s @ zero # post) = s"
  by (induction s) auto

lemma cstr_at_append: "zero \<notin> set s \<Longrightarrow> cstr_at (pre @ s @ zero # post) (length pre) = s"
  by (simp add: cstr_at_def takeWhile_zero)

lemma cstrs_at_offsets:
  "list_all (\<lambda>s. zero \<notin> set s) ss \<Longrightarrow> map (cstr_at (pre @ flat ss @ post)) (offsets (length pre) ss) = ss"
proof (induction ss arbitrary: pre)
  case Nil
  then show ?case by simp
next
  case (Cons s ss)
  from Cons.IH [of "pre @ s @ [zero]"] Cons.prems show ?case
    using cstr_at_append [of s pre "flat ss @ post"] by simp
qed

lemma strs_of_same_area:
  assumes "set ps \<subseteq> range In_area" and "pt_area m' = pt_area m"
  shows "map (str_of m') ps = map (str_of m) ps"
  using assms by (induction ps) auto

lemma strs_of_same_block:
  assumes "set ps \<subseteq> range In_block" and "pt_block m' = pt_block m"
  shows "map (str_of m') ps = map (str_of m) ps"
  using assms by (induction ps) auto

lemma move_env_loop_flat:
  "list_all (\<lambda>s. zero \<notin> set s) ss \<Longrightarrow> map (str_of m) ps = ss \<Longrightarrow> set ps \<subseteq> range In_area \<Longrightarrow>
   pt_block m = done @ replicate (length (flat ss)) zero \<Longrightarrow>
   move_env_loop (length done) ps m =
     Inr (map In_block (offsets (length done) ss), m\<lparr> pt_block := done @ flat ss \<rparr>)"
proof (induction ss arbitrary: ps m "done")
  case Nil
  then show ?case by simp
next
  case (Cons s ss)
  then obtain p ps' where ps: "ps = p # ps'" "str_of m p = s" "map (str_of m) ps' = ss"
    by auto
  let ?done = "done @ s @ [zero]"
  define m1 where "m1 = m\<lparr> pt_block := ?done @ replicate (length (flat ss)) zero \<rparr>"
  have w: "write_at (length done) (s @ [zero]) (pt_block m) = Some (?done @ replicate (length (flat ss)) zero)"
    using Cons.prems(4) by (simp add: write_at_def)
  have "str_of m1 (In_block (length done)) = s"
    using Cons.prems(1) cstr_at_append [of s "done" "replicate (length (flat ss)) zero"] by (simp add: m1_def)
  moreover have "map (str_of m1) ps' = ss"
    using ps Cons.prems(3) strs_of_same_area [of ps' m1 m] by (simp add: m1_def)
  then have "move_env_loop (length ?done) ps' m1 =
      Inr (map In_block (offsets (length ?done) ss), m1\<lparr> pt_block := ?done @ flat ss \<rparr>)"
    using Cons.prems ps by (intro Cons.IH) (auto simp: m1_def)
  ultimately show ?case
    using ps w by (simp add: m1_def Let_def)
qed

lemma sizes_layout: "map (str_of m) ps = ss \<Longrightarrow> sizes m ps = length (flat ss)"
  by (auto simp: sizes_def length_flat comp_def)

lemma layout_strings:
  assumes "proc_layout argv env rest m"
  shows "map (str_of m) (g_argv m) = argv" and "map (str_of m) (environ m) = env"
  using assms cstrs_at_offsets [of argv "[]" "flat env @ rest"] cstrs_at_offsets [of env "flat argv" rest]
  by (auto simp: proc_layout_def comp_def)

lemma layout_area:
  assumes "proc_layout argv env rest m"
  shows "set (g_argv m) \<subseteq> range In_area" and "set (environ m) \<subseteq> range In_area"
  using assms by (auto simp: proc_layout_def)

lemma move_env_layout:
  assumes "proc_layout argv env rest m"
  shows "mgx_move_env m = Inr (m\<lparr> g_env_size := length (flat env), pt_block := flat env,
    environ := map In_block (offsets 0 env) \<rparr>)"
proof -
  let ?m = "m\<lparr> g_env_size := length (flat env), pt_block := replicate (length (flat env)) zero \<rparr>"
  have sz: "sizes m (environ m) = length (flat env)"
    using layout_strings(2) [OF assms] by (rule sizes_layout)
  have "map (str_of ?m) (environ m) = env"
    by (rule trans [OF strs_of_same_area [OF layout_area(2) [OF assms]] layout_strings(2) [OF assms]]) simp
  then have "move_env_loop 0 (environ m) ?m = Inr (map In_block (offsets 0 env), ?m\<lparr> pt_block := flat env \<rparr>)"
    using assms move_env_loop_flat [of env ?m "environ m" "[]"] by (auto simp: proc_layout_def)
  with assms sz show ?thesis
    by (simp add: mgx_move_env_def Let_def proc_layout_def)
qed

text \<open>The states between calls of \<open>mgx_setproctitle\<close>.\<close>

definition title_inv :: "nat \<Rightarrow> string list \<Rightarrow> string \<Rightarrow> proc_mem \<Rightarrow> bool" where
  "title_inv L env rest m \<longleftrightarrow>
     (\<exists>ps. g_argv m = In_area 0 # ps) \<and> g_env_size m = length (flat env) \<and>
     (argv_size m = L \<or> argv_size m = 0 \<and> sizes m (g_argv m) = L) \<and> L > 0 \<and>
     length (pt_area m) = L + length (flat env) + length rest \<and>
     drop (L + length (flat env)) (pt_area m) = rest \<and>
     map (str_of m) (environ m) = env \<and> set (environ m) \<subseteq> range In_block"

lemma setproctitle_inv:
  assumes "title_inv L env rest m"
  shows "\<exists>m'. mgx_setproctitle title m = Inr m' \<and> title_inv L env rest m' \<and>
    (length title < L + length (flat env) \<longrightarrow>
       pt_area m' = title @ replicate (L + length (flat env) - length title) zero @ rest) \<and>
    (\<not> length title < L + length (flat env) \<longrightarrow> pt_area m' = pt_area m)"
proof -
  from assms obtain ps where inv: "g_argv m = In_area 0 # ps" "g_env_size m = length (flat env)"
    "argv_size m = L \<or> argv_size m = 0 \<and> sizes m (g_argv m) = L" "L > 0"
    "length (pt_area m) = L + length (flat env) + length rest"
    "drop (L + length (flat env)) (pt_area m) = rest"
    "map (str_of m) (environ m) = env" "set (environ m) \<subseteq> range In_block"
    by (auto simp: title_inv_def)
  define m1 where "m1 = (if argv_size m = 0 then m\<lparr> argv_size := sizes m (g_argv m) \<rparr> else m)"
  have m1: "argv_size m1 = L" "g_argv m1 = In_area 0 # ps" "g_env_size m1 = length (flat env)"
    "pt_area m1 = pt_area m" "environ m1 = environ m" "pt_block m1 = pt_block m"
    using inv by (auto simp: m1_def)
  have same: "map (str_of m') (environ m) = env" if "pt_block m' = pt_block m" for m'
    using inv(7,8) that strs_of_same_block [of "environ m" m' m] by simp
  have i1: "title_inv L env rest m1"
    using inv m1 same [of m1] by (simp add: title_inv_def)
  show ?thesis
  proof (cases "length title < L + length (flat env)")
    case False
    with i1 m1 show ?thesis
      by (simp add: mgx_setproctitle_def m1_def [symmetric])
  next
    case True
    let ?area = "title @ replicate (L + length (flat env) - length title) zero @ rest"
    let ?m = "m1\<lparr> g_argv := [In_area 0], pt_area := ?area \<rparr>"
    have r: "zero # replicate (L + length (flat env) - Suc (length title)) zero =
        replicate (L + length (flat env) - length title) zero"
      using True by (metis Suc_diff_Suc replicate_Suc)
    have "write_at 0 (title @ [zero] @ replicate (L + length (flat env) - Suc (length title)) zero) (pt_area m) =
        Some ?area"
      using True inv(5,6) r by (simp add: write_at_def)
    then have "mgx_setproctitle title m = Inr ?m"
      using True m1 by (simp add: mgx_setproctitle_def Let_def m1_def [symmetric] add.commute)
    moreover have "title_inv L env rest ?m"
      using True inv m1 same [of ?m] by (simp add: title_inv_def)
    ultimately show ?thesis
      using True by simp
  qed
qed

lemma setproctitles_inv:
  "title_inv L env rest m \<Longrightarrow> \<exists>m'. setproctitles ts m = Inr m' \<and> title_inv L env rest m'"
proof (induction ts arbitrary: m)
  case Nil
  then show ?case by simp
next
  case (Cons t ts)
  from setproctitle_inv [OF Cons.prems, of t] obtain m1 where
    "mgx_setproctitle t m = Inr m1" "title_inv L env rest m1"
    by blast
  with Cons.IH show ?case
    by simp
qed

lemma title_inv_start:
  assumes "proc_layout argv env rest m" and "mgx_move_env m = Inr m1"
  shows "title_inv (length (flat argv)) env rest m1"
proof -
  have m1: "m1 = m\<lparr> g_env_size := length (flat env), pt_block := flat env, environ := map In_block (offsets 0 env) \<rparr>"
    using assms move_env_layout by simp
  have "map (str_of m1) (environ m1) = env"
    using assms(1) cstrs_at_offsets [of env "[]" "[]"] by (simp add: m1 proc_layout_def comp_def)
  moreover have "map (str_of m1) (g_argv m1) = argv"
    unfolding m1
    by (simp, rule trans [OF strs_of_same_area [OF layout_area(1) [OF assms(1)]] layout_strings(1) [OF assms(1)]])
       simp
  then have "sizes m1 (g_argv m1) = length (flat argv)"
    by (rule sizes_layout)
  moreover obtain a as where "argv = a # as"
    using assms(1) by (cases argv) (auto simp: proc_layout_def)
  ultimately show ?thesis
    using assms(1) by (auto simp: title_inv_def m1 proc_layout_def)
qed

text \<open>
  C22: the process title is written inside the memory of the arguments and the environment, and the
  environment survives. In the layout the kernel provides, \<open>mgx_move_env\<close> succeeds; after it, any
  sequence of calls of \<open>mgx_setproctitle\<close> stays in bounds and changes nothing behind the two areas,
  every environment variable keeps its value, and a title that fits is the first string of the
  area, followed by zeros only. A title that does not fit changes nothing.
\<close>

theorem setproctitle_in_bounds:
  assumes "proc_layout argv env rest m"
  shows "\<exists>m1. mgx_move_env m = Inr m1 \<and> map (str_of m1) (environ m1) = env \<and>
    (\<exists>m2 m3. setproctitles titles m1 = Inr m2 \<and> mgx_setproctitle title m2 = Inr m3 \<and>
      map (str_of m3) (environ m3) = env \<and>
      pt_area m3 = (if length title < length (flat argv) + length (flat env)
        then title @ replicate (length (flat argv) + length (flat env) - length title) zero @ rest
        else pt_area m2))"
proof -
  obtain m1 where m1: "mgx_move_env m = Inr m1"
    using move_env_layout [OF assms] by simp
  then have i1: "title_inv (length (flat argv)) env rest m1"
    by (rule title_inv_start [OF assms])
  then obtain m2 where m2: "setproctitles titles m1 = Inr m2" "title_inv (length (flat argv)) env rest m2"
    using setproctitles_inv by blast
  obtain m3 where m3: "mgx_setproctitle title m2 = Inr m3" "title_inv (length (flat argv)) env rest m3"
    "pt_area m3 = (if length title < length (flat argv) + length (flat env)
        then title @ replicate (length (flat argv) + length (flat env) - length title) zero @ rest
        else pt_area m2)"
    using setproctitle_inv [OF m2(2), of title] by auto
  have "map (str_of m1) (environ m1) = env" "map (str_of m3) (environ m3) = env"
    using i1 m3(2) by (simp_all add: title_inv_def)
  with m1 m2(1) m3(1,3) show ?thesis
    by auto
qed

definition demo_mem :: proc_mem where
  "demo_mem = \<lparr> pt_area = ''./mgx'' @ [zero] @ ''A=1'' @ [zero], pt_block = [], g_argv = [In_area 0],
     environ = [In_area 6], g_env_size = 0, argv_size = 0 \<rparr>"

theorem setproctitle_in_bounds_witness:
  "\<exists>m1. mgx_move_env demo_mem = Inr m1 \<and> map (str_of m1) (environ m1) = [''A=1''] \<and>
    (\<exists>m3. mgx_setproctitle ''mgx: w'' m1 = Inr m3 \<and> pt_area m3 = ''mgx: w'' @ [zero, zero, zero, zero])"
  using setproctitle_in_bounds [of "[''./mgx'']" "[''A=1'']" "[]" demo_mem "[]" "''mgx: w''"]
  by (auto simp: demo_mem_def proc_layout_def eval_nat_numeral)

end
