(* ===== verification/Mgx_Log_Init.thy ===== *)
theory Mgx_Log_Init
  imports Mgx_Log Mgx_Conf
begin

text \<open>
  The start of the log in \<^verbatim>\<open>src/app/mgx_log.cpp\<close>: the file of the day and its directories. The file
  system is the set of existing directories; \<open>mkdir\<close> succeeds if all directories above exist and
  the argument \<open>allowed\<close> permits it.
\<close>

section \<open>Operations\<close>

definition DEFAULT_LOG_LEVEL :: int where "DEFAULT_LOG_LEVEL = 6"
definition DEFAULT_DEBUG_MODE :: int where "DEFAULT_DEBUG_MODE = 0"
definition DEFAULT_LOG_PATH :: string where "DEFAULT_LOG_PATH = ''./log/''"
definition FILENAME_MAX :: nat where "FILENAME_MAX = 4096"

abbreviation slash :: char where "slash \<equiv> CHR ''/''"

record tm =
  tm_year :: int
  tm_mon :: int
  tm_mday :: int
  tm_hour :: int
  tm_min :: int
  tm_sec :: int

text \<open>\<^verbatim>\<open>%0wd\<close> of the C library.\<close>

definition pad_int :: "nat \<Rightarrow> int \<Rightarrow> string" where
  "pad_int w i =
     (if i < 0 then ''-'' @ replicate (w - length (int_str i)) (CHR ''0'') @ tl (int_str i)
      else replicate (w - length (int_str i)) (CHR ''0'') @ int_str i)"

text \<open>\<open>get_cur_time_string\<close> for the format of \<open>mgx_log_init\<close>; the separators are arguments.\<close>

definition get_cur_time_string :: "char \<Rightarrow> char \<Rightarrow> tm \<Rightarrow> string" where
  "get_cur_time_string dsep tsep t =
     pad_int 4 (tm_year t + 1900) @ [dsep] @ pad_int 2 (tm_mon t + 1) @ [dsep] @ pad_int 2 (tm_mday t) @
     [space] @ pad_int 2 (tm_hour t) @ [tsep] @ pad_int 2 (tm_min t) @ [tsep] @ pad_int 2 (tm_sec t)"

text \<open>The strings that \<open>dirname\<close> holds in the loop of \<open>mk_pdirs\<close>: the text before each slash but a leading one.\<close>

fun dirs_from :: "string \<Rightarrow> string \<Rightarrow> string list" where
  "dirs_from done [] = []"
| "dirs_from done (c # cs) = (if c = slash then done # dirs_from (done @ [c]) cs else dirs_from (done @ [c]) cs)"

definition parent_dirs :: "string \<Rightarrow> string list" where
  "parent_dirs fname = (case fname of [] \<Rightarrow> [] | c # cs \<Rightarrow> dirs_from [c] cs)"

definition mkdir :: "(string \<Rightarrow> bool) \<Rightarrow> string \<Rightarrow> string set \<Rightarrow> string set" where
  "mkdir allowed d fs = (if allowed d \<and> list_all (\<lambda>e. e \<in> fs) (parent_dirs d) then insert d fs else fs)"

fun mk_dirs_loop :: "(string \<Rightarrow> bool) \<Rightarrow> string list \<Rightarrow> string set \<Rightarrow> string set" where
  "mk_dirs_loop allowed [] fs = fs"
| "mk_dirs_loop allowed (d # ds) fs = mk_dirs_loop allowed ds (if d \<in> fs then fs else mkdir allowed d fs)"

text \<open>\<open>None\<close>: \<open>sprintf\<close> writes behind \<open>dirname\<close>.\<close>

definition mk_pdirs :: "(string \<Rightarrow> bool) \<Rightarrow> string \<Rightarrow> string set \<Rightarrow> string set option" where
  "mk_pdirs allowed fname fs =
     (if length fname < FILENAME_MAX then Some (mk_dirs_loop allowed (parent_dirs fname) fs) else None)"

definition log_file_name :: "configs \<Rightarrow> tm \<Rightarrow> string" where
  "log_file_name configs t =
     get_string ''LogPathName'' DEFAULT_LOG_PATH configs @ [slash] @
     takeWhile (\<lambda>c. c \<noteq> space) (get_cur_time_string slash slash t) @ ''/mgx.log''"

datatype log_init_err = Log_stoi stoi_err | Log_overrun | Log_format pf_err

text \<open>
  The result of \<open>open\<close> is an argument. The output collects the descriptor that is closed and the
  message on the standard error stream.
\<close>

definition mgx_log_init ::
  "configs \<Rightarrow> tm \<Rightarrow> (string \<Rightarrow> bool) \<Rightarrow> int \<Rightarrow> string \<Rightarrow> string set \<Rightarrow> mgx_log_t \<Rightarrow> log_out \<Rightarrow>
   log_init_err + (string set \<times> mgx_log_t \<times> log_out)" where
  "mgx_log_init configs t allowed fd errstr fs g lo =
     (case get_int ''LogLevel'' DEFAULT_LOG_LEVEL configs of Inl e \<Rightarrow> Inl (Log_stoi e) | Inr level \<Rightarrow>
      case get_int ''DebugMode'' DEFAULT_DEBUG_MODE configs of Inl e \<Rightarrow> Inl (Log_stoi e) | Inr dbg \<Rightarrow>
      case mk_pdirs allowed (log_file_name configs t) fs of None \<Rightarrow> Inl Log_overrun | Some fs1 \<Rightarrow>
        let g1 = g\<lparr> log_level := level, debug_mode := (dbg \<noteq> 0) \<rparr>;
            lo1 = (if log_fd g1 \<noteq> -1 \<and> log_fd g1 \<noteq> STDERR_FILENO
                   then lo\<lparr> lo_closed := log_fd g1 # lo_closed lo \<rparr> else lo)
        in if fd < 0
           then (case mgx_log_stderr ''open %s error: %s'' [cstr (log_file_name configs t), cstr errstr] lo1 of
                   Inl e \<Rightarrow> Inl (Log_format e)
                 | Inr lo2 \<Rightarrow> Inr (fs1, g1\<lparr> log_fd := STDERR_FILENO \<rparr>, lo2))
           else Inr (fs1, g1\<lparr> log_fd := fd \<rparr>, lo1))"

section \<open>The directories of the log file\<close>

lemma dirs_from_append:
  "dirs_from done (xs @ ys) = dirs_from done xs @ dirs_from (done @ xs) ys"
  by (induction xs arbitrary: "done") auto

text \<open>The directories above a directory in the list come before it.\<close>

lemma dirs_from_split:
  "dirs_from done cs = as @ d # bs \<Longrightarrow> \<exists>xs ys. cs = xs @ slash # ys \<and> d = done @ xs \<and> dirs_from done xs = as"
proof (induction cs arbitrary: "done" "as")
  case Nil
  then show ?case by simp
next
  case (Cons c cs)
  show ?case
  proof (cases "c = slash \<and> as = []")
    case True
    with Cons.prems show ?thesis
      by (intro exI [of _ "[]"] exI [of _ cs]) simp
  next
    case False
    define as' where "as' = (if c = slash then tl as else as)"
    have as': "dirs_from (done @ [c]) cs = as' @ d # bs" "as = (if c = slash then done # as' else as')"
      using Cons.prems False by (cases "as"; simp add: as'_def split: if_splits)+
    with Cons.IH obtain xs ys where "cs = xs @ slash # ys" "d = (done @ [c]) @ xs" "dirs_from (done @ [c]) xs = as'"
      by blast
    with as'(2) have "c # cs = (c # xs) @ slash # ys \<and> d = done @ (c # xs) \<and> dirs_from done (c # xs) = as"
      by auto
    then show ?thesis
      by blast
  qed
qed

lemma parent_dirs_split:
  assumes "parent_dirs f = as @ d # bs"
  shows "parent_dirs d = as"
proof (cases f)
  case Nil
  with assms show ?thesis by (simp add: parent_dirs_def)
next
  case (Cons c cs)
  with assms have "dirs_from [c] cs = as @ d # bs"
    by (simp add: parent_dirs_def)
  then obtain xs where "d = [c] @ xs" "dirs_from [c] xs = as"
    using dirs_from_split by blast
  then show ?thesis
    by (simp add: parent_dirs_def)
qed

lemma mk_dirs_loop_mono: "fs \<subseteq> mk_dirs_loop allowed ds fs"
proof (induction ds arbitrary: fs)
  case Nil
  then show ?case by simp
next
  case (Cons d ds)
  have "fs \<subseteq> (if d \<in> fs then fs else mkdir allowed d fs)"
    by (auto simp: mkdir_def)
  with Cons [of "if d \<in> fs then fs else mkdir allowed d fs"] show ?case
    by auto
qed

lemma mk_dirs_loop_creates:
  "parent_dirs f = as @ ds \<Longrightarrow> set as \<subseteq> fs \<Longrightarrow> list_all allowed ds \<Longrightarrow> set (as @ ds) \<subseteq> mk_dirs_loop allowed ds fs"
proof (induction ds arbitrary: "as" fs)
  case Nil
  then show ?case by simp
next
  case (Cons d ds)
  have "parent_dirs d = as"
    using Cons.prems(1) by (rule parent_dirs_split)
  with Cons.prems have "set (as @ [d]) \<subseteq> (if d \<in> fs then fs else mkdir allowed d fs)"
    by (auto simp: mkdir_def list_all_iff)
  with Cons.IH [of "as @ [d]"] Cons.prems(1,3) show ?case
    by simp
qed

text \<open>If nothing forbids it, all directories of the log file exist before it is opened.\<close>

lemma mk_pdirs_creates_all:
  assumes "list_all allowed (parent_dirs fname)" and "mk_pdirs allowed fname fs = Some fs'"
  shows "set (parent_dirs fname) \<subseteq> fs'" and "fs \<subseteq> fs'"
  using mk_dirs_loop_creates [of fname "[]" "parent_dirs fname" fs allowed] assms
    mk_dirs_loop_mono [of fs allowed "parent_dirs fname"]
  by (auto simp: mk_pdirs_def split: if_splits)

text \<open>After the start the log has a descriptor, and the previous file is closed, never the error stream.\<close>

lemma mgx_log_stderr_closed: "mgx_log_stderr fmt args lo = Inr lo' \<Longrightarrow> lo_closed lo' = lo_closed lo"
  by (auto simp: mgx_log_stderr_def split: sum.splits)

lemma mgx_log_init_descriptor:
  assumes "mgx_log_init configs t allowed fd errstr fs g lo = Inr (fs', g', lo')"
  shows "log_fd g' = (if fd < 0 then STDERR_FILENO else fd)"
    and "STDERR_FILENO \<in> set (lo_closed lo') \<Longrightarrow> STDERR_FILENO \<in> set (lo_closed lo)"
  using assms
  by (auto simp: mgx_log_init_def Let_def dest!: mgx_log_stderr_closed
      split: sum.split_asm option.split_asm if_split_asm)

lemma log_file_example:
  "log_file_name [''LogPathName'' \<mapsto> ''/var/log'']
     \<lparr> tm_year = 123, tm_mon = 3, tm_mday = 7, tm_hour = 1, tm_min = 2, tm_sec = 3 \<rparr> =
   ''/var/log/2023/04/07/mgx.log''"
  by code_simp

end
