(* ===== verification/Mgx_Process.thy ===== *)
theory Mgx_Process
  imports Mgx_Event Mgx_Proctitle Mgx_Log_Init
begin

text \<open>
  \<^verbatim>\<open>src/signal/mgx_signal.cpp\<close>, \<^verbatim>\<open>src/process/mgx_process_cycle.cpp\<close>, \<^verbatim>\<open>src/process/mgx_daemon.cpp\<close> and
  \<^verbatim>\<open>src/app/mgx.cpp\<close>: the master process, which starts the workers, collects those that exit and
  replaces them, and the start of a worker. Results of \<open>fork\<close>, \<open>waitpid\<close> and \<open>sigaction\<close> are
  arguments. Signals are blocked except in \<open>sigsuspend\<close>, so the handlers run between two turns of
  the master's loop.
\<close>

section \<open>Signals\<close>

definition SIGHUP :: int where "SIGHUP = 1"
definition SIGINT :: int where "SIGINT = 2"
definition SIGQUIT :: int where "SIGQUIT = 3"
definition SIGUSR1 :: int where "SIGUSR1 = 10"
definition SIGUSR2 :: int where "SIGUSR2 = 12"
definition SIGALRM :: int where "SIGALRM = 14"
definition SIGTERM :: int where "SIGTERM = 15"
definition SIGCHLD :: int where "SIGCHLD = 17"
definition SIGWINCH :: int where "SIGWINCH = 28"
definition SIGIO :: int where "SIGIO = 29"
definition SIGSYS :: int where "SIGSYS = 31"

lemmas signo_defs = SIGHUP_def SIGINT_def SIGQUIT_def SIGUSR1_def SIGUSR2_def SIGALRM_def SIGTERM_def
  SIGCHLD_def SIGWINCH_def SIGIO_def SIGSYS_def

record mgx_signal =
  signo :: int
  signame :: string
  has_handler :: bool

definition signals :: "mgx_signal list" where
  "signals =
    [\<lparr> signo = SIGUSR1, signame = ''SIGUSR1'', has_handler = True \<rparr>,
     \<lparr> signo = SIGINT, signame = ''SIGINT'', has_handler = True \<rparr>,
     \<lparr> signo = SIGTERM, signame = ''SIGTERM'', has_handler = True \<rparr>,
     \<lparr> signo = SIGHUP, signame = ''SIGHUP'', has_handler = True \<rparr>,
     \<lparr> signo = SIGCHLD, signame = ''SIGCHLD'', has_handler = True \<rparr>,
     \<lparr> signo = SIGQUIT, signame = ''SIGQUIT'', has_handler = True \<rparr>,
     \<lparr> signo = SIGIO, signame = ''SIGIO'', has_handler = True \<rparr>,
     \<lparr> signo = SIGSYS, signame = ''SIGSYS'', has_handler = True \<rparr>,
     \<lparr> signo = 0, signame = [], has_handler = False \<rparr>]"

datatype sig_action = Act_handler | Act_ignore

text \<open>The registered actions, or the signal whose registration fails and ends the process.\<close>

fun signal_init_loop :: "(int \<Rightarrow> bool) \<Rightarrow> mgx_signal list \<Rightarrow> int + (int \<times> sig_action) list" where
  "signal_init_loop sigaction_ok [] = Inr []"
| "signal_init_loop sigaction_ok (s # ss) =
     (if signo s = 0 then Inr []
      else if sigaction_ok (signo s)
      then map_sum id (\<lambda>as. (signo s, if has_handler s then Act_handler else Act_ignore) # as)
             (signal_init_loop sigaction_ok ss)
      else Inl (signo s))"

definition mgx_signal_init :: "(int \<Rightarrow> bool) \<Rightarrow> int + (int \<times> sig_action) list" where
  "mgx_signal_init sigaction_ok = signal_init_loop sigaction_ok signals"

datatype proc_log =
    Exited_on_signal int u32
  | Exited_with_code int u32
  | Waitpid_failed errno
  | Signal_received int string "int option"
  | Fork_error int errno
  | Restart_subprocess
  | Log_rotated

datatype child_ret = Wait_none | Wait_fail errno | Wait_pid int u32

definition WTERMSIG :: "u32 \<Rightarrow> u32" where "WTERMSIG status = status AND 0x7f"
definition WEXITSTATUS :: "u32 \<Rightarrow> u32" where "WEXITSTATUS status = drop_bit 8 status AND 0xff"

text \<open>
  \<open>mgx_process_get_status\<close>: the children that are collected and the messages. The two branches for
  \<open>ECHILD\<close> differ in the message only.
\<close>

fun mgx_process_get_status :: "bool \<Rightarrow> child_ret list \<Rightarrow> (int list \<times> proc_log list) option" where
  "mgx_process_get_status one [] = None"
| "mgx_process_get_status one (Wait_none # ws) = Some ([], [])"
| "mgx_process_get_status one (Wait_fail e # ws) =
     (if e = EINTR then mgx_process_get_status one ws
      else if e = ECHILD \<and> one then Some ([], [])
      else Some ([], [Waitpid_failed e]))"
| "mgx_process_get_status one (Wait_pid pid status # ws) =
     map_option (\<lambda>(pids, logs).
        (pid # pids,
         (if WTERMSIG status \<noteq> 0 then Exited_on_signal pid (WTERMSIG status)
          else Exited_with_code pid (WEXITSTATUS status)) # logs))
       (mgx_process_get_status True ws)"

text \<open>The master process and the children that have not been collected.\<close>

record master =
  g_is_mgx_master :: bool
  g_mgx_reap :: bool
  g_mgx_log_rotate :: bool
  nums_worker :: int
  children :: "int list"
  g_mgx_log :: mgx_log_t
  proc_logs :: "proc_log list"

text \<open>The name that is logged is the one of the first entry; the loop that looks for the entry does not keep it.\<close>

definition default_handler :: "int \<Rightarrow> int option \<Rightarrow> child_ret list \<Rightarrow> master \<Rightarrow> master option" where
  "default_handler sig si_pid ws m =
     (let name = signame (signals ! 0);
          log = Signal_received sig name (case si_pid of Some p \<Rightarrow> if p \<noteq> 0 then Some p else None | None \<Rightarrow> None)
      in map_option (\<lambda>m1. m1\<lparr> proc_logs := proc_logs m1 @ [log] \<rparr>)
          (if g_is_mgx_master m
           then if sig = SIGCHLD
                then map_option (\<lambda>(pids, logs).
                       m\<lparr> g_mgx_reap := True, children := filter (\<lambda>c. c \<notin> set pids) (children m),
                          proc_logs := proc_logs m @ logs \<rparr>)
                     (mgx_process_get_status False ws)
                else if sig = SIGUSR1 then Some (m\<lparr> g_mgx_log_rotate := True \<rparr>)
                else Some m
           else Some m))"

section \<open>Starting and replacing workers\<close>

datatype start_err =
    Title_overrun
  | Proctitle pt_err
  | Conf_error stoi_err
  | Log_start log_init_err
  | Exit_1

text \<open>What a call of \<open>mgx_log_init\<close> depends on, and its effect on the log object.\<close>

record log_env =
  ln_configs :: configs
  ln_time :: tm
  ln_allowed :: "string \<Rightarrow> bool"
  ln_fd :: int
  ln_errstr :: string
  ln_fs :: "string set"
  ln_out :: log_out

definition start_log :: "log_env \<Rightarrow> mgx_log_t \<Rightarrow> start_err + mgx_log_t" where
  "start_log e g =
     map_sum Log_start (\<lambda>(fs, g1, lo). g1)
       (mgx_log_init (ln_configs e) (ln_time e) (ln_allowed e) (ln_fd e) (ln_errstr e) (ln_fs e) g (ln_out e))"

datatype fork_ret = Fork_err errno | Fork_child | Fork_parent int
datatype role = In_master | In_worker int

definition mgx_spawn_process :: "int \<Rightarrow> fork_ret \<Rightarrow> master \<Rightarrow> role \<times> master" where
  "mgx_spawn_process worker_nr ret m =
     (case ret of
        Fork_err e \<Rightarrow> (In_master, m\<lparr> proc_logs := proc_logs m @ [Fork_error worker_nr e] \<rparr>)
      | Fork_child \<Rightarrow> (In_worker worker_nr, m\<lparr> g_is_mgx_master := False \<rparr>)
      | Fork_parent pid \<Rightarrow> (In_master, m\<lparr> children := children m @ [pid] \<rparr>))"

text \<open>In the child \<open>mgx_worker_process_cycle\<close> does not return, so the loop ends there.\<close>

fun start_worker_loop :: "int \<Rightarrow> fork_ret list \<Rightarrow> master \<Rightarrow> role \<times> master" where
  "start_worker_loop i [] m = (In_master, m)"
| "start_worker_loop i (r # rs) m =
     (case mgx_spawn_process i r m of
        (In_master, m1) \<Rightarrow> start_worker_loop (i + 1) rs m1
      | (In_worker nr, m1) \<Rightarrow> (In_worker nr, m1))"

definition mgx_start_worker_process :: "int \<Rightarrow> fork_ret list \<Rightarrow> master \<Rightarrow> role \<times> master" where
  "mgx_start_worker_process nums rets m = start_worker_loop 0 (take (nat nums) rets) m"

text \<open>One turn of the loop of \<open>mgx_process_cycle\<close>, after \<open>sigsuspend\<close>.\<close>

definition master_turn :: "log_env \<Rightarrow> fork_ret \<Rightarrow> master \<Rightarrow> start_err + (role \<times> master)" where
  "master_turn e ret m =
     (let (r, m1) =
        (if g_mgx_reap m
         then (case mgx_spawn_process (nums_worker m) ret (m\<lparr> g_mgx_reap := False, nums_worker := nums_worker m + 1 \<rparr>) of
                 (In_master, m1) \<Rightarrow> (In_master, m1\<lparr> proc_logs := proc_logs m1 @ [Restart_subprocess] \<rparr>)
               | (In_worker nr, m1) \<Rightarrow> (In_worker nr, m1))
         else (In_master, m))
      in if r = In_master \<and> g_mgx_log_rotate m1
         then ebind (start_log e (g_mgx_log m1)) (\<lambda>g.
                Inr (r, m1\<lparr> g_mgx_log_rotate := False, g_mgx_log := g,
                             proc_logs := proc_logs m1 @ [Log_rotated] \<rparr>))
         else Inr (r, m1))"

section \<open>Start of the master\<close>

definition master_sigset :: "int list" where
  "master_sigset = [SIGCHLD, SIGALRM, SIGIO, SIGINT, SIGHUP, SIGTERM, SIGUSR1, SIGUSR2, SIGTERM, SIGWINCH, SIGQUIT]"

definition MASTER_PROCESS_NAME :: string where "MASTER_PROCESS_NAME = ''mgx: master process''"
definition WORKER_PROCESS_NAME :: string where "WORKER_PROCESS_NAME = ''mgx: worker process''"

text \<open>\<open>strcat\<close> into the array of 1024 characters; one is needed for the terminating zero.\<close>

fun append_args :: "string \<Rightarrow> string list \<Rightarrow> start_err + string" where
  "append_args title [] = Inr title"
| "append_args title (a # as) =
     (if length (title @ '' '' @ a) \<ge> 1024 then Inl Title_overrun else append_args (title @ '' '' @ a) as)"

definition master_title :: "string list \<Rightarrow> proc_mem \<Rightarrow> start_err + proc_mem" where
  "master_title argv pm =
     ebind (append_args MASTER_PROCESS_NAME argv) (\<lambda>title.
       map_sum Proctitle id (ebind (mgx_move_env pm) (mgx_setproctitle title)))"

text \<open>\<open>mgx_process_cycle\<close> up to its loop.\<close>

definition mgx_process_cycle ::
  "configs \<Rightarrow> proc_mem \<Rightarrow> fork_ret list \<Rightarrow> master \<Rightarrow> start_err + (role \<times> master \<times> proc_mem)" where
  "mgx_process_cycle configs pm rets m =
     ebind (master_title (map (str_of pm) (g_argv pm)) pm) (\<lambda>pm1.
     ebind (map_sum Conf_error id (get_int ''WorkerProcesses'' 1 configs)) (\<lambda>nums.
       let (r, m1) = mgx_start_worker_process nums rets (m\<lparr> nums_worker := nums \<rparr>) in Inr (r, m1, pm1)))"

section \<open>Start of a worker\<close>

text \<open>
  The environment: the system calls of the listening sockets, the results of \<open>pthread_create\<close>, and
  the environment of \<open>epoll_init\<close>. Afterwards the worker runs the event loop for ever.
\<close>

record worker_io =
  wi_listen :: "listen_io list"
  wi_threads :: "int list"
  wi_epoll :: init_io

definition mgx_worker_process_init ::
  "bool \<Rightarrow> configs \<Rightarrow> worker_io \<Rightarrow> th_pool \<Rightarrow> mgx_socket \<Rightarrow> start_err + (th_pool \<times> mgx_socket)" where
  "mgx_worker_process_init use_http configs io pool s =
     ebind (map_sum Conf_error id (get_int ''WorkerThreadCount'' 1 configs)) (\<lambda>th_cnt.
       let (ok, k, pool1) = th_pool_create th_cnt (wi_threads io) pool
       in if \<not> ok then Inl Exit_1
          else case epoll_init use_http (wi_epoll io) s of None \<Rightarrow> Inl Exit_1 | Some s1 \<Rightarrow> Inr (pool1, s1))"

definition mgx_worker_process_cycle ::
  "bool \<Rightarrow> configs \<Rightarrow> worker_io \<Rightarrow> proc_mem \<Rightarrow> th_pool \<Rightarrow> mgx_socket \<Rightarrow>
   start_err + (th_pool \<times> mgx_socket \<times> proc_mem)" where
  "mgx_worker_process_cycle use_http configs io pm pool s =
     ebind (map_sum Conf_error id (init configs (wi_listen io) s)) (\<lambda>(ok, s1, ports).
       if \<not> ok then Inl Exit_1
       else
         ebind (mgx_worker_process_init use_http configs io pool s1) (\<lambda>(pool1, s2).
         ebind (map_sum Proctitle id (mgx_setproctitle WORKER_PROCESS_NAME pm)) (\<lambda>pm1.
           Inr (pool1, s2, pm1))))"

section \<open>Daemon and main\<close>

text \<open>
  The descriptor table of the child. \<open>open\<close> returns the smallest free descriptor, which is an
  argument here; \<open>Dev_null\<close> is what it refers to.
\<close>

datatype fd_target = Dev_null | Fd_other int

definition mgx_daemon :: "fork_ret \<Rightarrow> bool \<Rightarrow> int \<Rightarrow> (int \<rightharpoonup> fd_target) \<Rightarrow> start_err + (int \<times> (int \<rightharpoonup> fd_target))" where
  "mgx_daemon ret setsid_ok fd fds =
     (case ret of
        Fork_err e \<Rightarrow> Inr (-1, fds)
      | Fork_parent pid \<Rightarrow> Inr (1, fds)
      | Fork_child \<Rightarrow>
          if \<not> setsid_ok then Inl Exit_1
          else
            let fds1 = fds(0 := None, 1 := None, 2 := None);
                fds2 = fds1(fd \<mapsto> Dev_null);
                fds3 = fds2(1 := fds2 fd, 2 := fds2 fd)
            in Inr (0, fds3(fd := None)))"

datatype main_out = Main_exit int | Main_return int | Main_runs bool

text \<open>
  \<open>main\<close> up to \<open>mgx_process_cycle\<close>: \<open>Main_runs http\<close> is the start of the master with the socket
  object of the build.
\<close>

definition mgx_main ::
  "bool \<Rightarrow> string option \<Rightarrow> log_env \<Rightarrow> (int \<Rightarrow> bool) \<Rightarrow> fork_ret \<Rightarrow> bool \<Rightarrow> int \<Rightarrow> mgx_log_t \<Rightarrow>
   (int \<rightharpoonup> fd_target) \<Rightarrow> start_err + (main_out \<times> configs \<times> mgx_log_t \<times> (int \<rightharpoonup> fd_target))" where
  "mgx_main use_http file e sigaction_ok ret setsid_ok fd g fds =
     (let (ok, configs) = load file Map.empty
      in if \<not> ok then Inr (Main_exit 1, configs, g, fds)
         else
           ebind (start_log (e\<lparr> ln_configs := configs \<rparr>) g) (\<lambda>g1.
             case mgx_signal_init sigaction_ok of
               Inl sig \<Rightarrow> Inr (Main_exit 1, configs, g1, fds)
             | Inr acts \<Rightarrow>
                 ebind (map_sum Conf_error id (get_int ''Daemon'' 0 configs)) (\<lambda>d.
                   if d \<noteq> 0
                   then ebind (mgx_daemon ret setsid_ok fd fds) (\<lambda>(res, fds1).
                          if res = 1 then Inr (Main_return 0, configs, g1, fds1(2 := None))
                          else Inr (Main_runs use_http, configs, g1, fds1))
                   else Inr (Main_runs use_http, configs, g1, fds))))"

section \<open>Facts\<close>

text \<open>Every signal of the table gets the handler.\<close>

lemma signal_init_all:
  "(\<And>s. sigaction_ok s) \<Longrightarrow>
   mgx_signal_init sigaction_ok = Inr (map (\<lambda>s. (s, Act_handler)) [SIGUSR1, SIGINT, SIGTERM, SIGHUP, SIGCHLD, SIGQUIT, SIGIO, SIGSYS])"
  by (simp add: mgx_signal_init_def signals_def signo_defs)

text \<open>The log names every signal after the first entry of the table.\<close>

lemma default_handler_name:
  "default_handler sig si_pid ws m = Some m' \<Longrightarrow>
   \<exists>p. last (proc_logs m') = Signal_received sig ''SIGUSR1'' p"
  by (auto simp: default_handler_def signals_def Let_def)

text \<open>The title of the master overruns its array exactly when it does not fit.\<close>

lemma append_args_fits:
  "append_args title as = (if as \<noteq> [] \<and> length title + length (concat (map (\<lambda>a. space # a) as)) \<ge> 1024
     then Inl Title_overrun else Inr (title @ concat (map (\<lambda>a. space # a) as)))"
proof (induction "as" arbitrary: title)
  case Nil
  then show ?case by simp
next
  case (Cons a "as")
  show ?case
    using Cons.IH [of "title @ '' '' @ a"] by auto
qed

text \<open>A daemon has no standard input: the descriptor that \<open>open\<close> returned is closed at the end.\<close>

lemma daemon_closes_stdin:
  "mgx_daemon Fork_child True 0 fds = Inr (0, fds(0 := None, 1 \<mapsto> Dev_null, 2 \<mapsto> Dev_null))"
  by (auto simp: mgx_daemon_def Let_def fun_eq_iff)

text \<open>A start with \<open>n\<close> successful forks leaves the master with \<open>n\<close> children.\<close>

lemma start_worker_loop_parents:
  "start_worker_loop i (map Fork_parent pids) m = (In_master, m\<lparr> children := children m @ pids \<rparr>)"
  by (induction pids arbitrary: i m) (simp_all add: mgx_spawn_process_def)

text \<open>What \<open>waitpid\<close> delivers: the children that have exited, then that there is nothing more.\<close>

fun collects :: "child_ret list \<Rightarrow> int list \<Rightarrow> bool" where
  "collects (Wait_none # ws) pids = (pids = [])"
| "collects (Wait_fail e # ws) pids = (if e = EINTR then collects ws pids else e = ECHILD \<and> pids = [])"
| "collects (Wait_pid p st # ws) (q # pids) = (p = q \<and> collects ws pids)"
| "collects ws pids = False"

lemma get_status_collects:
  "collects ws pids \<Longrightarrow> \<exists>logs. mgx_process_get_status one ws = Some (pids, logs)"
proof (induction ws pids arbitrary: one rule: collects.induct)
  case (2 e ws pids)
  then show ?case
    by (cases "e = EINTR") auto
next
  case (3 p st ws q pids)
  then obtain logs where "mgx_process_get_status True ws = Some (pids, logs)"
    by auto
  with 3 show ?case
    by auto
qed simp_all

lemma length_filter_not_in:
  "distinct ps \<Longrightarrow> set ps \<subseteq> set cs \<Longrightarrow> distinct cs \<Longrightarrow>
   length (filter (\<lambda>c. c \<notin> set ps) cs) = length cs - length ps"
proof -
  assume "distinct ps" "set ps \<subseteq> set cs" "distinct cs"
  then have "length (filter (\<lambda>c. c \<in> set ps) cs) = length ps"
    by (metis distinct_card distinct_filter inf.absorb_iff2 inf_commute set_filter Int_def mem_Collect_eq)
  then show ?thesis
    using length_filter_partition [of "\<lambda>c. c \<in> set ps" cs] by simp
qed

text \<open>
  C21: the master collects all workers that have exited and replaces one. Let \<open>waitpid\<close> report the
  exited children \<open>pids\<close>, with interruptions. The handler of \<open>SIGCHLD\<close> returns, none of them is left
  as a zombie, and the next turn of the loop clears the flag and forks exactly once: the number
  of workers stays the same if one has exited, and is smaller by \<open>k - 1\<close> if \<open>k\<close> have.
\<close>

theorem master_replaces_one_worker:
  assumes "g_is_mgx_master m" and "\<not> g_mgx_log_rotate m" and "collects ws pids" and "distinct pids"
    and "distinct (children m)" and "set pids \<subseteq> set (children m)" and "pids \<noteq> []" and "new \<notin> set (children m)"
  shows "\<exists>m1 m2. default_handler SIGCHLD None ws m = Some m1 \<and> master_turn e (Fork_parent new) m1 = Inr (In_master, m2) \<and>
    set (children m2) = set (children m) - set pids \<union> {new} \<and>
    length (children m2) = length (children m) - length pids + 1 \<and> \<not> g_mgx_reap m2"
proof -
  from get_status_collects [OF assms(3), of False] obtain logs where
    "mgx_process_get_status False ws = Some (pids, logs)" ..
  then obtain m1 where m1: "default_handler SIGCHLD None ws m = Some m1" "g_mgx_reap m1"
    "children m1 = filter (\<lambda>c. c \<notin> set pids) (children m)" "\<not> g_mgx_log_rotate m1"
    using assms(1,2) by (simp add: default_handler_def Let_def)
  have l: "length (filter (\<lambda>c. c \<notin> set pids) (children m)) = length (children m) - length pids"
    using assms(4-6) by (intro length_filter_not_in)
  from m1 have "\<exists>m2. master_turn e (Fork_parent new) m1 = Inr (In_master, m2) \<and> children m2 = children m1 @ [new] \<and> \<not> g_mgx_reap m2"
    by (simp add: master_turn_def mgx_spawn_process_def)
  with m1 l show ?thesis
    by auto
qed

definition demo_master :: master where
  "demo_master = \<lparr> g_is_mgx_master = True, g_mgx_reap = False, g_mgx_log_rotate = False, nums_worker = 4,
     children = [11, 12, 13, 14], g_mgx_log = \<lparr> log_level = 6, log_fd = 3, debug_mode = False \<rparr>, proc_logs = [] \<rparr>"

definition demo_log_env :: log_env where
  "demo_log_env = \<lparr> ln_configs = Map.empty,
     ln_time = \<lparr> tm_year = 123, tm_mon = 0, tm_mday = 1, tm_hour = 0, tm_min = 0, tm_sec = 0 \<rparr>,
     ln_allowed = (\<lambda>_. True), ln_fd = 5, ln_errstr = [], ln_fs = {}, ln_out = \<lparr> lo_writes = [], lo_closed = [] \<rparr> \<rparr>"

theorem master_replaces_one_worker_witness:
  "\<exists>m1 m2. default_handler SIGCHLD None [Wait_pid 11 9, Wait_fail EINTR, Wait_pid 13 0, Wait_none] demo_master = Some m1 \<and>
    master_turn demo_log_env (Fork_parent 15) m1 = Inr (In_master, m2) \<and> length (children m2) = 3"
  using master_replaces_one_worker [of demo_master "[Wait_pid 11 9, Wait_fail EINTR, Wait_pid 13 0, Wait_none]" "[11, 13]" 15 demo_log_env]
  by (fastforce simp: demo_master_def)

end
