(* ===== verification/Mgx_Redis.thy ===== *)
theory Mgx_Redis
  imports Mgx_Prelude
begin

text \<open>
  \<^verbatim>\<open>src/misc/mgx_redis.cpp\<close> and \<^verbatim>\<open>src/include/mgx_redis.h\<close>: the wrapper of the key-value store client, used
  in place of the database when the build sets \<open>USE_REDIS\<close>. The client library is a parameter: a
  context is null or carries an error text, and a command on the store \<open>'s\<close> returns a reply that is
  null or has a string, which is null for a missing key.
\<close>

record 's redis_api =
  redisConnect :: "string \<Rightarrow> int \<Rightarrow> string option option"
  redisCommand :: "string option option \<Rightarrow> string list \<Rightarrow> 's \<Rightarrow> string option option \<times> 's"

record mgx_redis =
  rd_connect :: "string option option"
  rd_leaked :: nat    \<comment> \<open>replies that are never freed\<close>

datatype redis_err = Null_reply | Null_reply_str

definition redis_connect :: "'s redis_api \<Rightarrow> string \<Rightarrow> int \<Rightarrow> mgx_redis \<Rightarrow> bool \<times> mgx_redis" where
  "redis_connect api host port r =
     (let r1 = r\<lparr> rd_connect := redisConnect api host port \<rparr>
      in case rd_connect r1 of Some (Some errstr) \<Rightarrow> (False, r1) | _ \<Rightarrow> (True, r1))"

definition Mgx_Redis :: "'s redis_api \<Rightarrow> mgx_redis" where
  "Mgx_Redis api = snd (redis_connect api ''127.0.0.1'' 6379 \<lparr> rd_connect = None, rd_leaked = 0 \<rparr>)"

definition redis_get :: "'s redis_api \<Rightarrow> string \<Rightarrow> mgx_redis \<Rightarrow> 's \<Rightarrow> redis_err + (string \<times> 's)" where
  "redis_get api key r st =
     (case redisCommand api (rd_connect r) [''GET'', key] st of
        (None, _) \<Rightarrow> Inl Null_reply
      | (Some None, _) \<Rightarrow> Inl Null_reply_str
      | (Some (Some str), st') \<Rightarrow> Inr (str, st'))"

definition redis_set :: "'s redis_api \<Rightarrow> string \<Rightarrow> string \<Rightarrow> mgx_redis \<Rightarrow> 's \<Rightarrow> mgx_redis \<times> 's" where
  "redis_set api key value r st =
     (let (reply, st') = redisCommand api (rd_connect r) [''SET'', key, value] st
      in (if reply = None then r else r\<lparr> rd_leaked := rd_leaked r + 1 \<rparr>, st'))"

text \<open>
  The test in \<open>connect\<close> treats a null context as success, and commands on it fail: the first \<open>get\<close>
  reads a null reply. A key that is not in the store makes \<open>get\<close> construct a string from null.
\<close>

lemma redis_connect_null_accepted:
  assumes "redisConnect api host port = None" and "\<And>args s. redisCommand api None args s = (None, s)"
  shows "fst (redis_connect api host port r)"
    and "redis_get api key (snd (redis_connect api host port r)) st = Inl Null_reply"
  using assms by (simp_all add: redis_connect_def redis_get_def)

text \<open>A store of associations that behaves as the client library documents.\<close>

definition map_store :: "(string \<rightharpoonup> string) redis_api" where
  "map_store =
     \<lparr> redisConnect = (\<lambda>_ _. Some None),
       redisCommand = (\<lambda>ctx args st.
         case (ctx, args) of
           (Some None, [cmd, k]) \<Rightarrow> (if cmd = ''GET'' then (Some (st k), st) else (None, st))
         | (Some None, [cmd, k, v]) \<Rightarrow>
             (if cmd = ''SET'' then (Some (Some ''OK''), st(k \<mapsto> v)) else (None, st))
         | _ \<Rightarrow> (None, st)) \<rparr>"

lemma redis_set_get:
  "redis_get map_store k (fst (redis_set map_store k v (Mgx_Redis map_store) st))
     (snd (redis_set map_store k v (Mgx_Redis map_store) st)) = Inr (v, st(k \<mapsto> v))"
  by (simp add: redis_get_def redis_set_def Mgx_Redis_def redis_connect_def map_store_def)

lemma redis_get_missing: "st k = None \<Longrightarrow> redis_get map_store k (Mgx_Redis map_store) st = Inl Null_reply_str"
  by (simp add: redis_get_def Mgx_Redis_def redis_connect_def map_store_def)

lemma redis_set_leaks:
  "rd_leaked (fst (redis_set map_store k v (Mgx_Redis map_store) st)) = 1"
  by (simp add: redis_set_def Mgx_Redis_def redis_connect_def map_store_def)

end
