(* ===== verification/Mgx_Mutex.thy ===== *)
theory Mgx_Mutex
  imports Mgx_Prelude
begin

text \<open>
  \<^verbatim>\<open>src/misc/mgx_mutex.cpp\<close>: the scope guard of a mutex. The other theories treat a section that the
  code protects by a guard as one step. Here threads run at the granularity of single actions on
  the shared state, and guarded sections are shown to behave as if they were executed one after
  the other. A guard that is a temporary object protects nothing.
\<close>

section \<open>The guard\<close>

text \<open>
  The state of a mutex is its owner. The constructor locks, and waits (\<open>None\<close>) while the mutex has an
  owner; the destructor unlocks.
\<close>

type_synonym thread_id = nat

definition Mgx_mutex :: "thread_id \<Rightarrow> thread_id option \<Rightarrow> thread_id option option" where
  "Mgx_mutex i owner = (case owner of None \<Rightarrow> Some (Some i) | Some _ \<Rightarrow> None)"

definition mutex_destroy :: "thread_id option \<Rightarrow> thread_id option" where
  "mutex_destroy owner = None"

section \<open>Threads with guarded sections\<close>

datatype 'g lk_op = Lk_ctor | Lk_dtor | Lk_act "'g \<Rightarrow> 'g"

text \<open>
  \<open>Mgx_mutex mutex(&m); body\<close>: the guard lives to the end of the block. \<open>Mgx_mutex(&m); body\<close>, as in
  \<open>ping_handler\<close>: the temporary is destroyed at the end of its statement.
\<close>

definition guarded :: "('g \<Rightarrow> 'g) list \<Rightarrow> 'g lk_op list" where
  "guarded body = Lk_ctor # map Lk_act body @ [Lk_dtor]"

definition guarded_temporary :: "('g \<Rightarrow> 'g) list \<Rightarrow> 'g lk_op list" where
  "guarded_temporary body = Lk_ctor # Lk_dtor # map Lk_act body"

record 'g lk_sys =
  lk_owner :: "thread_id option"
  lk_shared :: 'g
  lk_prog :: "thread_id \<Rightarrow> 'g lk_op list"

inductive lk_step :: "'g lk_sys \<Rightarrow> 'g lk_sys \<Rightarrow> bool" where
  lk_lock: "lk_prog s i = Lk_ctor # p \<Longrightarrow> Mgx_mutex i (lk_owner s) = Some owner \<Longrightarrow>
    lk_step s (s\<lparr> lk_owner := owner, lk_prog := (lk_prog s)(i := p) \<rparr>)"
| lk_unlock: "lk_prog s i = Lk_dtor # p \<Longrightarrow>
    lk_step s (s\<lparr> lk_owner := mutex_destroy (lk_owner s), lk_prog := (lk_prog s)(i := p) \<rparr>)"
| lk_act: "lk_prog s i = Lk_act f # p \<Longrightarrow>
    lk_step s (s\<lparr> lk_shared := f (lk_shared s), lk_prog := (lk_prog s)(i := p) \<rparr>)"

definition run_all :: "('g \<Rightarrow> 'g) list \<Rightarrow> 'g \<Rightarrow> 'g" where
  "run_all body g = fold (\<lambda>f. f) body g"

lemma run_all_simps [simp]: "run_all [] g = g" "run_all (b @ [f]) g = f (run_all b g)"
  by (simp_all add: run_all_def)

text \<open>The specification: a thread that has sections left executes the next one in one step.\<close>

type_synonym 'g sections = "thread_id \<Rightarrow> ('g \<Rightarrow> 'g) list list"

inductive section_step :: "'g \<times> 'g sections \<Rightarrow> 'g \<times> 'g sections \<Rightarrow> bool" where
  "todo i = body # rest \<Longrightarrow> section_step (g, todo) (run_all body g, todo(i := rest))"

inductive_simps section_step_iff: "section_step (g, todo) b"

definition program :: "('g \<Rightarrow> 'g) list list \<Rightarrow> 'g lk_op list" where
  "program bodies = concat (map guarded bodies)"

lemma program_simps [simp]:
  "program [] = []" "program (b # bs) = Lk_ctor # map Lk_act b @ Lk_dtor # program bs"
  by (simp_all add: program_def guarded_def)

definition lk_start :: "'g \<Rightarrow> 'g sections \<Rightarrow> 'g lk_sys" where
  "lk_start g todo = \<lparr> lk_owner = None, lk_shared = g, lk_prog = (\<lambda>i. program (todo i)) \<rparr>"

section \<open>Guarded sections are atomic\<close>

text \<open>
  The relation: without an owner every thread is before a section; the owner has executed the
  part \<open>fin\<close> of its section, which the specification has still to do.
\<close>

definition lk_rel :: "'g lk_sys \<Rightarrow> 'g \<times> 'g sections \<Rightarrow> bool" where
  "lk_rel s a \<longleftrightarrow>
     (case lk_owner s of
        None \<Rightarrow> lk_shared s = fst a \<and> (\<forall>j. lk_prog s j = program (snd a j))
      | Some i \<Rightarrow> \<exists>fin left bs.
          lk_prog s i = map Lk_act left @ Lk_dtor # program bs \<and> snd a i = (fin @ left) # bs \<and>
          lk_shared s = run_all fin (fst a) \<and> (\<forall>j. j \<noteq> i \<longrightarrow> lk_prog s j = program (snd a j)))"

lemma program_head:
  "program bs = Lk_ctor # p \<Longrightarrow> \<exists>b bs'. bs = b # bs' \<and> p = map Lk_act b @ Lk_dtor # program bs'"
  "program bs \<noteq> Lk_dtor # p" "program bs \<noteq> Lk_act f # p"
  by (cases bs; simp)+

lemma lk_rel_ownedI:
  "lk_owner s = Some i \<Longrightarrow> lk_prog s i = map Lk_act left @ Lk_dtor # program bs \<Longrightarrow> snd a i = (fin @ left) # bs \<Longrightarrow>
   lk_shared s = run_all fin (fst a) \<Longrightarrow> (\<And>j. j \<noteq> i \<Longrightarrow> lk_prog s j = program (snd a j)) \<Longrightarrow> lk_rel s a"
  by (auto simp: lk_rel_def)

lemma lk_rel_inside:
  assumes "lk_rel s a" and "lk_prog s i = x # p" and "x \<noteq> Lk_ctor"
  obtains fin left bs where "lk_owner s = Some i" "lk_prog s i = map Lk_act left @ Lk_dtor # program bs"
    "snd a i = (fin @ left) # bs" "lk_shared s = run_all fin (fst a)"
    "\<forall>j. j \<noteq> i \<longrightarrow> lk_prog s j = program (snd a j)"
proof -
  have np: "lk_prog s i \<noteq> program bs" for bs
    using assms(2,3) by (cases bs) auto
  then obtain j where own: "lk_owner s = Some j"
    using assms(1) by (cases "lk_owner s") (auto simp: lk_rel_def)
  have "lk_prog s i = program (snd a i)" if "i \<noteq> j"
    using assms(1) own that by (auto simp: lk_rel_def)
  with np have "j = i" by blast
  with own assms(1) that show ?thesis by (auto simp: lk_rel_def)
qed

lemma lk_rel_step:
  assumes "lk_step s t" and "lk_rel s a"
  shows "lk_rel t a \<or> (\<exists>b. section_step a b \<and> lk_rel t b)"
  using assms
proof (induction rule: lk_step.induct)
  case (lk_lock s i p owner)
  then have own: "lk_owner s = None" "owner = Some i"
    by (auto simp: Mgx_mutex_def split: option.splits)
  with lk_lock obtain b bs where "snd a i = b # bs" "p = map Lk_act b @ Lk_dtor # program bs"
    using program_head(1) [of "snd a i" p] by (auto simp: lk_rel_def)
  with lk_lock own have "lk_rel (s\<lparr> lk_owner := owner, lk_prog := (lk_prog s)(i := p) \<rparr>) a"
    by (intro lk_rel_ownedI [of _ i b bs a "[]"]) (auto simp: lk_rel_def)
  then show ?case ..
next
  case (lk_unlock s i p)
  from lk_unlock(2,1) obtain fin left bs where r: "lk_owner s = Some i"
    "lk_prog s i = map Lk_act left @ Lk_dtor # program bs"
    "snd a i = (fin @ left) # bs" "lk_shared s = run_all fin (fst a)"
    "\<forall>j. j \<noteq> i \<longrightarrow> lk_prog s j = program (snd a j)"
    by (rule lk_rel_inside) simp
  with lk_unlock(1) have "left = []" "p = program bs" by (cases left; auto)+
  with r have "section_step a (lk_shared s, (snd a)(i := bs))"
    by (cases a) (auto simp: section_step_iff)
  moreover have "lk_rel (s\<lparr> lk_owner := mutex_destroy (lk_owner s), lk_prog := (lk_prog s)(i := p) \<rparr>)
      (lk_shared s, (snd a)(i := bs))"
    using r(5) \<open>p = program bs\<close> by (simp add: lk_rel_def mutex_destroy_def)
  ultimately show ?case by blast
next
  case (lk_act s i f p)
  from lk_act(2,1) obtain fin left bs where r: "lk_owner s = Some i"
    "lk_prog s i = map Lk_act left @ Lk_dtor # program bs"
    "snd a i = (fin @ left) # bs" "lk_shared s = run_all fin (fst a)"
    "\<forall>j. j \<noteq> i \<longrightarrow> lk_prog s j = program (snd a j)"
    by (rule lk_rel_inside) simp
  with lk_act(1) obtain left' where l: "left = f # left'" "p = map Lk_act left' @ Lk_dtor # program bs"
    by (cases left) auto
  with r have "lk_rel (s\<lparr> lk_shared := f (lk_shared s), lk_prog := (lk_prog s)(i := p) \<rparr>) a"
    by (intro lk_rel_ownedI [of _ i left' bs a "fin @ [f]"]) auto
  then show ?case ..
qed

interpretation lk: forward_simulation lk_step section_step lk_rel
  by unfold_locales (rule lk_rel_step)

lemma lk_start_rel: "lk_rel (lk_start g todo) (g, todo)"
  by (simp add: lk_rel_def lk_start_def)

text \<open>A thread whose next action is on the shared state owns the mutex.\<close>

lemma lk_rel_owner: "lk_rel s a \<Longrightarrow> lk_prog s i = Lk_act f # p \<Longrightarrow> lk_owner s = Some i"
  by (erule lk_rel_inside) auto

text \<open>As long as some thread has not finished, some thread can go on.\<close>

lemma lk_rel_progress:
  assumes "lk_rel s a" and "lk_prog s i \<noteq> []"
  shows "\<exists>t. lk_step s t"
proof (cases "lk_owner s")
  case None
  with assms obtain b bs where "lk_prog s i = Lk_ctor # map Lk_act b @ Lk_dtor # program bs"
    by (cases "snd a i") (auto simp: lk_rel_def)
  then show ?thesis
    using None lk_lock [of s i _ "Some i"] by (auto simp: Mgx_mutex_def)
next
  case (Some j)
  with assms(1) obtain acts bs where "lk_prog s j = map Lk_act acts @ Lk_dtor # program bs"
    by (auto simp: lk_rel_def)
  then show ?thesis
    using lk_unlock [of s j] lk_act [of s j] by (cases acts) auto
qed

text \<open>
  C11: sections protected by the scope guard are atomic. However the actions of any number of
  threads interleave, when the mutex is free the shared state is one that results from executing
  whole sections one after the other, each thread's in its order; at no time are two threads
  inside a section; and while a thread has something left to do, some thread can go on.
\<close>

theorem guarded_sections_atomic:
  assumes "lk_step\<^sup>*\<^sup>* (lk_start g todo) s"
  shows "(lk_owner s = None \<longrightarrow> (\<exists>todo'. section_step\<^sup>*\<^sup>* (g, todo) (lk_shared s, todo') \<and>
      (\<forall>i. lk_prog s i = program (todo' i)))) \<and>
    (\<forall>i j f h p q. lk_prog s i = Lk_act f # p \<and> lk_prog s j = Lk_act h # q \<longrightarrow> i = j) \<and>
    ((\<exists>i. lk_prog s i \<noteq> []) \<longrightarrow> (\<exists>t. lk_step s t))"
proof -
  from lk.run_sim [OF assms lk_start_rel] obtain a
    where a: "section_step\<^sup>*\<^sup>* (g, todo) a" "lk_rel s a" by blast
  have "\<exists>todo'. section_step\<^sup>*\<^sup>* (g, todo) (lk_shared s, todo') \<and> (\<forall>i. lk_prog s i = program (todo' i))"
    if "lk_owner s = None"
    using that a by (intro exI [of _ "snd a"]) (simp add: lk_rel_def)
  moreover have "i = j" if "lk_prog s i = Lk_act f # p" "lk_prog s j = Lk_act h # q" for i j f h p q
    using lk_rel_owner [OF a(2) that(1)] lk_rel_owner [OF a(2) that(2)] by simp
  ultimately show ?thesis using lk_rel_progress [OF a(2)] by blast
qed

text \<open>Two threads that each add to a counter in two actions, for the witness.\<close>

definition demo_todo :: "nat sections" where
  "demo_todo i = (if i < 2 then [[\<lambda>g. g + 1, \<lambda>g. g + 1]] else [])"

lemma demo_lock_step: "lk_step (lk_start 0 demo_todo)
    ((lk_start 0 demo_todo)\<lparr> lk_owner := Some 0,
       lk_prog := (lk_prog (lk_start 0 demo_todo))(0 := map Lk_act [\<lambda>g. g + 1, \<lambda>g. g + 1] @ [Lk_dtor]) \<rparr>)"
  by (rule lk_lock) (simp_all add: lk_start_def demo_todo_def Mgx_mutex_def)

theorem guarded_sections_atomic_witness:
  "\<exists>t. lk_step ((lk_start (0 :: nat) demo_todo)\<lparr> lk_owner := Some 0,
       lk_prog := (lk_prog (lk_start 0 demo_todo))(0 := map Lk_act [\<lambda>g. g + 1, \<lambda>g. g + 1] @ [Lk_dtor]) \<rparr>) t"
proof -
  let ?s = "(lk_start (0 :: nat) demo_todo)\<lparr> lk_owner := Some 0,
    lk_prog := (lk_prog (lk_start 0 demo_todo))(0 := map Lk_act [\<lambda>g. g + 1, \<lambda>g. g + 1] @ [Lk_dtor]) \<rparr>"
  have "lk_prog ?s 0 \<noteq> []" by simp
  with guarded_sections_atomic [OF r_into_rtranclp [of lk_step, OF demo_lock_step]] show ?thesis by blast
qed

section \<open>Temporary guards\<close>

text \<open>
  With the temporary object of \<open>ping_handler\<close> and \<open>register_handler\<close> the mutex is free again before the
  body begins: two threads can be in the middle of it at the same time.
\<close>

lemma temporary_guard_unprotected:
  assumes "i \<noteq> j" and "lk_owner s = None"
    and "lk_prog s i = guarded_temporary (f # fs)" and "lk_prog s j = guarded_temporary (h # hs)"
  shows "\<exists>t. lk_step\<^sup>*\<^sup>* s t \<and> lk_prog t i = map Lk_act (f # fs) \<and> lk_prog t j = map Lk_act (h # hs)"
proof -
  have pass: "lk_step\<^sup>*\<^sup>* s (s\<lparr> lk_prog := (lk_prog s)(k := map Lk_act b) \<rparr>)"
    if "lk_owner s = None" "lk_prog s k = guarded_temporary b" for s :: "'a lk_sys" and k b
  proof -
    let ?s1 = "s\<lparr> lk_owner := Some k, lk_prog := (lk_prog s)(k := Lk_dtor # map Lk_act b) \<rparr>"
    have "lk_step s ?s1"
      by (rule lk_lock) (use that in \<open>simp_all add: guarded_temporary_def Mgx_mutex_def\<close>)
    moreover have "lk_step ?s1 (s\<lparr> lk_prog := (lk_prog s)(k := map Lk_act b) \<rparr>)"
      using lk_unlock [of ?s1 k "map Lk_act b"] that(1) by (cases s) (simp add: mutex_destroy_def)
    ultimately show ?thesis by (meson converse_rtranclp_into_rtranclp r_into_rtranclp)
  qed
  let ?t = "s\<lparr> lk_prog := (lk_prog s)(i := map Lk_act (f # fs)) \<rparr>"
  have "lk_step\<^sup>*\<^sup>* s ?t" by (rule pass) (use assms in simp_all)
  moreover have "lk_step\<^sup>*\<^sup>* ?t (?t\<lparr> lk_prog := (lk_prog ?t)(j := map Lk_act (h # hs)) \<rparr>)"
    by (rule pass) (use assms in simp_all)
  ultimately show ?thesis
    using assms(1) by (intro exI [of _ "?t\<lparr> lk_prog := (lk_prog ?t)(j := map Lk_act (h # hs)) \<rparr>"]) auto
qed

end
