(* ===== verification/Mgx_Sleep.thy ===== *)
theory Mgx_Sleep
  imports Mgx_Coroutine
begin

text \<open>
  \<^verbatim>\<open>src/misc/mgx_coroutine_scheduler.cpp\<close>: how late a sleeping coroutine is resumed. \<open>schedule\<close> resumes at
  most one sleeper per call, the one with the earliest deadline, and then waits for events. The
  lemmas follow the sleep tree through one call; the property bounds the number of calls and the
  waiting time of each.
\<close>

section \<open>The sleep tree through one resumption\<close>

fun slept :: "co_sw \<Rightarrow> co_ptr \<Rightarrow> (int \<times> co_ptr) list \<Rightarrow> (int \<times> co_ptr) list" where
  "slept (Sw_msleep now ms) p m = mm_emplace (now + ms) p m"
| "slept _ p m = m"

lemma run_act_tree: "run_act a s = Inr s' \<Longrightarrow> m_co_sleep_rbtree s' = m_co_sleep_rbtree s"
  by (cases a) (auto simp: new_coroutine_def push_back_ready_list_def epoll_del_def split: if_splits)

lemma run_acts_tree: "run_acts as s = Inr s' \<Longrightarrow> m_co_sleep_rbtree s' = m_co_sleep_rbtree s"
  by (induction "as" arbitrary: s) (auto simp: ebind_eq_Inr dest!: run_act_tree)

lemma run_switch_tree:
  "run_switch sw p s = Inr s' \<Longrightarrow> m_co_sleep_rbtree s' = slept sw p (m_co_sleep_rbtree s)"
  by (cases sw; cases "co_objs s p") (auto simp: co_op_defs Let_def split: if_splits)

lemma continue_at_tree:
  "continue_at p s = Inr s' \<Longrightarrow> co_objs s p = Some k \<Longrightarrow>
   m_co_sleep_rbtree s' =
     (if co_ctx k = After_msleep then tl (m_co_sleep_rbtree s) else m_co_sleep_rbtree s)"
  by (cases "co_ctx k"; cases "m_co_sleep_rbtree s")
     (auto simp: continue_at_def deref_co_def remove_first_sleep_rbtree_def remove_event_wait_epoll_def
       epoll_del_def split: if_splits)

lemma resume_or_delete_tree:
  assumes "resume_or_delete seg p s = Inr s'" and "co_objs s p = Some k"
  shows "m_co_sleep_rbtree s' = slept (snd seg) p
     (if co_ctx k = After_msleep then tl (m_co_sleep_rbtree s) else m_co_sleep_rbtree s)"
proof -
  from assms(1) obtain s1 s2 s3 s4 where
    1: "set_status RUNNING p (set_current_coroutine (Some p) s) = Inr s1"
    and 2: "continue_at p (s1\<lparr> co_resumed := co_resumed s1 @ [p] \<rparr>) = Inr s2"
    and 3: "run_acts (fst seg) s2 = Inr s3" and 4: "run_switch (snd seg) p s3 = Inr s4"
    and s': "m_co_sleep_rbtree s' = m_co_sleep_rbtree s4"
    unfolding resume_or_delete_unfold
    by (auto simp: ebind_eq_Inr set_current_coroutine_def delete_coroutine_def split: if_splits)
  from 1 assms(2) have "s1 = s\<lparr> m_cur_co := Some p, co_objs := (co_objs s)(p \<mapsto> k\<lparr> co_status := RUNNING \<rparr>) \<rparr>"
    by (simp add: set_status_def upd_co_def deref_co_def set_current_coroutine_def)
  with continue_at_tree [OF 2, of "k\<lparr> co_status := RUNNING \<rparr>"] s'
  show ?thesis
    by (simp add: run_switch_tree [OF 4] run_acts_tree [OF 3])
qed

section \<open>A sleeper keeps its place\<close>

text \<open>\<open>p\<close> sleeps until \<open>d\<close>, and the sleepers \<open>xs\<close> come before it.\<close>

definition sleeps_after :: "(int \<times> co_ptr) list \<Rightarrow> int \<Rightarrow> co_ptr \<Rightarrow> co_sys \<Rightarrow> bool" where
  "sleeps_after xs d p s \<longleftrightarrow> (\<exists>ys. m_co_sleep_rbtree s = xs @ (d, p) # ys)"

text \<open>The clock has reached \<open>d\<close> when a segment asks to sleep.\<close>

fun switch_past :: "int \<Rightarrow> co_sw \<Rightarrow> bool" where
  "switch_past d (Sw_msleep now ms) \<longleftrightarrow> d \<le> now \<and> 0 \<le> ms"
| "switch_past d _ \<longleftrightarrow> True"

definition clock_past :: "int \<Rightarrow> sched_io \<Rightarrow> bool" where
  "clock_past d io \<longleftrightarrow> d \<le> si_now io \<and> switch_past d (snd (si_sleep_seg io)) \<and>
     switch_past d (snd (si_ready_seg io)) \<and>
     (case si_wait io of Inl _ \<Rightarrow> True | Inr es \<Rightarrow> \<forall>(q, ev, seg) \<in> set es. switch_past d (snd seg))"

lemma slept_behind:
  assumes "mm_sorted (xs @ (d, p) # ys)" and "switch_past d sw"
  shows "\<exists>ys'. slept sw q (xs @ (d, p) # ys) = xs @ (d, p) # ys'"
proof (cases sw)
  case (Sw_msleep now ms)
  have "\<forall>e \<in> set (xs @ [(d, p)]). fst e \<le> now + ms"
    using assms Sw_msleep by (auto simp: sorted_append)
  from mm_emplace_append [OF this, of q ys] Sw_msleep show ?thesis by simp
qed simp_all

lemma resume_keeps_sleeper:
  assumes "co_wf None s" and "sleeps_after xs d p s" and "switch_past d (snd seg)"
    and "co_objs s q = Some k" and "co_ctx k \<noteq> After_msleep"
    and "resume_or_delete seg q (s\<lparr> m_co_ready_list := rl \<rparr>) = Inr s'"
  shows "sleeps_after xs d p s'"
proof -
  from assms(2) obtain ys where ys: "m_co_sleep_rbtree s = xs @ (d, p) # ys"
    by (auto simp: sleeps_after_def)
  with assms(1) have "mm_sorted (xs @ (d, p) # ys)" by (simp add: co_wf_def)
  from slept_behind [OF this assms(3), of q] resume_or_delete_tree [OF assms(6)] assms(4,5) ys
  show ?thesis by (simp add: sleeps_after_def)
qed

lemma sleep_phase_front:
  assumes "co_wf None s" and "sleeps_after [] d p s" and "d \<le> now" and "sleep_phase now seg s = Inr s'"
  shows "p \<in> set (drop (length (co_resumed s)) (co_resumed s'))"
  using assms(2-) resume_or_delete_frame [of seg p s s']
  by (auto simp: sleeps_after_def sleep_phase_def co_frame_def)

lemma sleep_phase_moves_up:
  assumes "co_wf None s" and "sleeps_after (x # xs) d p s" and "d \<le> now" and "switch_past d (snd seg)"
    and "sleep_phase now seg s = Inr s'"
  shows "sleeps_after xs d p s'"
proof -
  obtain t q where x: "x = (t, q)" by (cases x)
  from assms(2) obtain ys where tree: "m_co_sleep_rbtree s = (t, q) # xs @ (d, p) # ys"
    by (auto simp: sleeps_after_def x)
  have sorted: "mm_sorted ((t, q) # xs @ (d, p) # ys)"
    using assms(1) by (simp add: co_wf_def flip: tree)
  then have "t \<le> now" using assms(3) by (simp add: sorted_append)
  with assms(5) tree have r: "resume_or_delete seg q s = Inr s'"
    by (simp add: sleep_phase_def)
  have "q \<in> snd ` set (m_co_sleep_rbtree s)" by (simp add: tree)
  then obtain k where k: "co_objs s q = Some k" "co_status k = SLEEPING"
    using co_wf_sleep [OF assms(1)] by blast
  with assms(1) have "co_ctx k = After_msleep" by (simp add: co_wf_def)
  with resume_or_delete_tree [OF r k(1)] tree
  have "m_co_sleep_rbtree s' = slept (snd seg) q (xs @ (d, p) # ys)" by simp
  with slept_behind [of xs d p ys, OF _ assms(4), of q] sorted show ?thesis
    by (simp add: sleeps_after_def)
qed

lemma ready_phase_keeps_sleeper:
  assumes "co_wf None s" and "sleeps_after xs d p s" and "switch_past d (snd seg)"
    and "ready_phase seg s = Inr s'"
  shows "sleeps_after xs d p s'"
proof (cases "m_co_ready_list s")
  case Nil
  with assms show ?thesis by (simp add: ready_phase_def)
next
  case (Cons q qs)
  then have "q \<in> set (m_co_ready_list s)" by simp
  then obtain k where k: "co_objs s q = Some k" "co_status k = READY"
    using co_wf_ready [OF assms(1)] by blast
  with assms(1) have "co_ctx k \<noteq> After_msleep" by (fastforce simp: co_wf_def)
  with resume_keeps_sleeper [OF assms(1-3) k(1)] assms(4) Cons show ?thesis
    by (simp add: ready_phase_def)
qed

lemma wait_event_keeps_sleeper:
  assumes "co_wf None s" and "sleeps_after xs d p s" and "switch_past d (snd seg)"
    and "blocked q s" and "wait_event (q, ev, seg) s = Inr s'"
  shows "sleeps_after xs d p s'"
proof (cases "ev AND EPOLLERR = 0")
  case True
  from assms(4) obtain k where k: "co_objs s q = Some k" "co_ctx k \<noteq> After_msleep"
    by (auto simp: blocked_def)
  with True assms(5) resume_keeps_sleeper [OF assms(1-3) k, of "m_co_ready_list s"] show ?thesis
    by (simp add: wait_event_def)
next
  case False
  with assms(2,5) show ?thesis
    by (auto simp: wait_event_def ebind_eq_Inr epoll_del_def sleeps_after_def)
qed

text \<open>After one event the others are still events of blocked coroutines.\<close>

lemma wait_events_step:
  assumes "co_wf None s" and "distinct (map fst (e # es))" and "\<forall>e \<in> set (e # es). blocked (fst e) s"
    and "events_fresh (e # es) s" and "e = (q, ev, seg)" and "wait_event (q, ev, seg) s = Inr s1"
  shows "co_wf None s1" and "\<forall>e \<in> set es. blocked (fst e) s1" and "events_fresh es s1" and "blocked q s"
proof -
  have f: "seg_fresh seg s" "events_fresh es s1" "blocked q s"
    using assms(3-) by auto
  then show "events_fresh es s1" "blocked q s" by simp_all
  show "co_wf None s1"
    using wait_event_wf [OF assms(1) f(3,1), of ev] assms(6) by simp
  show "\<forall>e \<in> set es. blocked (fst e) s1"
    using wait_event_keeps_blocked [OF _ _ f(1) assms(6)] assms(2,3,5) by simp
qed

lemma wait_events_keep_sleeper:
  "co_wf None s \<Longrightarrow> distinct (map fst es) \<Longrightarrow> \<forall>e \<in> set es. blocked (fst e) s \<Longrightarrow> events_fresh es s \<Longrightarrow>
   \<forall>(q, ev, seg) \<in> set es. switch_past d (snd seg) \<Longrightarrow> sleeps_after xs d p s \<Longrightarrow> wait_events es s = Inr s' \<Longrightarrow>
   sleeps_after xs d p s'"
proof (induction es arbitrary: s)
  case Nil
  then show ?case by simp
next
  case (Cons e es)
  obtain q ev seg where e: "e = (q, ev, seg)" by (cases e)
  with Cons.prems obtain s1 where s1: "wait_event (q, ev, seg) s = Inr s1" "wait_events es s1 = Inr s'"
    by (auto simp: ebind_eq_Inr)
  note next_event = wait_events_step [OF Cons.prems(1-4) e s1(1)]
  have "sleeps_after xs d p s1"
    using wait_event_keeps_sleeper [OF Cons.prems(1,6) _ next_event(4) s1(1)] Cons.prems(5) e by simp
  then show ?case
    using Cons.IH [OF next_event(1) _ next_event(2,3) _ _ s1(2)] Cons.prems(2,5) by simp
qed

lemma wait_phase_keeps_sleeper:
  assumes "co_wf None s" and "wait_contract (si_wait io) s" and "clock_past d io"
    and "sleeps_after xs d p s" and "wait_phase (si_wait io) s = Inr s'"
  shows "sleeps_after xs d p s'"
proof (cases "si_wait io")
  case (Inl e)
  with assms show ?thesis by (simp add: wait_phase_def split: if_splits)
next
  case (Inr es)
  with assms show ?thesis
    using wait_events_keep_sleeper [OF assms(1) _ wait_contract_blocked [OF assms(1)], of es d xs p s']
    by (simp add: wait_contract_def wait_phase_def clock_past_def)
qed

section \<open>One call, several calls\<close>

lemma schedule_phases:
  assumes "schedule io s = Inr s'" and "co_wf None s" and "sched_contract io s"
  obtains s1 s2 where "sleep_phase (si_now io) (si_sleep_seg io) s = Inr s1" "co_wf None s1"
    "ready_phase (si_ready_seg io) s1 = Inr s2" "co_wf None s2" "wait_contract (si_wait io) s2"
    "wait_phase (si_wait io) s2 = Inr s'"
proof -
  from assms(1) obtain s1 s2 where 1: "sleep_phase (si_now io) (si_sleep_seg io) s = Inr s1"
    and 2: "ready_phase (si_ready_seg io) s1 = Inr s2" and 3: "wait_phase (si_wait io) s2 = Inr s'"
    by (auto simp: schedule_def ebind_eq_Inr)
  with assms(3) have f: "seg_fresh (si_sleep_seg io) s" "seg_fresh (si_ready_seg io) s1" "wait_contract (si_wait io) s2"
    by (auto simp: sched_contract_def)
  have wf: "co_wf None s1"
    using sleep_phase_wf [OF assms(2) f(1), of "si_now io"] 1 by simp
  moreover have "co_wf None s2"
    using ready_phase_wf [OF wf f(2)] 2 by simp
  ultimately show thesis using that 1 2 3 f(3) by blast
qed

lemma schedule_front:
  assumes "co_wf None s" and "sched_contract io s" and "clock_past d io" and "sleeps_after [] d p s"
    and "schedule io s = Inr s'"
  shows "\<exists>more. co_resumed s' = co_resumed s @ more \<and> p \<in> set more"
proof -
  from assms(5,1,2) obtain s1 s2 where 1: "sleep_phase (si_now io) (si_sleep_seg io) s = Inr s1"
    "ready_phase (si_ready_seg io) s1 = Inr s2" "wait_phase (si_wait io) s2 = Inr s'"
    by (rule schedule_phases)
  have "d \<le> si_now io" using assms(3) by (simp add: clock_past_def)
  from sleep_phase_front [OF assms(1,4) this 1(1)] sleep_phase_grows [OF 1(1)]
    ready_phase_grows_resumed [OF 1(2)] wait_phase_grows [OF 1(3)]
  show ?thesis by (auto simp: co_grows_def)
qed

lemma schedule_moves_up:
  assumes "co_wf None s" and "sched_contract io s" and "clock_past d io" and "sleeps_after (x # xs) d p s"
    and "schedule io s = Inr s'"
  shows "sleeps_after xs d p s'"
proof -
  from assms(5,1,2) obtain s1 s2 where 1: "sleep_phase (si_now io) (si_sleep_seg io) s = Inr s1" "co_wf None s1"
    and 2: "ready_phase (si_ready_seg io) s1 = Inr s2" "co_wf None s2"
    and 3: "wait_contract (si_wait io) s2" "wait_phase (si_wait io) s2 = Inr s'"
    by (rule schedule_phases)
  have c: "d \<le> si_now io" "switch_past d (snd (si_sleep_seg io))" "switch_past d (snd (si_ready_seg io))"
    using assms(3) by (simp_all add: clock_past_def)
  have "sleeps_after xs d p s1"
    by (rule sleep_phase_moves_up [OF assms(1,4) c(1,2) 1(1)])
  then have "sleeps_after xs d p s2"
    by (rule ready_phase_keeps_sleeper [OF 1(2) _ c(3) 2(1)])
  then show ?thesis
    by (rule wait_phase_keeps_sleeper [OF 2(2) 3(1) assms(3) _ 3(2)])
qed

lemma schedules_wake:
  "co_wf None s \<Longrightarrow> sched_contracts ios s \<Longrightarrow> \<forall>io \<in> set ios. clock_past d io \<Longrightarrow> sleeps_after xs d p s \<Longrightarrow>
   length xs < length ios \<Longrightarrow> schedules ios s = Inr s' \<Longrightarrow>
   \<exists>more. co_resumed s' = co_resumed s @ more \<and> p \<in> set more"
proof (induction ios arbitrary: s xs)
  case Nil
  then show ?case by simp
next
  case (Cons io ios)
  then obtain s1 where s1: "schedule io s = Inr s1" "schedules ios s1 = Inr s'"
    by (auto simp: ebind_eq_Inr)
  have c: "sched_contract io s" "sched_contracts ios s1" "clock_past d io" "\<forall>io \<in> set ios. clock_past d io"
    using Cons.prems(2,3) s1(1) by auto
  show ?case
  proof (cases xs)
    case Nil
    with schedule_front [OF Cons.prems(1) c(1,3) _ s1(1)] Cons.prems(4) schedules_resumed [OF s1(2)]
    show ?thesis by fastforce
  next
    case (Cons x xs')
    have "co_wf None s1"
      using schedule_wf [OF Cons.prems(1) c(1)] s1(1) by simp
    moreover have "sleeps_after xs' d p s1"
      using schedule_moves_up [OF Cons.prems(1) c(1,3) _ s1(1)] Cons.prems(4) Cons by simp
    ultimately have "\<exists>more. co_resumed s' = co_resumed s1 @ more \<and> p \<in> set more"
      using Cons.IH [OF _ c(2,4) _ _ s1(2)] Cons.prems(5) Cons by simp
    with schedule_resumed [OF s1(1)] show ?thesis by fastforce
  qed
qed

section \<open>No sleeper is early\<close>

text \<open>\<open>p\<close> is still asleep and has not been resumed since \<open>s\<close>.\<close>

definition stays_asleep :: "int \<Rightarrow> co_ptr \<Rightarrow> co_sys \<Rightarrow> co_sys \<Rightarrow> bool" where
  "stays_asleep d p s s' \<longleftrightarrow> (d, p) \<in> set (m_co_sleep_rbtree s') \<and>
     (\<exists>more. co_resumed s' = co_resumed s @ more \<and> p \<notin> set more)"

lemma stays_asleep_refl: "(d, p) \<in> set (m_co_sleep_rbtree s) \<Longrightarrow> stays_asleep d p s s"
  by (simp add: stays_asleep_def)

lemma stays_asleep_in: "stays_asleep d p s s' \<Longrightarrow> (d, p) \<in> set (m_co_sleep_rbtree s')"
  by (simp add: stays_asleep_def)

lemma stays_asleep_trans: "stays_asleep d p s t \<Longrightarrow> stays_asleep d p t u \<Longrightarrow> stays_asleep d p s u"
  by (auto simp: stays_asleep_def)

lemma slept_mono: "e \<in> set m \<Longrightarrow> e \<in> set (slept sw q m)"
  by (cases sw) auto

lemma resume_stays_asleep:
  assumes "resume_or_delete seg q s = Inr s'" and "q \<noteq> p" and "(d, p) \<in> set (m_co_sleep_rbtree s)"
    and "co_objs s q = Some k" and "co_ctx k = After_msleep \<Longrightarrow> \<exists>t m. m_co_sleep_rbtree s = (t, q) # m"
  shows "stays_asleep d p s s'"
proof -
  have "(d, p) \<in> set (m_co_sleep_rbtree s')"
    unfolding resume_or_delete_tree [OF assms(1,4)] using assms(2,3,5) by (auto intro!: slept_mono)
  with resume_or_delete_frame [OF assms(1)] assms(2) show ?thesis
    by (auto simp: stays_asleep_def co_frame_def)
qed

text \<open>A sleeper is neither ready nor waiting for a descriptor.\<close>

lemma asleep_alone:
  assumes "co_wf None s" and "(d, p) \<in> set (m_co_sleep_rbtree s)"
  shows "p \<notin> set (m_co_ready_list s)" and "\<not> blocked p s"
proof -
  have "p \<in> snd ` set (m_co_sleep_rbtree s)" using assms(2) by force
  then obtain k where "co_objs s p = Some k" "co_status k = SLEEPING"
    using co_wf_sleep [OF assms(1)] by blast
  then show "p \<notin> set (m_co_ready_list s)" "\<not> blocked p s"
    using co_wf_ready [OF assms(1)] by (auto simp: blocked_def)
qed

lemma sleep_phase_not_early:
  assumes "co_wf None s" and "(d, p) \<in> set (m_co_sleep_rbtree s)" and "now < d" and "sleep_phase now seg s = Inr s'"
  shows "stays_asleep d p s s'"
proof (cases "m_co_sleep_rbtree s")
  case Nil
  with assms(2) show ?thesis by simp
next
  case (Cons x m)
  obtain t q where x: "x = (t, q)" by (cases x)
  have "distinct (map snd ((t, q) # m))" using assms(1) Cons x by (simp add: co_wf_def)
  then have "q \<noteq> p" if "t \<le> now" using that assms(2,3) Cons x by force
  moreover have "q \<in> snd ` set (m_co_sleep_rbtree s)" by (simp add: Cons x)
  then obtain k where "co_objs s q = Some k" using co_wf_sleep [OF assms(1)] by blast
  ultimately show ?thesis
    using assms(2,4) Cons x resume_stays_asleep [of seg q s s' p d k]
    by (auto simp: sleep_phase_def stays_asleep_refl split: if_splits)
qed

lemma ready_phase_not_early:
  assumes "co_wf None s" and "(d, p) \<in> set (m_co_sleep_rbtree s)" and "ready_phase seg s = Inr s'"
  shows "stays_asleep d p s s'"
proof (cases "m_co_ready_list s")
  case Nil
  with assms show ?thesis by (simp add: ready_phase_def stays_asleep_refl)
next
  case (Cons q qs)
  then have "q \<in> set (m_co_ready_list s)" by simp
  then obtain k where k: "co_objs s q = Some k" "co_status k = READY" "q \<noteq> p"
    using co_wf_ready [OF assms(1)] asleep_alone(1) [OF assms(1,2)] by blast
  with assms(1) have "co_ctx k \<noteq> After_msleep" by (fastforce simp: co_wf_def)
  with resume_stays_asleep [of seg q "s\<lparr> m_co_ready_list := qs \<rparr>" s' p d k] k assms(2,3) Cons show ?thesis
    by (simp add: ready_phase_def stays_asleep_def)
qed

lemma wait_event_not_early:
  assumes "co_wf None s" and "(d, p) \<in> set (m_co_sleep_rbtree s)" and "blocked q s" and "wait_event (q, ev, seg) s = Inr s'"
  shows "stays_asleep d p s s'"
proof (cases "ev AND EPOLLERR = 0")
  case True
  have "q \<noteq> p" using asleep_alone(2) [OF assms(1,2)] assms(3) by blast
  with True assms(2-4) resume_stays_asleep [of seg q s s' p d] show ?thesis
    by (auto simp: wait_event_def blocked_def)
next
  case False
  with assms(2,4) show ?thesis
    by (auto simp: wait_event_def ebind_eq_Inr epoll_del_def stays_asleep_def)
qed

lemma wait_events_not_early:
  "co_wf None s \<Longrightarrow> distinct (map fst es) \<Longrightarrow> \<forall>e \<in> set es. blocked (fst e) s \<Longrightarrow> events_fresh es s \<Longrightarrow>
   (d, p) \<in> set (m_co_sleep_rbtree s) \<Longrightarrow> wait_events es s = Inr s' \<Longrightarrow> stays_asleep d p s s'"
proof (induction es arbitrary: s)
  case Nil
  then show ?case by (simp add: stays_asleep_refl)
next
  case (Cons e es)
  obtain q ev seg where e: "e = (q, ev, seg)" by (cases e)
  with Cons.prems obtain s1 where s1: "wait_event (q, ev, seg) s = Inr s1" "wait_events es s1 = Inr s'"
    by (auto simp: ebind_eq_Inr)
  note next_event = wait_events_step [OF Cons.prems(1-4) e s1(1)]
  have l: "stays_asleep d p s s1"
    by (rule wait_event_not_early [OF Cons.prems(1,5) next_event(4) s1(1)])
  with Cons.IH [OF next_event(1) _ next_event(2,3) _ s1(2)] Cons.prems(2) show ?case
    by (auto simp: stays_asleep_def)
qed

lemma schedule_not_early:
  assumes "co_wf None s" and "sched_contract io s" and "(d, p) \<in> set (m_co_sleep_rbtree s)" and "si_now io < d"
    and "schedule io s = Inr s'"
  shows "stays_asleep d p s s'"
proof -
  from assms(5,1,2) obtain s1 s2 where 1: "sleep_phase (si_now io) (si_sleep_seg io) s = Inr s1" "co_wf None s1"
    and 2: "ready_phase (si_ready_seg io) s1 = Inr s2" "co_wf None s2"
    and 3: "wait_contract (si_wait io) s2" "wait_phase (si_wait io) s2 = Inr s'"
    by (rule schedule_phases)
  have l1: "stays_asleep d p s s1"
    by (rule sleep_phase_not_early [OF assms(1,3,4) 1(1)])
  then have l2: "stays_asleep d p s1 s2"
    by (rule ready_phase_not_early [OF 1(2) stays_asleep_in 2(1)])
  then have t: "(d, p) \<in> set (m_co_sleep_rbtree s2)" by (rule stays_asleep_in)
  have "stays_asleep d p s2 s'"
  proof (cases "si_wait io")
    case (Inl e)
    with 3(2) t show ?thesis by (auto simp: wait_phase_def stays_asleep_refl split: if_splits)
  next
    case (Inr es)
    with 3 t show ?thesis
      using wait_events_not_early [OF 2(2) _ wait_contract_blocked [OF 2(2)], of es d p s']
      by (simp add: wait_contract_def wait_phase_def)
  qed
  with l1 l2 show ?thesis by (blast intro: stays_asleep_trans)
qed

section \<open>The bound\<close>

text \<open>
  C7: when a sleeper is resumed. A call of \<open>schedule\<close> before the deadline \<open>d\<close> of a sleeping coroutine
  leaves it asleep. Once the clock has reached \<open>d\<close>, a coroutine with \<open>n\<close> sleepers before it has been
  resumed after \<open>n + 1\<close> calls, whatever the other coroutines do in between. Each call waits more than
  0 and at most 200 milliseconds for events, and one with no ready coroutine does not wait past
  the earliest deadline.
\<close>

theorem sleeper_resumed_in_time:
  assumes "co_wf None s" and "m_co_sleep_rbtree s = xs @ (d, p) # ys"
  shows "(\<forall>io s'. sched_contract io s \<and> si_now io < d \<and> schedule io s = Inr s' \<longrightarrow>
       (d, p) \<in> set (m_co_sleep_rbtree s') \<and> p \<notin> set (drop (length (co_resumed s)) (co_resumed s'))) \<and>
    (\<forall>ios s'. sched_contracts ios s \<and> (\<forall>io \<in> set ios. clock_past d io) \<and> length xs < length ios \<and>
       schedules ios s = Inr s' \<longrightarrow> p \<in> set (drop (length (co_resumed s)) (co_resumed s'))) \<and>
    (\<forall>now t. 0 < get_epoll_wait_timeout_ms now t \<and> get_epoll_wait_timeout_ms now t \<le> 200) \<and>
    (\<forall>now t e q m. m_co_ready_list t = [] \<and> m_co_sleep_rbtree t = (e, q) # m \<and> now < e \<longrightarrow>
       now + get_epoll_wait_timeout_ms now t \<le> e)"
proof -
  have "(d, p) \<in> set (m_co_sleep_rbtree s)" "sleeps_after xs d p s"
    using assms(2) by (auto simp: sleeps_after_def)
  with schedule_not_early [OF assms(1)] schedules_wake [OF assms(1)]
    epoll_timeout_bounds epoll_timeout_not_late show ?thesis
    unfolding stays_asleep_def by fastforce
qed

text \<open>Two sleepers; the first one goes back to sleep when it is resumed.\<close>

definition demo_sleepers :: co_sys where
  "demo_sleepers = \<lparr> co_cnt = 2,
     co_objs = [0x10 \<mapsto> \<lparr> co_id = 1, co_status = SLEEPING, co_wait_fd = 0, co_ctx = After_msleep \<rparr>,
                0x20 \<mapsto> \<lparr> co_id = 2, co_status = SLEEPING, co_wait_fd = 0, co_ctx = After_msleep \<rparr>],
     m_co_ready_list = [], m_co_sleep_rbtree = [(4, 0x10), (5, 0x20)], m_cur_co = None, co_epoll_fd = 3,
     co_interest = [], co_resumed = [] \<rparr>"

definition demo_sleep_io :: "co_sw \<Rightarrow> sched_io" where
  "demo_sleep_io sw = \<lparr> si_now = 6, si_sleep_seg = ([], sw), si_ready_seg = ([], Sw_exit), si_wait = Inl EINTR \<rparr>"

lemmas sleep_eval = demo_sleepers_def demo_sleep_io_def co_eval

lemma demo_sleepers_wf: "co_wf None demo_sleepers"
  by (auto simp: co_wf_def demo_sleepers_def split: if_splits)

lemma demo_sleepers_run:
  "\<exists>s'. schedules [demo_sleep_io (Sw_msleep 6 10), demo_sleep_io Sw_exit] demo_sleepers = Inr s'"
  by (simp add: sleep_eval)

lemma demo_sleepers_contract:
  "sched_contracts [demo_sleep_io (Sw_msleep 6 10), demo_sleep_io Sw_exit] demo_sleepers"
  by (simp add: sched_contract_def wait_contract_def seg_fresh_def sleep_eval)

theorem sleeper_resumed_in_time_witness:
  "\<exists>s'. schedules [demo_sleep_io (Sw_msleep 6 10), demo_sleep_io Sw_exit] demo_sleepers = Inr s' \<and>
     0x20 \<in> set (co_resumed s')"
proof -
  from demo_sleepers_run obtain s'
    where s': "schedules [demo_sleep_io (Sw_msleep 6 10), demo_sleep_io Sw_exit] demo_sleepers = Inr s'" ..
  have tree: "m_co_sleep_rbtree demo_sleepers = [(4, 0x10)] @ (5, 0x20) # []" and new: "co_resumed demo_sleepers = []"
    by (simp_all add: demo_sleepers_def)
  have "clock_past 5 (demo_sleep_io (Sw_msleep 6 10))" "clock_past 5 (demo_sleep_io Sw_exit)"
    by (simp_all add: clock_past_def demo_sleep_io_def)
  with s' demo_sleepers_contract new
    sleeper_resumed_in_time [OF demo_sleepers_wf tree, THEN conjunct2, THEN conjunct1, rule_format,
      of "[demo_sleep_io (Sw_msleep 6 10), demo_sleep_io Sw_exit]" s']
  show ?thesis by (simp del: sched_contracts.simps schedules.simps)
qed

text \<open>
  A sleeper that is already due does not shorten the wait: of several sleepers due at the same
  time, all but the first are resumed after full waits of 200 milliseconds when no event arrives.
\<close>

lemma due_sleeper_waits_full:
  "m_co_sleep_rbtree s = (e, p) # m \<Longrightarrow> e \<le> now \<Longrightarrow> get_epoll_wait_timeout_ms now s = 200"
  by (simp add: get_epoll_wait_timeout_ms_def MGX_CO_SCHEDULER_EPOLL_WAIT_TIMEOUT_def)

end
