(* ===== verification/Mgx_Shipped.thy ===== *)
theory Mgx_Shipped
  imports Mgx_Event
begin

text \<open>
  \<^verbatim>\<open>src/mgx.conf\<close> as \<^verbatim>\<open>src/app/mgx_conf.cpp\<close> reads it: the numbers and paths every component gets from the
  file that is in the repository, and the ports a worker binds with them.
\<close>

section \<open>The settings that are shipped\<close>

text \<open>\<^verbatim>\<open>src/mgx.conf\<close>, line by line.\<close>

definition mgx_conf_text :: string where
  "mgx_conf_text = concat (map (\<lambda>l. l @ [LF])
    [''[Log]'', ''# this is a directory'', ''LogPathName = ./log/'', ''# level: 0 ~ 8, 0: max, 8: min'',
     ''LogLevel = 8'', ''DebugMode = 1'', '''', ''[Process]'', ''WorkerProcesses = 10'',
     ''# 1: enable, 0: disable'', ''Daemon = 0'', ''WorkerThreadCount = 500'', '''', ''[Net]'',
     ''ListenPortCount = 2'', ''ListenPort0 = 8181'', ''ListenPort1 = 8182'',
     ''WorkerConnections = 1024'', ''RecyConnectionWaitTime = 10'', ''Heartbeat = 0'',
     ''HeartWaitTime = 5'', '''', ''[Http]'', ''IndexPath = ./http/html/''])"

definition shipped :: configs where
  "shipped = snd (load (Some mgx_conf_text) Map.empty)"

lemma shipped_numbers:
  "map (\<lambda>k. get_int k 0 shipped)
     [''LogLevel'', ''DebugMode'', ''WorkerProcesses'', ''Daemon'', ''WorkerThreadCount'', ''ListenPortCount'',
      ''ListenPort0'', ''ListenPort1'', ''WorkerConnections'', ''RecyConnectionWaitTime'', ''Heartbeat'', ''HeartWaitTime''] =
   map Inr [8, 1, 10, 0, 500, 2, 8181, 8182, 1024, 10, 0, 5]"
  by code_simp

lemma shipped_strings:
  "get_string ''IndexPath'' [] shipped = ''./http/html/''" "get_string ''LogPathName'' [] shipped = ''./log/''"
  by code_simp+

lemma shipped_present:
  "list_all (\<lambda>k. get_string k [] shipped \<noteq> [])
     [''ListenPortCount'', ''ListenPort0'', ''ListenPort1'', ''WorkerConnections'', ''RecyConnectionWaitTime'',
      ''Heartbeat'', ''HeartWaitTime'']"
  by code_simp

lemma get_int_present: "get_string k [] c \<noteq> [] \<Longrightarrow> get_int k d c = get_int k 0 c"
  by (simp add: get_int_def)

lemma shipped_get_int:
  "get_int ''ListenPortCount'' d shipped = Inr 2" "get_int ''ListenPort0'' d shipped = Inr 8181"
  "get_int ''ListenPort1'' d shipped = Inr 8182" "get_int ''WorkerConnections'' d shipped = Inr 1024"
  "get_int ''RecyConnectionWaitTime'' d shipped = Inr 10" "get_int ''Heartbeat'' d shipped = Inr 0"
  "get_int ''HeartWaitTime'' d shipped = Inr 5"
  using shipped_numbers shipped_present get_int_present [of _ shipped d] by simp_all

text \<open>With these settings and working system calls a worker listens on the ports 8181 and 8182.\<close>

lemma shipped_ports:
  assumes "\<forall>io \<in> {a, b}. li_socket io \<ge> 0 \<and> li_reuseaddr io \<and> li_bind io \<and> li_listen io"
  shows "\<exists>s. init shipped [a, b] Mgx_socket = Inr (True, s, [8181, 8182]) \<and> m_worker_conns s = 1024 \<and>
    m_enabled_heartbeat s = 0"
proof -
  have i: "int_str 0 = ''0''" "int_str 1 = ''1''" by code_simp+
  have "read_conf shipped Mgx_socket = Inr (Mgx_socket\<lparr> m_listen_cnt := 2, m_worker_conns := 1024,
      m_recy_conn_wait_time := 10, m_enabled_heartbeat := 0, m_heart_wait_time := 5 \<rparr>)"
    by (simp add: read_conf_def shipped_get_int)
  with assms show ?thesis
    by (simp add: init_def open_listen_skts_def eval_nat_numeral i shipped_get_int)
qed

end
