(* ===== verification/Mgx_Dispatch.thy ===== *)
theory Mgx_Dispatch
  imports Mgx_Event
begin

text \<open>
  The callbacks of the event loop (\<^verbatim>\<open>src/net/mgx_socket.cpp\<close>, \<open>epoll_process_events\<close>). \<open>r_handler\<close> and
  \<open>w_handler\<close> are \<open>std::function\<close> objects that are empty in a new connection; calling an empty one throws.
  The typing of a loop state says that whatever is registered with \<open>epoll\<close> has the callbacks its
  event mask can ask for, and every turn of the loop keeps it.
\<close>

section \<open>Typing of the loop state\<close>

definition registration_ok :: "mgx_socket \<Rightarrow> epoll_act \<Rightarrow> bool" where
  "registration_ok s act \<longleftrightarrow>
     (case act of Epoll_ctl fd op es d \<Rightarrow>
        ptr_conn d \<in> set (m_pconns_queue s) \<and> r_handler (conns s (ptr_conn d)) \<noteq> H_none \<and>
        (es AND EPOLLOUT \<noteq> 0 \<longrightarrow> w_handler (conns s (ptr_conn d)) = H_send_msg))"

definition loop_typed :: "mgx_socket \<Rightarrow> bool" where
  "loop_typed s \<longleftrightarrow> (\<forall>p \<in> set (m_pconns_queue s). aligned_ptr p) \<and>
     set (m_pconns_free_queue s) \<subseteq> set (m_pconns_queue s) \<and>
     (\<forall>act \<in> set (epoll_log s). registration_ok s act)"

text \<open>
  What the loop relies on: \<open>epoll_wait\<close> reports a registered pointer, and writability only where it was
  asked for; the allocator returns aligned addresses that are not in use.
\<close>

definition reported :: "epoll_ev \<Rightarrow> mgx_socket \<Rightarrow> bool" where
  "reported ev s \<longleftrightarrow> (\<exists>fd op es. Epoll_ctl fd op es (ev_data ev) \<in> set (epoll_log s) \<and>
     (ev_events ev AND EPOLLOUT \<noteq> 0 \<longrightarrow> es AND EPOLLOUT \<noteq> 0))"

definition alloc_ok :: "epoll_ev \<Rightarrow> mgx_socket \<Rightarrow> bool" where
  "alloc_ok ev s \<longleftrightarrow> aligned_ptr (ai_newp (ev_accept ev)) \<and> ai_newp (ev_accept ev) \<notin> set (m_pconns_queue s)"

fun loop_contract :: "(mgx_msg_hdr \<Rightarrow> bytes) \<Rightarrow> epoll_ev list \<Rightarrow> loop_sys \<Rightarrow> bool" where
  "loop_contract img [] L = True"
| "loop_contract img (ev # evs) L \<longleftrightarrow> reported ev (lp_sock L) \<and> alloc_ok ev (lp_sock L) \<and>
     (case process_event img ev L of None \<Rightarrow> True | Some L1 \<Rightarrow> loop_contract img evs L1)"

abbreviation bad_calls :: "mgx_socket \<Rightarrow> nat" where
  "bad_calls s \<equiv> count_list (faults s) Bad_call"

section \<open>Growing loop states\<close>

text \<open>\<open>t\<close> is a typed state after \<open>s\<close>: nothing registered and no callback is lost, and no empty one was called.\<close>

definition disp_grows :: "mgx_socket \<Rightarrow> mgx_socket \<Rightarrow> bool" where
  "disp_grows s t \<longleftrightarrow> loop_typed t \<and> set (epoll_log s) \<subseteq> set (epoll_log t) \<and>
     set (m_pconns_queue s) \<subseteq> set (m_pconns_queue t) \<and> bad_calls t = bad_calls s \<and>
     (\<forall>p \<in> set (m_pconns_queue s).
        (r_handler (conns s p) \<noteq> H_none \<longrightarrow> r_handler (conns t p) \<noteq> H_none) \<and>
        (w_handler (conns s p) = H_send_msg \<longrightarrow> w_handler (conns t p) = H_send_msg))"

lemma disp_grows_refl: "loop_typed s \<Longrightarrow> disp_grows s s"
  by (simp add: disp_grows_def)

lemma disp_grows_trans: "disp_grows s t \<Longrightarrow> disp_grows t u \<Longrightarrow> disp_grows s u"
  by (auto simp: disp_grows_def)

lemma disp_grows_typed: "disp_grows s t \<Longrightarrow> loop_typed t"
  by (simp add: disp_grows_def)

text \<open>Most operations do not touch any of this.\<close>

definition disp_view :: "mgx_socket \<Rightarrow>
    (conn_ptr \<Rightarrow> mgx_handler \<times> mgx_handler) \<times> epoll_act list \<times> conn_ptr list \<times> nat" where
  "disp_view s = (\<lambda>p. (r_handler (conns s p), w_handler (conns s p)), epoll_log s, m_pconns_queue s, bad_calls s)"

definition same_disp :: "mgx_socket \<Rightarrow> mgx_socket \<Rightarrow> bool" where
  "same_disp s t \<longleftrightarrow> disp_view t = disp_view s \<and>
     set (m_pconns_free_queue t) \<subseteq> set (m_pconns_free_queue s) \<union> set (m_pconns_queue s)"

lemma same_disp_refl [simp]: "same_disp s s"
  by (simp add: same_disp_def)

lemma same_disp_trans: "same_disp s t \<Longrightarrow> same_disp t u \<Longrightarrow> same_disp s u"
  by (auto simp: same_disp_def disp_view_def)

lemma same_disp_grows: "same_disp s t \<Longrightarrow> loop_typed s \<Longrightarrow> disp_grows s t"
  by (auto simp: same_disp_def disp_view_def disp_grows_def loop_typed_def registration_ok_def fun_eq_iff
      split: epoll_act.splits)

lemma same_disp_upd:
  "(\<And>k. r_handler (f k) = r_handler k \<and> w_handler (f k) = w_handler k) \<Longrightarrow> same_disp s (upd_conn c f s)"
  by (auto simp: same_disp_def disp_view_def upd_conn_def fun_eq_iff)

lemma same_disp_prims [simp]:
  "f \<noteq> Bad_call \<Longrightarrow> same_disp s (raise_fault f s)" "same_disp s (new_buf a b s)" "same_disp s (close_fd fd s)"
  "same_disp s (delete_buf a s)" "same_disp s (delete_opt ao s)"
  by (simp_all add: same_disp_def disp_view_def raise_fault_def new_buf_def close_fd_def delete_opt_def delete_buf_def
      split: option.split)

lemma same_disp_set_head_time: "same_disp s (set_head_time s)"
  by (simp add: same_disp_def disp_view_def set_head_time_def get_earliest_time_def raise_fault_def split: list.split)

lemma same_disp_delete_timer: "same_disp s (delete_from_timer_queue c s)"
proof -
  let ?s1 = "s\<lparr> m_timer_queue := mm_erase_first (\<lambda>h. mh_pconn h = c) (m_timer_queue s),
    m_timer_que_size := m_timer_que_size s - 1 \<rparr>"
  have "same_disp s ?s1" by (simp add: same_disp_def disp_view_def)
  then have "same_disp s (set_head_time ?s1)" by (rule same_disp_trans [OF _ same_disp_set_head_time])
  with \<open>same_disp s ?s1\<close> show ?thesis
    by (simp add: delete_from_timer_queue_def Let_def same_disp_set_head_time)
qed

lemma same_disp_free_conn:
  assumes "p \<in> set (m_pconns_queue s)"
  shows "same_disp s (free_conn p s)"
proof -
  let ?s1 = "delete_opt (psend_mem_addr (conns s p)) (delete_opt (precv_mem_addr (conns s p)) s)"
  let ?s2 = "put_one_to_free p s"
  have "same_disp s ?s1" by (rule same_disp_trans [of _ "delete_opt (precv_mem_addr (conns s p)) s"]) simp_all
  then have "same_disp s ?s2"
    unfolding put_one_to_free_def Let_def by (rule same_disp_trans) (rule same_disp_upd, simp)
  moreover have "same_disp ?s2 (free_conn p s)"
    using assms calculation by (auto simp: same_disp_def disp_view_def free_conn_def Let_def)
  ultimately show ?thesis by (rule same_disp_trans)
qed

lemma same_disp_close_conn: "p \<in> set (m_pconns_queue s) \<Longrightarrow> same_disp s (close_conn p s)"
  unfolding close_conn_def
  by (rule same_disp_trans [OF same_disp_prims(3) same_disp_free_conn]) (simp add: close_fd_def)

lemma same_disp_insert_recy: "same_disp s (insert_recy_conn_queue now p s)"
proof -
  define s1 where "s1 = (if m_enabled_heartbeat s \<noteq> 0 then delete_from_timer_queue p s else s)"
  define s2 where "s2 = close_fd (c_fd (conns s1 p)) s1"
  have "same_disp s s1" by (simp add: s1_def same_disp_delete_timer)
  then have 2: "same_disp s s2" unfolding s2_def by (rule same_disp_trans) simp
  have "same_disp s2 (upd_conn p (\<lambda>c. c\<lparr> in_recy_time := now, m_cur_seq := m_cur_seq c + 1 \<rparr>) s2)"
    by (rule same_disp_upd) simp
  from same_disp_trans [OF 2 this] 2 show ?thesis
    by (simp add: insert_recy_conn_queue_def Let_def same_disp_def disp_view_def flip: s1_def s2_def)
qed

section \<open>The handlers\<close>

abbreviation same_disp_w :: "worker \<Rightarrow> worker \<Rightarrow> bool" where
  "same_disp_w w v \<equiv> same_disp (wk_sock w) (wk_sock v)"

lemma same_disp_upd_w:
  "(\<And>k. r_handler (f k) = r_handler k \<and> w_handler (f k) = w_handler k) \<Longrightarrow> same_disp_w w (upd_wconn c f w)"
  by (simp add: upd_wconn_def same_disp_upd)

lemma same_disp_store_recv: "same_disp s (store_recv c bs s)"
proof -
  have "same_disp s (s\<lparr> bufs := m \<rparr>)" for m by (simp add: same_disp_def disp_view_def)
  then show ?thesis
    by (auto simp: store_recv_def same_disp_upd split: recv_ptr.split option.split)
qed

lemma same_disp_v2: "same_disp_w w (read_request_handler_process_v2 now c w)"
  using same_disp_upd_w [of "\<lambda>k. restore_recv (k\<lparr> precv_mem_addr := None \<rparr>)"]
  by (simp add: read_request_handler_process_v2_def Let_def restore_recv_def upd_wconn_def)

lemma same_disp_then_v2: "same_disp_w w v \<Longrightarrow> same_disp_w w (read_request_handler_process_v2 now c v)"
  by (rule same_disp_trans [OF _ same_disp_v2])

lemma same_disp_then_upd:
  "same_disp_w w v \<Longrightarrow> (\<And>k. r_handler (f k) = r_handler k \<and> w_handler (f k) = w_handler k) \<Longrightarrow>
   same_disp_w w (upd_wconn c f v)"
  by (rule same_disp_trans [OF _ same_disp_upd_w])

lemma same_disp_v1: "same_disp_w w (read_request_handler_process_v1 io c w)"
proof -
  have "same_disp_w w (upd_wconn c (\<lambda>k. k\<lparr> precv_mem_addr := Some a \<rparr>) (w\<lparr> wk_sock := new_buf a b (wk_sock w) \<rparr>))" for a b
    by (rule same_disp_trans [OF same_disp_prims(2) [of "wk_sock w" a b]])
      (simp add: upd_wconn_def same_disp_upd)
  then show ?thesis
    unfolding read_request_handler_process_v1_def Let_def
    by (auto intro!: same_disp_upd_w same_disp_then_upd same_disp_then_v2 simp: restore_recv_def)
qed

lemma same_disp_recv_process:
  "c \<in> set (m_pconns_queue s) \<Longrightarrow> same_disp s (snd (recv_process now c ret s))"
  by (auto simp: recv_process_def same_disp_insert_recy same_disp_close_conn split: recv_ret.split)

lemma same_disp_read_handler:
  assumes "c \<in> set (m_pconns_queue (wk_sock w))"
  shows "same_disp_w w (read_request_handler io c w)"
proof -
  obtain n s1 where r: "recv_process (ri_now io) c (ri_ret io) (wk_sock w) = (n, s1)" by fastforce
  define w1 where "w1 = w\<lparr> wk_sock := store_recv c (case ri_ret io of Recv_n bs \<Rightarrow> bs | Recv_err _ \<Rightarrow> []) s1 \<rparr>"
  have 1: "same_disp (wk_sock w) s1"
    using same_disp_recv_process [OF assms, of "ri_now io" "ri_ret io"] r by simp
  then have 2: "same_disp_w w w1"
    unfolding w1_def by (simp add: same_disp_trans [OF _ same_disp_store_recv])
  have "same_disp_w w (upd_wconn c (\<lambda>k. advance m (k\<lparr> recv_stat := st \<rparr>)) w1)"
    "same_disp_w w (upd_wconn c (advance m) w1)" for m st
    by (rule same_disp_trans [OF 2 same_disp_upd_w], simp add: advance_def)+
  with 1 2 same_disp_trans [OF 2 same_disp_v1] same_disp_then_v2 [OF 2] show ?thesis
    unfolding read_request_handler_def r Let_def prod.case w1_def [symmetric] by simp
qed

lemma same_disp_drop_send_mem: "same_disp s (drop_send_mem c s)"
  unfolding drop_send_mem_def
  by (rule same_disp_trans [OF same_disp_prims(5) same_disp_upd]) simp

text \<open>The write handler gives \<open>EPOLLOUT\<close> back; its registration asks for nothing new.\<close>

lemma mod_remove_epollout: "mod_events REMOVE EPOLLOUT m AND EPOLLOUT = 0"
  by (simp add: mod_events_def and.assoc)

lemma remove_epollout_grows:
  assumes "loop_typed s" and "c \<in> set (m_pconns_queue s)" and "r_handler (conns s c) \<noteq> H_none"
  shows "disp_grows s (snd (epoll_oper_event ok fd EPOLL_CTL_MOD EPOLLOUT REMOVE c s))"
proof -
  let ?s1 = "upd_conn c (\<lambda>k. k\<lparr> c_events := mod_events REMOVE EPOLLOUT (c_events k) \<rparr>) s"
  have g: "disp_grows s ?s1" by (rule same_disp_grows [OF same_disp_upd assms(1)]) simp
  have "ptr_conn (tag_ptr c i) = c" for i
    using ptr_tag_roundtrip(1) assms(1,2) by (simp add: loop_typed_def)
  with g assms(2,3) show ?thesis
    by (auto simp: epoll_oper_event_mod disp_grows_def loop_typed_def registration_ok_def mod_remove_epollout
        split: epoll_act.splits)
qed

lemma send_handler_grows:
  assumes "loop_typed (ss_sock y)" and "c \<in> set (m_pconns_queue (ss_sock y))"
    and "r_handler (conns (ss_sock y) c) \<noteq> H_none" and "send_msg_handler img c outs y = Some (outs', y')"
  shows "disp_grows (ss_sock y) (ss_sock y')"
proof -
  let ?s = "ss_sock y"
  define fin where "fin = (\<lambda>s. drop_send_mem c (upd_conn c (\<lambda>k. k\<lparr> throw_send_cnt := 0 \<rparr>)
    (s\<lparr> m_send_queue_sem := m_send_queue_sem s + 1 \<rparr>)))"
  have "same_disp t (fin t)" for t
  proof -
    have "same_disp t (t\<lparr> m_send_queue_sem := m_send_queue_sem t + 1 \<rparr>)" by (simp add: same_disp_def disp_view_def)
    then show ?thesis
      unfolding fin_def by (rule same_disp_trans [OF same_disp_trans [OF _ same_disp_upd] same_disp_drop_send_mem]) simp
  qed
  then have fin: "disp_grows ?s t \<Longrightarrow> disp_grows ?s (fin t)" for t
    using disp_grows_trans same_disp_grows disp_grows_typed by blast
  have upd: "disp_grows ?s (upd_conn c f ?s)" if "\<And>k. r_handler (f k) = r_handler k \<and> w_handler (f k) = w_handler k" for f
    by (rule same_disp_grows [OF same_disp_upd assms(1)]) (rule that)
  note mod = remove_epollout_grows [OF assms(1-3)]
  from assms(1,4) show ?thesis
    unfolding send_msg_handler_def Let_def fin_def [symmetric]
    by (auto split: option.splits if_splits intro!: fin mod upd disp_grows_refl)
qed

lemma get_conn_grows:
  assumes "loop_typed s" and "aligned_ptr newp" and "newp \<notin> set (m_pconns_queue s)" and "get_conn now newp fd s = (c, t)"
  shows "disp_grows s t" and "c = 0 \<or> c \<in> set (m_pconns_queue t)"
proof -
  consider (pool) p q where "m_pconns_free_queue s = p # q" "c = p" "t = s\<lparr> m_pconns_free_queue := q,
        m_free_conns_cnt := m_free_conns_cnt s - 1, conns := (conns s)(p := (get_one_to_use now (conns s p))
          \<lparr> c_fd := fd, c_instance := \<not> c_instance (conns s p) \<rparr>) \<rparr>"
    | (empty) "c = 0" "t = raise_fault Empty_front s"
    | (new) "c = newp" "t = s\<lparr> conns := (conns s)(newp := (get_one_to_use now new_conn)\<lparr> c_fd := fd \<rparr>),
        m_pconns_queue := m_pconns_queue s @ [newp], m_total_conns_cnt := m_total_conns_cnt s + 1 \<rparr>"
    using assms(4) by (auto simp: get_conn_def split: if_splits list.splits)
  then have "disp_grows s t \<and> (c = 0 \<or> c \<in> set (m_pconns_queue t))"
  proof cases
    case pool
    then have "same_disp s t" by (auto simp: same_disp_def disp_view_def get_one_to_use_def fun_eq_iff)
    with pool assms(1) show ?thesis by (auto simp: same_disp_grows loop_typed_def)
  next
    case empty
    with assms(1) show ?thesis by (simp add: same_disp_grows)
  next
    case new
    with assms(1-3) show ?thesis
      by (fastforce simp: disp_grows_def loop_typed_def registration_ok_def split: epoll_act.splits)
  qed
  then show "disp_grows s t" "c = 0 \<or> c \<in> set (m_pconns_queue t)" by simp_all
qed

text \<open>Registering a connection for reading.\<close>

lemma register_grows:
  assumes "loop_typed s" and "c \<in> set (m_pconns_queue s)"
    and "\<And>k. r_handler (f k) \<noteq> H_none \<and> (w_handler k = H_send_msg \<longrightarrow> w_handler (f k) = H_send_msg)"
    and "epoll_oper_event ok fd EPOLL_CTL_ADD (EPOLLIN OR EPOLLRDHUP) act c (upd_conn c f s) = (ok', t)"
  shows "disp_grows s t" and "m_pconns_queue t = m_pconns_queue s"
proof -
  have "ptr_conn (tag_ptr c i) = c" for i
    using ptr_tag_roundtrip(1) assms(1,2) by (simp add: loop_typed_def)
  moreover have "(EPOLLIN OR EPOLLRDHUP) AND EPOLLOUT = 0" by (simp add: epoll_consts)
  moreover have t: "conns t = (conns s)(c := (f (conns s c))\<lparr> c_events := EPOLLIN OR EPOLLRDHUP \<rparr>)"
      "epoll_log t = Epoll_ctl fd EPOLL_CTL_ADD (EPOLLIN OR EPOLLRDHUP) (tag_ptr c (c_instance (f (conns s c)))) # epoll_log s"
    and same: "m_pconns_queue t = m_pconns_queue s" "m_pconns_free_queue t = m_pconns_free_queue s" "faults t = faults s"
    using assms(4) by (auto simp: epoll_oper_event_add upd_conn_def)
  moreover have "registration_ok t act" if "registration_ok s act" for act
    using that assms(3) by (cases act) (auto simp: registration_ok_def t same)
  ultimately have "loop_typed t"
    using assms(1-3) by (auto simp: loop_typed_def) (simp add: registration_ok_def)
  then show "disp_grows s t"
    using assms(3) by (auto simp: disp_grows_def t same)
  show "m_pconns_queue t = m_pconns_queue s" by (rule same(1))
qed

lemma event_accept_steps:
  assumes "accept_call io u = (Acc_fd fd peer, u')" and "get_conn (ai_now io) (ai_newp io) fd s = (c, s1)" and "c \<noteq> 0"
    and "s2 = (if length peer \<le> 16 then s1 else raise_fault Out_of_bounds s1)"
  obtains f t where "\<forall>k. r_handler (f k) = H_read_request \<and> w_handler (f k) = H_send_msg"
    and "epoll_oper_event (ai_ctl_ok io) fd EPOLL_CTL_ADD (EPOLLIN OR EPOLLRDHUP) IGNORE c (upd_conn c f s2) = (ai_ctl_ok io, t)"
    and "snd (event_accept io l u s) = (if \<not> ai_ctl_ok io then close_conn c t
      else if m_enabled_heartbeat t \<noteq> 0 then add_to_timer_queue (ai_now io) c t else t)"
proof -
  let ?f = "\<lambda>k. k\<lparr> conn_sockaddr := take (length peer) (take 0 peer @ drop (min 0 (length peer)) (replicate 16 0)) @
      drop (length peer) (conn_sockaddr k), r_handler := H_read_request, w_handler := H_send_msg \<rparr>"
  obtain ok t where e: "epoll_oper_event (ai_ctl_ok io) fd EPOLL_CTL_ADD (EPOLLIN OR EPOLLRDHUP) IGNORE c
      (upd_conn c ?f s2) = (ok, t)" by fastforce
  then have ok: "ok = ai_ctl_ok io" by (simp add: epoll_oper_event_add)
  have "snd (event_accept io l u s) = (if \<not> ok then close_conn c t
      else if m_enabled_heartbeat t \<noteq> 0 then add_to_timer_queue (ai_now io) c t else t)"
    unfolding event_accept_def assms(1) prod.case accept_ret.case Let_def assms(2) accept_fill_def
      assms(4) [symmetric] e by (simp only: assms(3) if_False) (simp only: prod.case if_distrib [of snd] snd_conv)
  with e ok that [of ?f t] show thesis by simp
qed

lemma event_accept_grows:
  assumes "loop_typed s" and "aligned_ptr (ai_newp io)" and "ai_newp io \<notin> set (m_pconns_queue s)"
  shows "disp_grows s (snd (event_accept io l u s))"
proof (cases "fst (accept_call io u)")
  case (Acc_err e)
  then obtain u' where "accept_call io u = (Acc_err e, u')" by (metis prod.collapse)
  with assms(1) show ?thesis by (simp add: event_accept_def disp_grows_refl)
next
  case (Acc_fd fd peer)
  then obtain u' where a: "accept_call io u = (Acc_fd fd peer, u')" by (metis prod.collapse)
  obtain c s1 where g: "get_conn (ai_now io) (ai_newp io) fd s = (c, s1)" by fastforce
  note grows = get_conn_grows [OF assms g]
  have more: "disp_grows s u \<Longrightarrow> same_disp u v \<Longrightarrow> disp_grows s v" for u v
    using disp_grows_trans same_disp_grows disp_grows_typed by blast
  show ?thesis
  proof (cases "c = 0")
    case True
    with a g more [OF grows(1) same_disp_prims(3)] show ?thesis by (simp add: event_accept_def)
  next
    case False
    define s2 where "s2 = (if length peer \<le> 16 then s1 else raise_fault Out_of_bounds s1)"
    have "same_disp s1 s2" by (simp add: s2_def)
    then have 2: "disp_grows s s2" by (rule more [OF grows(1)])
    have in2: "c \<in> set (m_pconns_queue s2)"
      using grows(2) False by (simp add: s2_def raise_fault_def)
    obtain f t where f: "\<forall>k. r_handler (f k) = H_read_request \<and> w_handler (f k) = H_send_msg"
      and e: "epoll_oper_event (ai_ctl_ok io) fd EPOLL_CTL_ADD (EPOLLIN OR EPOLLRDHUP) IGNORE c (upd_conn c f s2) =
        (ai_ctl_ok io, t)"
      and eq: "snd (event_accept io l u s) = (if \<not> ai_ctl_ok io then close_conn c t
        else if m_enabled_heartbeat t \<noteq> 0 then add_to_timer_queue (ai_now io) c t else t)"
      by (rule event_accept_steps [where l = l, OF a g False s2_def])
    note reg = register_grows [OF disp_grows_typed [OF 2] in2 _ e]
    have t: "disp_grows s t" by (rule disp_grows_trans [OF 2 reg(1)]) (simp add: f)
    have "same_disp t (add_to_timer_queue now c t)" for now
      using add_to_timer_queue_frame(1-4) [of now c t] by (simp add: same_disp_def disp_view_def pool_view_def)
    with t more [OF t] same_disp_close_conn [of c t] reg(2) in2 f show ?thesis
      by (simp add: eq)
  qed
qed

section \<open>The loop\<close>

lemma call_send_grows:
  assumes "loop_typed (lp_sock L)" and "c \<in> set (m_pconns_queue (lp_sock L))"
    and "r_handler (conns (lp_sock L) c) \<noteq> H_none" and "call_handler img H_send_msg ev c L = Some L'"
  shows "disp_grows (lp_sock L) (lp_sock L')"
proof -
  let ?y = "\<lparr> ss_sock = lp_sock L, ss_wire = lp_wire L \<rparr>"
  from assms(4) obtain outs y where "send_msg_handler img c (ev_send ev) ?y = Some (outs, y)" "lp_sock L' = ss_sock y"
    by (auto simp: call_handler_def set_lp_sock_def)
  with send_handler_grows [of ?y c img] assms(1-3) show ?thesis by simp
qed

lemma call_handler_grows:
  assumes "loop_typed (lp_sock L)" and "c \<in> set (m_pconns_queue (lp_sock L))"
    and "r_handler (conns (lp_sock L) c) \<noteq> H_none" and "h \<noteq> H_none" and "alloc_ok ev (lp_sock L)"
    and "call_handler img h ev c L = Some L'"
  shows "disp_grows (lp_sock L) (lp_sock L')"
proof (cases h)
  case H_none
  with assms(4) show ?thesis by simp
next
  case H_event_accept
  with assms event_accept_grows [OF assms(1), of "ev_accept ev" c "lp_accept4 L"] show ?thesis
    by (auto simp: call_handler_def alloc_ok_def set_lp_sock_def split: prod.splits)
next
  case H_read_request
  with assms same_disp_grows [OF same_disp_read_handler] show ?thesis
    by (auto simp: call_handler_def)
next
  case H_send_msg
  with assms call_send_grows show ?thesis by blast
qed

lemma process_event_grows:
  assumes "loop_typed (lp_sock L)" and "reported ev (lp_sock L)" and "alloc_ok ev (lp_sock L)"
    and "process_event img ev L = Some L'"
  shows "disp_grows (lp_sock L) (lp_sock L')"
proof -
  define c where "c = ptr_conn (ev_data ev)"
  from assms(1,2) have reg: "c \<in> set (m_pconns_queue (lp_sock L))" "r_handler (conns (lp_sock L) c) \<noteq> H_none"
    and out: "ev_events ev AND EPOLLOUT \<noteq> 0 \<Longrightarrow> w_handler (conns (lp_sock L) c) = H_send_msg"
    by (auto simp: reported_def loop_typed_def registration_ok_def c_def)
  have step: "L' = L \<or> (\<exists>L1.
      (if ev_events ev AND EPOLLIN \<noteq> 0 then call_handler img (r_handler (conns (lp_sock L) c)) ev c L else Some L) =
        Some L1 \<and>
      (if ev_events ev AND EPOLLOUT \<noteq> 0 then call_handler img (w_handler (conns (lp_sock L1) c)) ev c L1
       else Some L1) = Some L')"
    using assms(4) unfolding process_event_def Let_def c_def [symmetric]
    by (cases "c_fd (conns (lp_sock L) c) = -1 \<or> of_bool (c_instance (conns (lp_sock L) c)) \<noteq> ptr_instance (ev_data ev)")
      (simp_all only: if_True if_False option.inject bind_eq_Some_conv simp_thms)
  then show ?thesis
  proof (elim disjE exE conjE)
    fix L1
    assume 1: "(if ev_events ev AND EPOLLIN \<noteq> 0 then call_handler img (r_handler (conns (lp_sock L) c)) ev c L
        else Some L) = Some L1"
      and 2: "(if ev_events ev AND EPOLLOUT \<noteq> 0 then call_handler img (w_handler (conns (lp_sock L1) c)) ev c L1
        else Some L1) = Some L'"
    have g: "disp_grows (lp_sock L) (lp_sock L1)"
      using 1 call_handler_grows [OF assms(1) reg reg(2) assms(3)] disp_grows_refl [OF assms(1)]
      by (cases "ev_events ev AND EPOLLIN = 0") auto
    with reg have r: "c \<in> set (m_pconns_queue (lp_sock L1))" "r_handler (conns (lp_sock L1) c) \<noteq> H_none"
      by (auto simp: disp_grows_def)
    show ?thesis
    proof (cases "ev_events ev AND EPOLLOUT = 0")
      case False
      with g reg out have "w_handler (conns (lp_sock L1) c) = H_send_msg" by (auto simp: disp_grows_def)
      with 2 False call_send_grows [OF disp_grows_typed [OF g] r] disp_grows_trans [OF g] show ?thesis by auto
    qed (use 2 g in simp)
  qed (simp add: disp_grows_refl assms(1))
qed

lemma process_events_grow:
  "loop_typed (lp_sock L) \<Longrightarrow> loop_contract img evs L \<Longrightarrow> process_events img evs L = Some L' \<Longrightarrow>
   disp_grows (lp_sock L) (lp_sock L')"
proof (induction evs arbitrary: L)
  case Nil
  then show ?case by (simp add: disp_grows_refl)
next
  case (Cons ev evs)
  then obtain L1 where L1: "process_event img ev L = Some L1" "process_events img evs L1 = Some L'"
    by (auto simp: bind_eq_Some_conv)
  have g: "disp_grows (lp_sock L) (lp_sock L1)"
    by (rule process_event_grows [OF Cons.prems(1) _ _ L1(1)]) (use Cons.prems(2) in simp_all)
  with Cons.IH [OF disp_grows_typed [OF g] _ L1(2)] Cons.prems(2) L1(1) show ?case
    by (auto intro: disp_grows_trans)
qed

section \<open>Start-up establishes the typing\<close>

lemma register_listen_grows:
  assumes "inj (\<lambda>n. fst (snd (ios n)))"
  shows "loop_typed s \<Longrightarrow>
    \<forall>n \<ge> length done. aligned_ptr (fst (snd (ios n))) \<and> fst (snd (ios n)) \<notin> set (m_pconns_queue s) \<Longrightarrow>
    register_listen ios done ls s = Some s' \<Longrightarrow> disp_grows s s'"
proof (induction ls arbitrary: "done" s)
  case Nil
  then show ?case by (simp add: disp_grows_refl)
next
  case (Cons l ls)
  obtain now newp ctl where io: "ios (length done) = (now, newp, ctl)" by (cases "ios (length done)")
  obtain c s1 where g: "get_conn now newp (ls_fd l) s = (c, s1)" by fastforce
  from Cons.prems(3) have c: "c \<noteq> 0" by (auto simp: io g Let_def split: if_splits)
  define f :: "mgx_conn \<Rightarrow> mgx_conn" where "f = (\<lambda>k. k\<lparr> listen_skt := Some (length done), r_handler := H_event_accept \<rparr>)"
  define s2 where "s2 = s1\<lparr> m_listen_skts := done @ l\<lparr> ls_pconn := Some c \<rparr> # ls \<rparr>"
  obtain ok s3 where e: "epoll_oper_event ctl (ls_fd l) EPOLL_CTL_ADD (EPOLLIN OR EPOLLRDHUP) IGNORE c
      (upd_conn c f s2) = (ok, s3)" by fastforce
  have "(upd_conn c f s1)\<lparr> m_listen_skts := done @ l\<lparr> ls_pconn := Some c \<rparr> # ls \<rparr> = upd_conn c f s2"
    by (simp add: s2_def upd_conn_def)
  with Cons.prems(3) c e have rest: "if ok then register_listen ios (done @ [l\<lparr> ls_pconn := Some c \<rparr>]) ls s3 = Some s'
      else s' = close_conn c s3"
    by (auto simp: io g Let_def f_def)
  have new: "aligned_ptr newp" "newp \<notin> set (m_pconns_queue s)"
    using Cons.prems(2) io by (metis fst_conv snd_conv le_refl)+
  note grows = get_conn_grows [OF Cons.prems(1) new g]
  have "same_disp s1 s2" by (simp add: s2_def same_disp_def disp_view_def)
  then have 2: "disp_grows s s2"
    using disp_grows_trans [OF grows(1) same_disp_grows] disp_grows_typed [OF grows(1)] by blast
  have in2: "c \<in> set (m_pconns_queue s2)" using grows(2) c by (simp add: s2_def)
  have f: "r_handler (f k) \<noteq> H_none \<and> (w_handler k = H_send_msg \<longrightarrow> w_handler (f k) = H_send_msg)" for k
    by (simp add: f_def)
  note reg = register_grows [OF disp_grows_typed [OF 2] in2 f e]
  have 3: "disp_grows s s3" by (rule disp_grows_trans [OF 2 reg(1)])
  show ?case
  proof (cases ok)
    case False
    with rest in2 reg(2) 3 show ?thesis
      using disp_grows_trans [OF 3 same_disp_grows [OF same_disp_close_conn disp_grows_typed [OF 3]]] by simp
  next
    case True
    have sub: "set (m_pconns_queue s3) \<subseteq> insert newp (set (m_pconns_queue s))"
      using g reg(2) by (auto simp: s2_def get_conn_def raise_fault_def split: if_splits list.splits)
    have later: "fst (snd (ios n)) \<notin> set (m_pconns_queue s3)" if n: "length done < n" for n
    proof
      assume "fst (snd (ios n)) \<in> set (m_pconns_queue s3)"
      with sub have "fst (snd (ios n)) = newp \<or> fst (snd (ios n)) \<in> set (m_pconns_queue s)" by blast
      moreover have "fst (snd (ios n)) \<noteq> fst (snd (ios (length done)))" using injD [OF assms, of n "length done"] n by auto
      ultimately show False using Cons.prems(2) n by (simp add: io)
    qed
    then have "\<forall>n \<ge> length (done @ [l\<lparr> ls_pconn := Some c \<rparr>]).
        aligned_ptr (fst (snd (ios n))) \<and> fst (snd (ios n)) \<notin> set (m_pconns_queue s3)"
      using Cons.prems(2) by simp
    from disp_grows_trans [OF 3 Cons.IH [OF disp_grows_typed [OF 3] this]] True rest show ?thesis by simp
  qed
qed

text \<open>The loop starts in a typed state, and starting it calls nothing.\<close>

lemma pool_adds_typed:
  "loop_typed s \<Longrightarrow> epoll_log s = [] \<Longrightarrow> \<forall>pt \<in> set l. aligned_ptr (fst pt) \<Longrightarrow>
   loop_typed (foldl pool_add s l) \<and> epoll_log (foldl pool_add s l) = [] \<and>
   set (m_pconns_queue (foldl pool_add s l)) \<subseteq> set (m_pconns_queue s) \<union> fst ` set l \<and>
   faults (foldl pool_add s l) = faults s \<and> m_listen_skts (foldl pool_add s l) = m_listen_skts s"
proof (induction l arbitrary: s)
  case Nil
  then show ?case by simp
next
  case (Cons pt l)
  have p: "epoll_log (pool_add s pt) = []" "faults (pool_add s pt) = faults s"
    "m_pconns_queue (pool_add s pt) = m_pconns_queue s @ [fst pt]"
    "m_pconns_free_queue (pool_add s pt) = m_pconns_free_queue s @ [fst pt]"
    "m_listen_skts (pool_add s pt) = m_listen_skts s"
    using Cons.prems(2) by (simp_all add: pool_add_def Let_def split: prod.split)
  with Cons.prems have "loop_typed (pool_add s pt)" by (auto simp: loop_typed_def)
  from Cons.IH [OF this p(1)] Cons.prems(3) p show ?case by auto
qed

lemma epoll_init_typed:
  assumes "epoll_init use_http io s = Some s'" and "epoll_log s = []" and "m_pconns_queue s = []" and "m_pconns_free_queue s = []"
    and "\<forall>pt \<in> set (ii_allocs io). aligned_ptr (fst pt)" and "inj (\<lambda>n. fst (snd (ii_listen io n)))"
    and "\<And>n. aligned_ptr (fst (snd (ii_listen io n))) \<and> fst (snd (ii_listen io n)) \<notin> fst ` set (ii_allocs io)"
  shows "loop_typed s' \<and> bad_calls s' = bad_calls s"
proof -
  define l where "l = take (nat (m_worker_conns s)) (ii_allocs io)"
  define s1 where "s1 = conn_pool_init (ii_allocs io) (s\<lparr> m_epoll_fd := ii_epoll_fd io \<rparr>)"
  let ?t = "foldl pool_add (s\<lparr> m_epoll_fd := ii_epoll_fd io \<rparr>) l"
  have l: "set l \<subseteq> set (ii_allocs io)" by (simp add: l_def set_take_subset)
  have "loop_typed (s\<lparr> m_epoll_fd := ii_epoll_fd io \<rparr>)"
    using assms(2-4) by (simp add: loop_typed_def)
  then have "loop_typed ?t \<and> epoll_log ?t = [] \<and> set (m_pconns_queue ?t) \<subseteq> fst ` set l \<and> faults ?t = faults s"
    using pool_adds_typed [of "s\<lparr> m_epoll_fd := ii_epoll_fd io \<rparr>" l] assms(2,3,5) l by auto
  then have s1: "loop_typed s1" "epoll_log s1 = []" "set (m_pconns_queue s1) \<subseteq> fst ` set l" "faults s1 = faults s"
    by (simp_all add: s1_def conn_pool_init_def l_def loop_typed_def)
  define s2 where "s2 = s1\<lparr> m_send_queue_sem := 0 \<rparr>"
  have s2: "same_disp s1 s2" by (simp add: s2_def same_disp_def disp_view_def)
  have "register_listen (ii_listen io) [] (m_listen_skts s2) s2 = Some s'"
    using assms(1)
    by (auto simp: epoll_init_def Let_def bind_eq_Some_conv send_msg_th_init_def heart_timer_init_def
        s1_def [symmetric] s2_def split: if_splits)
  moreover have "\<forall>n \<ge> length []. aligned_ptr (fst (snd (ii_listen io n))) \<and> fst (snd (ii_listen io n)) \<notin> set (m_pconns_queue s2)"
    using assms(7) s1(3) image_mono [OF l, of fst] by (simp add: s2_def) blast
  ultimately have "disp_grows s2 s'"
    using register_listen_grows [OF assms(6), of s2 "[]"] disp_grows_typed [OF same_disp_grows [OF s2 s1(1)]] by simp
  then show ?thesis using s1(4) s2 by (simp add: disp_grows_def same_disp_def disp_view_def)
qed

section \<open>The send thread\<close>

text \<open>
  The send thread asks for \<open>EPOLLOUT\<close>. It keeps the typing when the messages in its list are for connections
  that have both callbacks, as those do from which the requests came.
\<close>

definition answerable :: "mgx_socket \<Rightarrow> conn_ptr \<Rightarrow> bool" where
  "answerable s c \<longleftrightarrow> c \<in> set (m_pconns_queue s) \<and> r_handler (conns s c) \<noteq> H_none \<and> w_handler (conns s c) = H_send_msg"

definition dests_ok :: "mgx_socket \<Rightarrow> addr list \<Rightarrow> bool" where
  "dests_ok s l \<longleftrightarrow> (\<forall>a \<in> set l. \<forall>b. bufs s a = Some b \<longrightarrow> answerable s (mh_pconn (buf_hdr b)))"

text \<open>Growing, with no buffer added.\<close>

definition disp_shrinks :: "mgx_socket \<Rightarrow> mgx_socket \<Rightarrow> bool" where
  "disp_shrinks s t \<longleftrightarrow> disp_grows s t \<and> (\<forall>x b. bufs t x = Some b \<longrightarrow> bufs s x = Some b)"

lemma disp_shrinks_typed: "disp_shrinks s t \<Longrightarrow> loop_typed t"
  by (auto simp: disp_shrinks_def disp_grows_def)

lemma disp_shrinks_refl: "loop_typed s \<Longrightarrow> disp_shrinks s s"
  by (simp add: disp_shrinks_def disp_grows_refl)

lemma disp_shrinks_trans: "disp_shrinks s t \<Longrightarrow> disp_shrinks t u \<Longrightarrow> disp_shrinks s u"
  unfolding disp_shrinks_def by (blast intro: disp_grows_trans)

lemma answerable_grows: "disp_grows s t \<Longrightarrow> answerable s c \<Longrightarrow> answerable t c"
  by (auto simp: disp_grows_def answerable_def)

lemma dests_ok_shrinks: "disp_shrinks s t \<Longrightarrow> dests_ok s l \<Longrightarrow> dests_ok t l"
  unfolding dests_ok_def disp_shrinks_def using answerable_grows by blast

lemma same_disp_shrinks:
  "loop_typed s \<Longrightarrow> same_disp s t \<Longrightarrow> (\<And>x b. bufs t x = Some b \<Longrightarrow> bufs s x = Some b) \<Longrightarrow> disp_shrinks s t"
  by (simp add: disp_shrinks_def same_disp_grows)

lemma arm_epollout_shrinks:
  assumes "loop_typed s" and "answerable s c"
  shows "disp_shrinks s (arm_epollout c s)"
proof -
  let ?s1 = "upd_conn c (\<lambda>k. k\<lparr> c_events := mod_events ADD EPOLLOUT (c_events k) \<rparr>) s"
  have g: "disp_grows s ?s1" by (rule same_disp_grows [OF same_disp_upd assms(1)]) simp
  have "ptr_conn (tag_ptr c i) = c" for i
    using ptr_tag_roundtrip(1) assms by (simp add: loop_typed_def answerable_def)
  with g assms(2) have "disp_grows s (arm_epollout c s)"
    by (auto simp: arm_epollout_def epoll_oper_event_mod disp_grows_def loop_typed_def registration_ok_def answerable_def
        split: epoll_act.splits)
  then show ?thesis by (simp add: disp_shrinks_def)
qed

lemma drop_send_mem_bufs: "bufs (drop_send_mem c s) x = Some b \<Longrightarrow> bufs s x = Some b"
  by (auto simp: drop_send_mem_def delete_opt_def split: option.splits if_splits)

lemma after_send_shrinks:
  assumes "loop_typed s" and "answerable s c"
  shows "disp_shrinks s (after_send n c s)"
proof -
  have upd: "disp_shrinks s (upd_conn c f s)" if "\<And>k. r_handler (f k) = r_handler k \<and> w_handler (f k) = w_handler k" for f
    by (rule same_disp_shrinks [OF assms(1) same_disp_upd]) (use that in simp_all)
  have drop: "disp_shrinks s (drop_send_mem c t)" if "disp_shrinks s t" for t
  proof -
    from that have "loop_typed t" by (rule disp_shrinks_typed)
    then have "disp_shrinks t (drop_send_mem c t)"
      by (rule same_disp_shrinks [OF _ same_disp_drop_send_mem]) (rule drop_send_mem_bufs)
    with that show ?thesis by (rule disp_shrinks_trans)
  qed
  have arm: "disp_shrinks s (arm_epollout c t)" if "disp_shrinks s t" for t
  proof -
    have "answerable t c" using that assms(2) answerable_grows by (auto simp: disp_shrinks_def)
    from disp_shrinks_trans [OF that arm_epollout_shrinks [OF disp_shrinks_typed [OF that] this]] show ?thesis .
  qed
  show ?thesis
    by (simp add: after_send_def Let_def) (auto intro!: upd drop arm)
qed

lemma send_one_shrinks:
  assumes "loop_typed (ss_sock y)" and "answerable (ss_sock y) (mh_pconn (buf_hdr b))"
    and "send_one uh a b others outs y = Some (outs', y')"
  shows "disp_shrinks (ss_sock y) (ss_sock y')"
proof -
  let ?c = "mh_pconn (buf_hdr b)"
  define s1 where "s1 = upd_conn ?c (\<lambda>k. k\<lparr> psend_buf := Some (a, 0), rest_send_size := send_size_of uh b,
    psend_mem_addr := Some a \<rparr>) (ss_sock y)"
  define s2 where "s2 = s1\<lparr> m_send_list := others, m_send_list_cnt := m_send_list_cnt s1 - 1 \<rparr>"
  from assms(3) obtain n where y': "ss_sock y' = after_send n ?c s2"
    by (auto simp: send_one_def Let_def s1_def s2_def split: option.splits)
  have "same_disp (ss_sock y) s1" unfolding s1_def by (rule same_disp_upd) simp
  moreover have "same_disp s1 s2" by (simp add: s2_def same_disp_def disp_view_def)
  ultimately have 2: "disp_shrinks (ss_sock y) s2"
    by (intro same_disp_shrinks [OF assms(1) same_disp_trans]) (simp_all add: s2_def s1_def)
  then have "loop_typed s2" "answerable s2 ?c"
    using assms(2) answerable_grows disp_shrinks_typed by (auto simp: disp_shrinks_def)
  from disp_shrinks_trans [OF 2 after_send_shrinks [OF this]] show ?thesis by (simp add: y')
qed

lemma send_list_loop_shrinks:
  "loop_typed (ss_sock y) \<Longrightarrow> dests_ok (ss_sock y) post \<Longrightarrow> send_list_loop uh pre post outs y = Some (outs', y') \<Longrightarrow>
   disp_shrinks (ss_sock y) (ss_sock y')"
proof (induction post arbitrary: pre outs y)
  case Nil
  then show ?case by (simp add: same_disp_shrinks)
next
  case (Cons a post)
  have go: "disp_shrinks (ss_sock y) (ss_sock y')"
    if "disp_shrinks (ss_sock y) (ss_sock y1)" "send_list_loop uh pre1 post o1 y1 = Some (outs', y')" for y1 o1 pre1
  proof -
    have "dests_ok (ss_sock y1) post"
      using dests_ok_shrinks [OF that(1) Cons.prems(2)] by (simp add: dests_ok_def)
    from disp_shrinks_trans [OF that(1) Cons.IH [OF disp_shrinks_typed [OF that(1)] this that(2)]] show ?thesis .
  qed
  show ?case
  proof (cases "bufs (ss_sock y) a")
    case None
    with Cons.prems(1,3) show ?thesis by (auto intro!: same_disp_shrinks simp: raise_fault_def same_disp_def disp_view_def)
  next
    case (Some b)
    define stale where "stale = (case post of [] \<Rightarrow> raise_fault Bad_deref | a' # _ \<Rightarrow> delete_buf a')
      ((ss_sock y)\<lparr> m_send_list_cnt := m_send_list_cnt (ss_sock y) - 1, m_send_list := pre @ post \<rparr>)"
    have "same_disp (ss_sock y) ((ss_sock y)\<lparr> m_send_list_cnt := m_send_list_cnt (ss_sock y) - 1, m_send_list := pre @ post \<rparr>)"
      by (simp add: same_disp_def disp_view_def)
    then have "same_disp (ss_sock y) stale"
      unfolding stale_def by (rule same_disp_trans) (simp split: list.split)
    then have st: "disp_shrinks (ss_sock y) stale"
      by (rule same_disp_shrinks [OF Cons.prems(1)])
        (auto simp: stale_def raise_fault_def split: list.splits if_splits)
    have ans: "answerable (ss_sock y) (mh_pconn (buf_hdr b))"
      using Cons.prems(2) Some by (simp add: dests_ok_def)
    consider (old) "send_list_loop uh pre post outs (y\<lparr> ss_sock := stale \<rparr>) = Some (outs', y')"
      | (skip) "send_list_loop uh (pre @ [a]) post outs y = Some (outs', y')"
      | (send) o1 y1 where "send_one uh a b (pre @ post) outs y = Some (o1, y1)"
          "send_list_loop uh pre post o1 y1 = Some (outs', y')"
      using Cons.prems(3) Some by (cases post) (auto simp: Let_def stale_def split: if_splits option.splits)
    then show ?thesis
    proof cases
      case old
      with st go [of "y\<lparr> ss_sock := stale \<rparr>"] show ?thesis by simp
    next
      case skip
      with go [OF disp_shrinks_refl [OF Cons.prems(1)]] show ?thesis by blast
    next
      case send
      with go [OF send_one_shrinks [OF Cons.prems(1) ans]] show ?thesis by blast
    qed
  qed
qed

lemma send_round_typed:
  assumes "loop_typed (ss_sock y)" and "dests_ok (ss_sock y) (m_send_list (ss_sock y))"
    and "send_msg_th_round uh outs y = Some (outs', y')"
  shows "disp_grows (ss_sock y) (ss_sock y')"
proof -
  define y1 where "y1 = y\<lparr> ss_sock := (ss_sock y)\<lparr> m_send_queue_sem := m_send_queue_sem (ss_sock y) - 1 \<rparr> \<rparr>"
  have 1: "disp_shrinks (ss_sock y) (ss_sock y1)"
    by (rule same_disp_shrinks [OF assms(1)]) (simp_all add: y1_def same_disp_def disp_view_def)
  have "m_send_list (ss_sock y1) = m_send_list (ss_sock y)" by (simp add: y1_def)
  with assms(3) have "send_list_loop uh [] (m_send_list (ss_sock y)) outs y1 = Some (outs', y') \<or> y' = y1"
    by (auto simp: send_msg_th_round_def Let_def y1_def split: if_splits)
  then show ?thesis
  proof
    assume "send_list_loop uh [] (m_send_list (ss_sock y)) outs y1 = Some (outs', y')"
    from disp_shrinks_trans [OF 1 send_list_loop_shrinks [OF disp_shrinks_typed [OF 1] dests_ok_shrinks [OF 1 assms(2)] this]]
    show ?thesis by (simp add: disp_shrinks_def)
  qed (use 1 in \<open>simp add: disp_shrinks_def\<close>)
qed

section \<open>Property\<close>

text \<open>
  C17: the event loop only calls callbacks that exist. In a typed state, whatever batch of events
  \<open>epoll_wait\<close> reports and whatever the system calls of the handlers return, no empty \<open>std::function\<close> is
  called, and the state after the batch is typed again: every connection registered by accepting
  has its read and write handler before its first event can arrive, connections that are closed and
  handed out again in between included.
\<close>

theorem dispatch_well_typed:
  assumes "loop_typed (lp_sock L)" and "loop_contract img evs L"
    and "epoll_process_events img timeout (Wait_events evs) L = Some (ok, L')"
  shows "loop_typed (lp_sock L') \<and> count_list (faults (lp_sock L')) Bad_call = count_list (faults (lp_sock L)) Bad_call"
proof (cases "evs = []")
  case True
  with assms(1,3) show ?thesis by (simp add: epoll_process_events_def)
next
  case False
  with assms(3) have "process_events img evs L = Some L'" by (auto simp: epoll_process_events_def)
  from process_events_grow [OF assms(1,2) this] show ?thesis by (simp add: disp_grows_def)
qed

text \<open>A listening socket with the connection object 16, on which a client arrives.\<close>

definition demo_listening :: loop_sys where
  "demo_listening = \<lparr> lp_worker = \<lparr> wk_sock = demo_pool\<lparr> m_pconns_free_queue := [32], m_free_conns_cnt := 1,
       conns := (conns demo_pool)(16 := new_conn\<lparr> c_fd := 5, r_handler := H_event_accept \<rparr>),
       epoll_log := [Epoll_ctl 5 EPOLL_CTL_ADD (EPOLLIN OR EPOLLRDHUP) (tag_ptr 16 False)] \<rparr>, wk_pool = Mgx_th_pool \<rparr>,
     lp_wire = [], lp_accept4 = True \<rparr>"

definition demo_arrival :: epoll_ev where
  "demo_arrival = demo_event\<lparr> ev_data := tag_ptr 16 False \<rparr>"

theorem dispatch_well_typed_witness:
  "\<exists>L'. epoll_process_events (\<lambda>_. []) (-1) (Wait_events [demo_arrival]) demo_listening = Some (True, L') \<and>
     loop_typed (lp_sock L')"
proof -
  have tag: "ptr_conn (tag_ptr 16 False) = 16" "ptr_instance (tag_ptr 16 False) = 0"
    by (simp_all add: ptr_conn_def ptr_instance_def tag_ptr_def)
  have out: "(EPOLLIN OR EPOLLRDHUP) AND EPOLLOUT = 0" "EPOLLIN AND EPOLLOUT = 0" "EPOLLIN AND EPOLLIN \<noteq> 0"
    by (simp_all add: epoll_consts)
  have typed: "loop_typed (lp_sock demo_listening)"
    by (simp add: demo_listening_def loop_typed_def registration_ok_def demo_pool_queues tag aligned_ptr_def out)
  have "\<exists>L'. epoll_process_events (\<lambda>_. []) (-1) (Wait_events [demo_arrival]) demo_listening = Some (True, L')"
    by (simp add: epoll_process_events_def process_event_def demo_arrival_def demo_event_def demo_listening_def tag out
        call_handler_def Let_def new_conn_def split: prod.split)
  then obtain L' where L': "epoll_process_events (\<lambda>_. []) (-1) (Wait_events [demo_arrival]) demo_listening = Some (True, L')" ..
  have "reported demo_arrival (lp_sock demo_listening)"
    unfolding reported_def by (rule exI [of _ 5]) (auto simp: demo_arrival_def demo_event_def demo_listening_def out)
  moreover have "alloc_ok demo_arrival (lp_sock demo_listening)"
    by (simp add: alloc_ok_def demo_arrival_def demo_event_def demo_accept_def demo_listening_def demo_pool_queues aligned_ptr_def)
  ultimately have "loop_contract (\<lambda>_. []) [demo_arrival] demo_listening"
    by (simp split: option.split)
  from dispatch_well_typed [OF typed this L'] L' show ?thesis by blast
qed

end
