(* ===== verification/Mgx_Co_Test.thy ===== *)
theory Mgx_Co_Test
  imports Mgx_Cosocket
begin

text \<open>
  The programs below \<^verbatim>\<open>src/test/\<close>, which drive the coroutine library: five coroutines that sleep in turn
  (\<^verbatim>\<open>coroutine/co_test.cpp\<close>), an echo server with one coroutine per client
  (\<^verbatim>\<open>cosocket/server/cosocket_server_test.cpp\<close>), and its client (\<^verbatim>\<open>cosocket/client/cosocket_client_test.cpp\<close>).
\<close>

section \<open>The reader of the echo server\<close>

text \<open>
  One round of \<open>server_reader\<close>: the results of the \<open>recv\<close> calls, the bytes that the last one stored,
  and the results of the \<open>send\<close> calls.
\<close>

record echo_io =
  ec_recv :: "sys_ret list"
  ec_data :: bytes
  ec_send :: "sys_ret list"

definition echo_buf :: "bytes \<Rightarrow> bytes" where
  "echo_buf bs = bs @ replicate (1024 - length bs) 0"

text \<open>
  The waits of the coroutine, the buffers it passes to \<open>send\<close>, and the close when it has left the loop;
  \<open>None\<close> when the system calls of a round end with a wait.
\<close>

fun server_reader :: "int \<Rightarrow> echo_io list \<Rightarrow> (co_wait list \<times> bytes list \<times> co_act option) option" where
  "server_reader fd [] = Some ([], [], None)"
| "server_reader fd (io # ios) =
     (case co_recv fd (ec_recv io) of
        None \<Rightarrow> None
      | Some (ws, ret) \<Rightarrow>
          if ret > 0
          then (case co_send fd (ec_send io) of
                  None \<Rightarrow> None
                | Some (ws', _) \<Rightarrow> map_option (\<lambda>(w, out, c). (ws @ ws' @ w, echo_buf (ec_data io) # out, c))
                                    (server_reader fd ios))
          else if ret = 0 then Some (ws, [], Some (Co_close fd))
          else map_option (\<lambda>(w, out, c). (ws @ w, out, c)) (server_reader fd ios))"

text \<open>A round in which data arrives and the echo is taken.\<close>

definition echo_round :: "echo_io \<Rightarrow> bool" where
  "echo_round io \<longleftrightarrow> ec_data io \<noteq> [] \<and> length (ec_data io) \<le> 1024 \<and>
     (\<exists>rs. list_all recv_again rs \<and> (\<exists>err. ec_recv io = rs @ [(int (length (ec_data io)), err)])) \<and>
     (\<exists>rs r. list_all send_again rs \<and> \<not> send_again r \<and> ec_send io = rs @ [r])"

lemma echo_round_calls:
  assumes "echo_round io"
  obtains ws ws' n where "co_recv fd (ec_recv io) = Some (ws, int (length (ec_data io)))"
    "co_send fd (ec_send io) = Some (ws', n)" "set ws \<subseteq> {W_fd fd EPOLLIN}" "set ws' \<subseteq> {W_fd fd EPOLLOUT}"
proof -
  from assms obtain rs err where r: "list_all recv_again rs" "ec_recv io = rs @ [(int (length (ec_data io)), err)]"
    unfolding echo_round_def by blast
  from assms obtain ss v where s: "list_all send_again ss" "\<not> send_again v" "ec_send io = ss @ [v]"
    unfolding echo_round_def by blast
  have "\<not> recv_again (int (length (ec_data io)), err)" by (simp add: recv_again_def)
  from recv_call.call_returns [OF r(1) this, of fd "[]"] r(2)
  have "co_recv fd (ec_recv io) = Some (replicate (length rs) (W_fd fd EPOLLIN), int (length (ec_data io)))" by simp
  moreover from send_call.call_returns [OF s(1,2), of fd "[]"] s(3)
  have "co_send fd (ec_send io) = Some (replicate (length ss) (W_fd fd EPOLLOUT), fst v)" by simp
  ultimately show thesis using that [of _ _ "fst v"] by force
qed

text \<open>
  Messages until the end of the stream: each is sent back, and the descriptor is closed. What is sent
  is the whole buffer of 1024 bytes, the message and zeros, not the bytes that were received.
\<close>

lemma server_reader_echoes:
  assumes "list_all echo_round ios" and "co_recv fd (ec_recv eof) = Some (ws, 0)"
  shows "\<exists>w. server_reader fd (ios @ [eof]) = Some (w, map (echo_buf \<circ> ec_data) ios, Some (Co_close fd)) \<and>
    (\<forall>x \<in> set w. x \<in> set ws \<union> {W_fd fd EPOLLIN, W_fd fd EPOLLOUT})"
  using assms
proof (induction ios)
  case Nil
  then show ?case by simp
next
  case (Cons io ios)
  then obtain w where w: "server_reader fd (ios @ [eof]) = Some (w, map (echo_buf \<circ> ec_data) ios, Some (Co_close fd))"
    "\<forall>x \<in> set w. x \<in> set ws \<union> {W_fd fd EPOLLIN, W_fd fd EPOLLOUT}" by auto
  have "echo_round io" "0 < length (ec_data io)" using Cons.prems by (auto simp: echo_round_def)
  then show ?case
    using w by (elim echo_round_calls [of io fd]) auto
qed

lemma echo_longer_than_message:
  "length bs \<le> 1024 \<Longrightarrow> length (echo_buf bs) = 1024 \<and> take (length bs) (echo_buf bs) = bs"
  by (simp add: echo_buf_def)

text \<open>
  After an error of \<open>recv\<close> other than "would block", the loop calls it again at once: as long as the
  error lasts, the coroutine makes no switch, sends nothing and never closes the descriptor.
\<close>

lemma server_reader_spins:
  "ret < 0 \<Longrightarrow> err \<noteq> EAGAIN \<Longrightarrow>
   server_reader fd (replicate n \<lparr> ec_recv = [(ret, err)], ec_data = [], ec_send = [] \<rparr>) = Some ([], [], None)"
  by (induction n) auto

section \<open>The acceptor of the echo server\<close>

text \<open>
  One round: the results of \<open>accept\<close> and of the option calls, and the address of the coroutine that is
  made for the client. The descriptor is asserted to be positive.
\<close>

record srv_io =
  sv_accept :: "sys_ret list"
  sv_opts :: "int \<times> int \<times> int"
  sv_co :: co_ptr

datatype srv_ev = Srv_wait co_wait | Srv_spawn int co_ptr

fun server :: "mgx_cosocket \<Rightarrow> nat \<Rightarrow> srv_io list \<Rightarrow> co_err + (srv_ev list \<times> nat)" where
  "server k conn_cnt [] = Inr ([], conn_cnt)"
| "server k conn_cnt (io # ios) =
     (case sv_opts io of (setfl, port, addr) \<Rightarrow>
        (case co_accept setfl port addr (sv_accept io) k of
           None \<Rightarrow> Inr ([], conn_cnt)
         | Some (ws, fd, closes) \<Rightarrow>
             if fd > 0
             then ebind (server k (if Suc conn_cnt = 1000 then 0 else Suc conn_cnt) ios)
                    (\<lambda>(evs, cnt). Inr (map Srv_wait ws @ Srv_spawn fd (sv_co io) # evs, cnt))
             else Inl Assert_failed))"

definition accept_round :: "srv_io \<Rightarrow> int \<Rightarrow> bool" where
  "accept_round io fd \<longleftrightarrow> fd > 0 \<and>
     (case sv_opts io of (setfl, port, addr) \<Rightarrow> setfl \<ge> 0 \<and> port \<ge> 0 \<and> addr \<ge> 0) \<and>
     (\<exists>rs err. list_all recv_again rs \<and> sv_accept io = rs @ [(fd, err)])"

lemma accept_round_call:
  assumes "accept_round io fd" and "sv_opts io = (setfl, port, addr)"
  shows "\<exists>n. co_accept setfl port addr (sv_accept io) k = Some (replicate n (W_fd (m_sockfd k) EPOLLIN), fd, [])"
proof -
  from assms obtain rs err where r: "list_all recv_again rs" "sv_accept io = rs @ [(fd, err)]" "fd > 0"
    "setfl \<ge> 0" "port \<ge> 0" "addr \<ge> 0"
    unfolding accept_round_def by auto
  have "\<not> recv_again (fd, err)" using r(3) by (simp add: recv_again_def)
  from accept_call.call_returns [OF r(1) this, of "m_sockfd k" "[]"] r show ?thesis
    by (auto simp: co_accept_def set_socket_opt_def)
qed

text \<open>Every client that is accepted gets a coroutine of its own, in order of arrival.\<close>

definition spawned :: "srv_ev list \<Rightarrow> (int \<times> co_ptr) list" where
  "spawned evs = List.map_filter (\<lambda>e. case e of Srv_spawn fd p \<Rightarrow> Some (fd, p) | Srv_wait _ \<Rightarrow> None) evs"

lemma spawned_simps [simp]:
  "spawned [] = []" "spawned (Srv_spawn fd p # evs) = (fd, p) # spawned evs"
  "spawned (Srv_wait w # evs) = spawned evs"
  by (simp_all add: spawned_def List.map_filter_simps)

lemma spawned_waits [simp]: "spawned (replicate n (Srv_wait w) @ evs) = spawned evs"
  by (induction n) simp_all

lemma server_spawns_per_client:
  assumes "list_all2 accept_round ios fds" and "cnt < 1000"
  shows "\<exists>evs. server k cnt ios = Inr (evs, (cnt + length ios) mod 1000) \<and>
    spawned evs = zip fds (map sv_co ios)"
  using assms
proof (induction ios arbitrary: fds cnt)
  case Nil
  then show ?case by simp
next
  case (Cons io ios)
  then obtain fd fds' where fds: "fds = fd # fds'" "accept_round io fd" "list_all2 accept_round ios fds'"
    by (auto simp: list_all2_Cons1)
  let ?cnt = "if Suc cnt = 1000 then 0 else Suc cnt"
  have "?cnt < 1000" using Cons.prems(2) by simp
  from Cons.IH [OF fds(3) this] obtain evs where
    evs: "server k ?cnt ios = Inr (evs, (?cnt + length ios) mod 1000)" "spawned evs = zip fds' (map sv_co ios)"
    by blast
  have "(?cnt + length ios) mod 1000 = (cnt + length (io # ios)) mod 1000"
    by (cases "Suc cnt = 1000") (simp_all add: mod_add_left_eq [of "Suc cnt" 1000 "length ios", symmetric])
  moreover obtain setfl port addr where o: "sv_opts io = (setfl, port, addr)" by (cases "sv_opts io")
  moreover have "fd > 0" using fds(2) by (simp add: accept_round_def)
  ultimately show ?case
    using accept_round_call [OF fds(2) o, of k] evs fds(1) by auto
qed

text \<open>The server takes descriptor 0 for a failure.\<close>

lemma server_rejects_zero:
  "setfl \<ge> 0 \<Longrightarrow> port \<ge> 0 \<Longrightarrow> addr \<ge> 0 \<Longrightarrow>
   server k cnt (\<lparr> sv_accept = [(0, err)], sv_opts = (setfl, port, addr), sv_co = p \<rparr> # ios) = Inl Assert_failed"
  by (simp add: co_accept_def set_socket_opt_def)

text \<open>
  \<open>main\<close> forks in every process until \<open>pow(2, i)\<close> reaches the number of processors, which is to give as
  many processes as there are processors.
\<close>

function fork_rounds :: "nat \<Rightarrow> nat \<Rightarrow> nat" where
  "fork_rounds nr_cpu i = (if 2 ^ i < nr_cpu then fork_rounds nr_cpu (Suc i) else i)"
  by pat_completeness auto
termination
proof (relation "measure (\<lambda>(n, i). n - 2 ^ i)")
  show "((n, Suc i), n, i) \<in> measure (\<lambda>(n, i). n - 2 ^ i)" if "2 ^ i < n" for n i :: nat
  proof -
    have "(2 :: nat) ^ i < 2 ^ Suc i" by simp
    with that show ?thesis unfolding in_measure by (simp only: split)
  qed
qed simp

declare fork_rounds.simps [simp del]

definition server_processes :: "nat \<Rightarrow> nat" where
  "server_processes nr_cpu = 2 ^ fork_rounds nr_cpu 0"

lemma fork_rounds_bounds:
  "(i = 0 \<or> 2 ^ (i - 1) < n) \<Longrightarrow> 0 < n \<Longrightarrow>
   n \<le> 2 ^ fork_rounds n i \<and> (fork_rounds n i = 0 \<or> 2 ^ (fork_rounds n i - 1) < n)"
proof (induction n i rule: fork_rounds.induct)
  case (1 n i)
  then show ?case by (cases "2 ^ i < n") (simp_all add: fork_rounds.simps [of n i])
qed

text \<open>There are at least as many processes as processors, and fewer than twice as many; for six processors, eight.\<close>

lemma server_processes_bounds:
  assumes "0 < n"
  shows "n \<le> server_processes n \<and> server_processes n < 2 * n"
  using fork_rounds_bounds [of 0 n] assms
  by (cases "fork_rounds n 0") (auto simp: server_processes_def)

lemma server_processes_six: "server_processes 6 = 8"
  by (simp add: server_processes_def fork_rounds.simps)

section \<open>The client\<close>

datatype client_err = Client_io io_err | Client_assert

definition hello :: bytes where
  "hello = map (\<lambda>ch. word_of_nat (of_char ch)) ''hello''"

text \<open>
  The results of the calls in order: \<open>socket\<close> with its option calls, \<open>connect\<close>, \<open>send\<close>. The result of
  \<open>Mgx_cosocket::socket\<close> is not looked at.
\<close>

definition client ::
  "int \<times> int \<times> int \<times> int \<Rightarrow> sys_ret \<Rightarrow> (int \<Rightarrow> bool \<Rightarrow> bool \<Rightarrow> int \<times> bool \<times> bool) \<Rightarrow> int \<Rightarrow> sys_ret list \<Rightarrow>
   client_err + (co_wait list \<times> bytes \<times> co_act) option" where
  "client opens r select so_error sends =
     (case opens of (fd, setfl, port, addr) \<Rightarrow>
        let k = snd (snd (co_socket fd setfl port addr \<lparr> m_sockfd = 0 \<rparr>))
        in case co_connect r select so_error 2000 k of
             Inl e \<Rightarrow> Inl (Client_io e)
           | Inr (ws, ret, _) \<Rightarrow>
               if ret \<noteq> 0 then Inl Client_assert
               else Inr (map_option (\<lambda>(ws', n). (ws @ ws', take (nat n) hello, co_close_self k)) (co_send_self sends k)))"

lemma client_sends_hello:
  assumes "0 \<le> fd" and "fd < 1024" and "select 0 False True = (1, False, True)"
    and "list_all send_again rs"
  shows "\<exists>ws. client (fd, setfl, port, addr) (-1, EINPROGRESS) select 0 (rs @ [(5, err)]) =
    Inr (Some (W_sleep 2000 # ws, hello, Co_close fd))"
proof -
  have s: "\<not> send_again (5, err)" by (simp add: send_again_def)
  have "sint (ucast (2000 :: u64) :: u32) = 2000" by simp
  then show ?thesis
    using assms(1-3) send_call.call_returns [OF assms(4) s, of fd "[]"]
    by (auto simp: client_def co_socket_def Let_def co_connect_def mgx_select_def FD_SETSIZE_def
        co_send_self_def co_close_self_def hello_def MGX_WRITE_def split: prod.splits)
qed

text \<open>
  The program makes 10240 of these coroutines, each with a descriptor of its own. \<open>connect\<close> with a
  timeout writes beyond the descriptor set as soon as a descriptor is 1024 or more.
\<close>

lemma client_overruns_fd_set:
  "fd \<ge> 1024 \<Longrightarrow> client (fd, setfl, port, addr) (-1, EINPROGRESS) select so sends = Inl (Client_io Fd_set_overrun)"
  by (auto simp: client_def co_socket_def Let_def co_connect_def mgx_select_def FD_SETSIZE_def split: prod.splits)

section \<open>Five coroutines that sleep\<close>

text \<open>\<open>func1\<close> to \<open>func5\<close>: each turn of the loop ends with a sleep of \<open>NUM\<close> seconds.\<close>

definition co_test_func :: "(co_ptr \<Rightarrow> int) \<Rightarrow> int \<Rightarrow> co_ptr option \<Rightarrow> co_seg" where
  "co_test_func num now p = ([], Sw_msleep now ((case p of None \<Rightarrow> 0 | Some p \<Rightarrow> num p) * 1000))"

definition co_test_start :: "co_ptr list \<Rightarrow> int \<Rightarrow> co_sys \<Rightarrow> co_err + co_sys" where
  "co_test_start ps junk s = run_acts (map (\<lambda>p. Co_new p True junk) ps) s"

text \<open>One turn of \<open>main\<close>: \<open>schedule\<close> resumes the first sleeper and the first ready coroutine.\<close>

definition next_sleeper :: "co_sys \<Rightarrow> co_ptr option" where
  "next_sleeper s = (case m_co_sleep_rbtree s of [] \<Rightarrow> None | e # m \<Rightarrow> Some (snd e))"

definition next_ready :: "co_sys \<Rightarrow> co_ptr option" where
  "next_ready s = (case m_co_ready_list s of [] \<Rightarrow> None | p # q \<Rightarrow> Some p)"

text \<open>The clock in \<open>schedule\<close> and in the two functions that are resumed, and the result of \<open>epoll_wait\<close>.\<close>

record co_test_io =
  ct_now :: int
  ct_sleeper_now :: int
  ct_ready_now :: int
  ct_wait :: "errno + (co_ptr \<times> u32 \<times> co_seg) list"

definition co_test_turn :: "(co_ptr \<Rightarrow> int) \<Rightarrow> co_test_io \<Rightarrow> co_sys \<Rightarrow> co_err + co_sys" where
  "co_test_turn num io s =
     ebind (sleep_phase (ct_now io) (co_test_func num (ct_sleeper_now io) (next_sleeper s)) s) (\<lambda>s1.
     ebind (ready_phase (co_test_func num (ct_ready_now io) (next_ready s1)) s1) (wait_phase (ct_wait io)))"

fun co_test_main :: "(co_ptr \<Rightarrow> int) \<Rightarrow> co_test_io list \<Rightarrow> co_sys \<Rightarrow> co_err + co_sys" where
  "co_test_main num [] s = Inr s"
| "co_test_main num (io # ios) s = ebind (co_test_turn num io s) (co_test_main num ios)"

text \<open>A turn is a call of \<open>schedule\<close> with the segments of these functions.\<close>

lemma co_test_turn_schedule:
  "\<exists>sg rg. co_test_turn num io s =
     schedule \<lparr> si_now = ct_now io, si_sleep_seg = sg, si_ready_seg = rg, si_wait = ct_wait io \<rparr> s"
proof -
  let ?sg = "co_test_func num (ct_sleeper_now io) (next_sleeper s)"
  let ?s1 = "case sleep_phase (ct_now io) ?sg s of Inl e \<Rightarrow> s | Inr s1 \<Rightarrow> s1"
  have "co_test_turn num io s = schedule \<lparr> si_now = ct_now io, si_sleep_seg = ?sg,
      si_ready_seg = co_test_func num (ct_ready_now io) (next_ready ?s1), si_wait = ct_wait io \<rparr> s"
    by (cases "sleep_phase (ct_now io) ?sg s") (simp_all add: co_test_turn_def schedule_def)
  then show ?thesis by blast
qed

text \<open>All the coroutines are there, ready or asleep, and nobody waits for a descriptor.\<close>

definition co_test_ok :: "co_ptr list \<Rightarrow> co_sys \<Rightarrow> bool" where
  "co_test_ok ps s \<longleftrightarrow> co_wf None s \<and> dom (co_objs s) = set ps \<and>
     (\<forall>p k. co_objs s p = Some k \<longrightarrow> co_status k = READY \<or> co_status k = SLEEPING) \<and> co_interest s = []"

lemma resume_to_sleep:
  assumes "co_test_ok ps s" and "resumable p s" and "rl = removeAll p (m_co_ready_list s)"
  shows "\<exists>s'. resume_or_delete ([], Sw_msleep now ms) p (s\<lparr> m_co_ready_list := rl \<rparr>) = Inr s' \<and> co_test_ok ps s'"
proof -
  have wf: "co_wf None s" using assms(1) by (simp add: co_test_ok_def)
  obtain k where k: "co_objs s p = Some k" "co_status k = READY \<or> co_status k = SLEEPING"
    "co_status k = SLEEPING \<Longrightarrow> \<exists>t m. m_co_sleep_rbtree s = (t, p) # m"
    using assms(1,2) by (auto simp: resumable_def co_test_ok_def)
  have "(co_status k = READY \<longrightarrow> co_ctx k \<in> {At_exec, After_yield}) \<and> (co_status k = SLEEPING \<longrightarrow> co_ctx k = After_msleep)"
    using wf k(1) unfolding co_wf_def by blast
  with k(2) have ctx: "co_ctx k \<in> {At_exec, After_yield, After_msleep}"
    "co_ctx k = After_msleep \<Longrightarrow> co_status k = SLEEPING" by auto
  obtain s' where s': "resume_or_delete ([], Sw_msleep now ms) p (s\<lparr> m_co_ready_list := rl \<rparr>) = Inr s'"
    "co_objs s' = (co_objs s)(p \<mapsto> k\<lparr> co_status := SLEEPING, co_ctx := After_msleep \<rparr>)" "co_interest s' = []"
    using ctx k assms(1)
    by (auto simp: resume_or_delete_unfold co_op_defs co_test_ok_def)
  have "holds_or Assert_failed (co_wf None) (Inr s')"
    using co_wf_resume [OF wf assms(2) _ assms(3), of "([], Sw_msleep now ms)"] s'(1) by (simp add: seg_fresh_def)
  moreover have "dom (co_objs s') = set ps"
    using assms(1) k(1) by (auto simp: s'(2) co_test_ok_def)
  ultimately have "co_test_ok ps s'"
    using assms(1) s' by (auto simp: co_test_ok_def)
  with s'(1) show ?thesis by blast
qed

lemma co_test_sleep_phase:
  assumes "co_test_ok ps s"
  shows "\<exists>s'. sleep_phase now (co_test_func num t p) s = Inr s' \<and> co_test_ok ps s'"
proof (cases "m_co_sleep_rbtree s")
  case Nil
  with assms show ?thesis by (simp add: sleep_phase_def)
next
  case (Cons e m)
  obtain d q where e: "e = (d, q)" by (cases e)
  have wf: "co_wf None s" using assms by (simp add: co_test_ok_def)
  have "q \<in> snd ` set (m_co_sleep_rbtree s)" by (simp add: Cons e)
  then obtain k where k: "co_objs s q = Some k" "co_status k = SLEEPING"
    using co_wf_sleep [OF wf] by blast
  then have "resumable q s" using Cons e by (simp add: resumable_def)
  moreover have "removeAll q (m_co_ready_list s) = m_co_ready_list s"
    by (rule not_ready_removeAll [OF wf k(1)]) (simp add: k(2))
  ultimately show ?thesis
    using resume_to_sleep [OF assms _ refl, of q] assms Cons e by (auto simp: sleep_phase_def co_test_func_def)
qed

lemma co_test_ready_phase:
  assumes "co_test_ok ps s"
  shows "\<exists>s'. ready_phase (co_test_func num t p) s = Inr s' \<and> co_test_ok ps s'"
proof (cases "m_co_ready_list s")
  case Nil
  with assms show ?thesis by (simp add: ready_phase_def)
next
  case (Cons q qs)
  have wf: "co_wf None s" using assms by (simp add: co_test_ok_def)
  have "q \<in> set (m_co_ready_list s)" by (simp add: Cons)
  then obtain k where k: "co_objs s q = Some k" "co_status k = READY"
    using co_wf_ready [OF wf] by blast
  then have "resumable q s" by (simp add: resumable_def)
  moreover have "removeAll q (m_co_ready_list s) = qs"
    using wf Cons by (simp add: co_wf_def)
  ultimately show ?thesis
    using resume_to_sleep [OF assms _ refl, of q] Cons by (auto simp: ready_phase_def co_test_func_def)
qed

text \<open>
  The program runs for ever: in whatever way the clock goes, as long as \<open>epoll_wait\<close> reports no event
  (nothing is registered) or is interrupted, no assertion fails and no coroutine is lost.
\<close>

lemma co_test_runs:
  assumes "co_test_ok ps s" and "\<forall>io \<in> set ios. ct_wait io = Inr [] \<or> ct_wait io = Inl EINTR"
  shows "\<exists>s'. co_test_main num ios s = Inr s' \<and> co_test_ok ps s'"
  using assms
proof (induction ios arbitrary: s)
  case Nil
  then show ?case by simp
next
  case (Cons io ios)
  obtain s1 where s1: "sleep_phase (ct_now io) (co_test_func num (ct_sleeper_now io) (next_sleeper s)) s = Inr s1"
    "co_test_ok ps s1" using co_test_sleep_phase [OF Cons.prems(1)] by blast
  obtain s2 where s2: "ready_phase (co_test_func num (ct_ready_now io) (next_ready s1)) s1 = Inr s2" "co_test_ok ps s2"
    using co_test_ready_phase [OF s1(2)] by blast
  have "co_test_turn num io s = Inr s2"
    using Cons.prems(2) s1(1) s2(1) by (auto simp: co_test_turn_def wait_phase_def)
  with Cons.IH [OF s2(2)] Cons.prems(2) show ?case by simp
qed

lemma co_test_start_ok:
  assumes "new_scheduler fd = Inr s0" and "distinct ps"
  shows "\<exists>s. co_test_start ps junk s0 = Inr s \<and> co_test_ok ps s \<and> m_co_ready_list s = ps"
proof -
  have "\<exists>s'. run_acts (map (\<lambda>p. Co_new p True junk) ps) s = Inr s' \<and> co_test_ok (qs @ ps) s' \<and>
      m_co_ready_list s' = m_co_ready_list s @ ps" if "co_test_ok qs s" "distinct (qs @ ps)" for qs s
    using that
  proof (induction ps arbitrary: qs s)
    case Nil
    then show ?case by simp
  next
    case (Cons p ps)
    have new: "co_objs s p = None" using Cons.prems by (auto simp: co_test_ok_def)
    define k where "k = \<lparr> co_id = word_of_int (co_cnt s + 1), co_status = READY, co_wait_fd = junk, co_ctx = At_exec \<rparr>"
    obtain s1 where s1: "new_coroutine p True junk s = Inr s1" "m_co_ready_list s1 = m_co_ready_list s @ [p]"
      "co_interest s1 = co_interest s" "co_objs s1 = (co_objs s)(p \<mapsto> k)"
      by (simp add: new_coroutine_def push_back_ready_list_def k_def)
    have "co_wf None s1"
      using co_wf_new_coroutine [of None s p True junk] Cons.prems(1) new s1(1) by (simp add: co_test_ok_def)
    then have "co_test_ok (qs @ [p]) s1"
      using Cons.prems(1) s1 by (auto simp: co_test_ok_def k_def)
    from Cons.IH [OF this] Cons.prems(2) s1 show ?case by simp
  qed
  from this [of "[]" s0] assms show ?thesis
    by (auto simp: co_test_start_def new_scheduler_def co_test_ok_def co_wf_def split: if_splits)
qed

end
