(* ===== verification/Spec2Isabelle.thy ===== *)
theory Spec2Isabelle
  imports Mgx_Serve Mgx_Heartbeat Mgx_Event Mgx_Log Mgx_Http Mgx_Context Mgx_Cosocket
    Mgx_Process Mgx_Redis Mgx_Mutex Mgx_Sleep Mgx_Shipped Mgx_Dispatch
    Mgx_Co_Test
begin

text \<open>
  MGX is a small TCP application server. A master process forks worker processes; every worker
  runs one event loop on \<open>epoll\<close>, a pool of message threads, a send thread, a heartbeat thread and
  a thread that recovers closed connections. This development models a worker: how a client's
  bytes become packages, how packages are queued, checked, handled and answered, and how the
  connection objects behind all of this are handed out and taken back. The HTTP variant of the
  worker with its database queries, the configuration file, the log and its formatter, the master
  process with its signals and titles, and the coroutine library are modelled as well.

  \<^bold>\<open>How the parts work together.\<close> The event loop (\<^verbatim>\<open>net/mgx_socket.cpp\<close>) waits for events whose
  data is a connection pointer tagged with an instance bit. A listening socket's event runs
  \<open>event_accept\<close>, which takes an object from the connection pool, registers it and arms its
  heartbeat timer. A readable connection runs the receive automaton, which collects a header, then
  a body, and passes the complete message to the thread pool. A pool thread checks the checksum,
  the sequence number and the package type and calls a handler, which appends a reply to the send
  list. The send thread sends the list; what the kernel does not take is left to the write handler
  of the connection. The heartbeat thread parks silent connections, and the recovery thread puts
  parked connections back into the pool. A sequence number per connection, increased on every
  change of owner, protects all of these against messages that outlive their connection.

  \<^bold>\<open>Theories and sources\<close> (paths below \<^verbatim>\<open>src/\<close>).
  \<^item> \<open>Mgx_Prelude\<close>: machine types, little-endian encodings, shared lemmas, rewrite collections.
  \<^item> \<open>Mgx_Crc32\<close>: \<^verbatim>\<open>misc/mgx_crc32.cpp\<close>. \<open>get_crc32\<close> on the table built by \<open>init_crc32_table\<close>
    equals the bit-serial shift register (C1), and every error burst of at most 32 bits changes
    the checksum (C2); the locale \<open>burst_checksum\<close> is what the package logic relies on.
  \<^item> \<open>Mgx_Socket_Data\<close>: \<^verbatim>\<open>include/mgx_comm.h\<close>, \<^verbatim>\<open>include/mgx_socket.h\<close>. Records for the wire header,
    the message header, a connection and the socket object.
  \<^item> \<open>Mgx_Conn\<close>: \<^verbatim>\<open>net/mgx_socket_conn.cpp\<close>. Pool operations and two step relations over them: any
    calls (\<open>pool_call\<close>), which keep the counters exact, and calls by the owner of the object (\<open>pool_step\<close>), which
    keep the whole pool invariant (C3); exclusive hand-out (C4), recognition of stale sequence numbers (C5), progress of
    the recovery thread (C6), and the double entry caused by closing a parked connection.
  \<^item> \<open>Mgx_Thread_Pool\<close>: \<^verbatim>\<open>misc/mgx_thread_pool.cpp\<close>. The interleaving of the event loop with any
    number of threads, with waits that signals interrupt: when a queue is popped that is empty (C8,
    \<open>interrupted_wait_pops_empty\<close>), each message handled exactly once and taken in
    order (C9), no message without a thread that will take it (C10), the blocked shutdown.
    The locale \<open>message_sink\<close> describes a queue that clients append to; the pool and the send list
    both provide it.
  \<^item> \<open>Mgx_Request\<close>: receiving side of \<^verbatim>\<open>net/mgx_socket_request.cpp\<close>. Reassembly refines the framing
    of the concatenated stream for every segmentation (C12); the other results of \<open>recv\<close> (C13).
  \<^item> \<open>Mgx_Epoll\<close>, \<open>Mgx_Send\<close>: \<open>epoll_oper_event\<close>, the send list, the send thread and the write handler
    of \<^verbatim>\<open>net/mgx_socket.cpp\<close> and \<^verbatim>\<open>net/mgx_socket_request.cpp\<close>. Order per connection (C14) and complete
    delivery (C15) up to the first stale message, partial sends, and two faults of the code (C16, C18).
  \<^item> \<open>Mgx_Logic\<close>: \<^verbatim>\<open>bussiness/mgx_logic_socket.cpp\<close>. Damaged packages are discarded (C19). Dispatch of a
    frame makes no bad access but one, the debug line of a request whose body is missing or not
    terminated, and C20 says exactly when; the reply to a registration is oversized.
  \<^item> \<open>Mgx_Multimap\<close>, \<open>Mgx_Timer\<close>, \<open>Mgx_Heartbeat\<close>: \<open>std::multimap\<close> and \<^verbatim>\<open>net/mgx_socket_time.cpp\<close>. The
    drain of due timers returns and loses nothing (C24), a turn of the monitor parks exactly the
    silent connections (C25); timers of closed connections stay. The locale \<open>timer_container\<close>
    is the contract of the multimap.
  \<^item> \<open>Mgx_Printf\<close>, \<open>Mgx_Log\<close>, \<open>Mgx_Log_Init\<close>: \<^verbatim>\<open>app/mgx_printf.cpp\<close>, \<^verbatim>\<open>app/mgx_log.cpp\<close>. No store outside the
    output area for any format (C27), exact digits (C28), where a log line goes, for every level,
    mode and result of the write (C29); the
    directories and the file of the day, and the descriptor that is opened or kept.
  \<^item> \<open>Mgx_Conf\<close>: \<^verbatim>\<open>app/mgx_conf.cpp\<close> with \<open>strim\<close>; settings are read back as written (C31).
  \<^item> \<open>Mgx_Event\<close>: configuration, listening sockets, \<open>epoll_init\<close>, \<open>event_accept\<close>
    (\<^verbatim>\<open>net/mgx_socket_accept.cpp\<close>) and event dispatch. What accept sets up (C32), events of finished
    connections after any steps of the program, up to the one-bit instance (C33).
  \<^item> \<open>Mgx_Dispatch\<close>: the callbacks of the event loop. A typing of what is registered with \<open>epoll\<close>, which
    start-up establishes and the event loop (C17) and the send thread keep; no empty callback is called.
  \<^item> \<open>Mgx_Io\<close>: \<^verbatim>\<open>misc/mgx_io.cpp\<close>, \<^verbatim>\<open>misc/mgx_file.cpp\<close>. Files are assembled exactly from short and
    interrupted reads (C26).
  \<^item> \<open>Mgx_Mysql\<close>, \<open>Mgx_Redis\<close>: \<^verbatim>\<open>misc/mgx_mysql.cpp\<close>, \<^verbatim>\<open>misc/mgx_redis.cpp\<close> and their headers. The client
    libraries are parameters; the lemmas give the result of a query and of the printing of a table,
    and the faults after failed connections and statements.
  \<^item> \<open>Mgx_Http\<close>: \<^verbatim>\<open>http/mgx_http_socket.cpp\<close>. Requests are parsed exactly, if the byte
    that the code reads behind its peek buffer is zero, and are lost if it is not (C34); the
    answer is the content of a file read in any pieces, the error page or the body of the request
    (\<open>answer_to\<close>), after the query of the database; requests in two
    pieces are lost, and a connection beyond the pool has no database object.
  \<^item> \<open>Mgx_Shipped\<close>: \<^verbatim>\<open>mgx.conf\<close> as the program reads it, and the ports a worker binds with it.
  \<^item> \<open>Mgx_Mutex\<close>: \<^verbatim>\<open>misc/mgx_mutex.cpp\<close>. Threads that run single actions under the scope guard refine
    threads that run whole sections (C11, by the locale \<open>forward_simulation\<close> of the prelude, which extends to \<open>step_invariant\<close>, the
    locale behind C3, C8, C9 and C10); the temporary guards of
    the package handlers protect nothing.
  \<^item> \<open>Mgx_Proctitle\<close>: \<^verbatim>\<open>app/mgx_setproctitle.cpp\<close>. Titles stay inside the memory of the arguments and
    the environment, and the moved environment is kept (C22).
  \<^item> \<open>Mgx_Process\<close>: \<^verbatim>\<open>process/\<close>, \<^verbatim>\<open>signal/\<close> and \<^verbatim>\<open>app/mgx.cpp\<close>. Start-up, the start of workers, signals and the
    turns of the master, which replaces one worker however many have exited (C21).
  \<^item> \<open>Mgx_Thread\<close>: \<^verbatim>\<open>misc/mgx_thread.cpp\<close>, \<^verbatim>\<open>misc/mgx_util.cpp\<close>. The thread object and the text of a backtrace.
  \<^item> \<open>Mgx_Context\<close>: the register switch of \<^verbatim>\<open>misc/mgx_coroutine.cpp\<close> as instruction sequences of both
    processors. Leaving a context and returning to it restores every saved register (C38).
  \<^item> \<open>Mgx_Coroutine\<close>: \<^verbatim>\<open>misc/mgx_coroutine.cpp\<close>, \<^verbatim>\<open>misc/mgx_coroutine_scheduler.cpp\<close>. The invariant of the
    scheduler (C39), ready coroutines are resumed in order (C40), a coroutine whose descriptor
    reports an error is lost (C30).
  \<^item> \<open>Mgx_Sleep\<close>: the same scheduler, with respect to time. A sleeping coroutine is not resumed before its
    deadline, and after it within as many calls as there are sleepers before it (C7).
  \<^item> \<open>Mgx_Cosocket\<close>: \<^verbatim>\<open>misc/mgx_cosocket.cpp\<close>. The calls wait once for each result that says so (C37),
    by the locale \<open>blocking_call\<close> that three of them provide.
  \<^item> \<open>Mgx_Co_Test\<close>: the programs below \<^verbatim>\<open>test/\<close>. The echo server answers every message and serves every
    client by a coroutine of its own; the five sleeping coroutines run for ever.
  \<^item> \<open>Mgx_Serve\<close>: what the package protocol promises to a client (\<open>reply_of\<close>), the handling of a queue of
    frames, the ownership of message buffers, and what each stage leaves to the others.
  \<^item> This theory: the path of packages of any number of clients from the bytes received to the
    replies sent, with the messages handled in any order (C23), of a silent client to a closed
    descriptor and a free connection (C35), and of an HTTP request from its text to the text of the
    answer (C36).

  \<^bold>\<open>Conventions.\<close> State is passed explicitly: the class \<open>Mgx_socket\<close> is the record \<open>mgx_socket\<close>, its
  connection objects and message buffers are stores indexed by address. Everything the kernel, the
  clock or the allocator decides is an argument: results of system calls, addresses of new objects,
  contents of fresh memory. What the code relies on about them (a fresh address, \<open>recv\<close> returning at
  most what was asked for) is a hypothesis of the theorem that needs it, and every such theorem is
  followed by a witness on concrete values. An operation that the code runs under a lock is one
  step, which C11 justifies. Undefined behaviour adds a \<open>fault\<close> to the state, or it
  is an error value in the formatter and the HTTP parser, so absence of faults is a statement about
  the code. Where the model goes on after a bad read (the peek buffer of the HTTP head), the fault is
  recorded and the byte that is read is an argument.

  \<^bold>\<open>Loops.\<close> Structural recursion is used wherever the loop consumes a list or counts down; \<open>must_read\<close>,
  \<open>strtok_all\<close>, \<open>getlines\<close> and the formatter have termination proofs. The two loops that may not end, the
  drain of due timers and the scan of the recovery thread, are \<open>partial_function (option)\<close>, and C6, C24
  and C25 prove that they return. A loop that depends on the results of successive system calls
  takes them as a list and is \<open>None\<close> when it has used them all; C26 and C37 say for which results it
  returns. The unbounded loops of the threads, the master and the scheduler are modelled by one
  turn, or by a step relation. There is no fuel in the development.

  \<^bold>\<open>Not modelled.\<close> Of the coroutine library, what a coroutine does between two switches is a
  parameter. \<^verbatim>\<open>mysql/\<close> holds the headers of a third-party client library. The build demo
  below \<^verbatim>\<open>mgx_test/\<close> only prints its arguments.
\<close>

section \<open>From the bytes of requests to the bytes of the replies\<close>



section \<open>From silence to a free connection\<close>

text \<open>
  The connections that a turn of the monitor at time \<open>t\<close> finds silent: none, unless the earliest
  timer is over.
\<close>

definition gone_silent :: "int \<Rightarrow> mgx_socket \<Rightarrow> conn_ptr set" where
  "gone_silent t s = (if m_timer_queue s \<noteq> [] \<and> m_timer_que_head_time s < t
     then (\<lambda>e. mh_pconn (snd e)) ` {e \<in> set (m_timer_queue s). fst e \<le> t \<and> silent t (snd e) s} else {})"

text \<open>A timer never carries the number its connection gets next, and a current one belongs to a connection in use.\<close>

definition timers_valid :: "int \<Rightarrow> mgx_socket \<Rightarrow> bool" where
  "timers_valid t s \<longleftrightarrow> (\<forall>e \<in> set (m_timer_queue s). not_ahead (snd e) s \<and>
     (silent t (snd e) s \<longrightarrow> conn_status s (mh_pconn (snd e)) = In_use))"

lemma monitor_round_parks:
  assumes "timer_inv s" and "0 < m_heart_wait_time s" and "timers_valid t s"
  shows "\<exists>s1 s2 cs. monitor_timer_round t clock s = Some s2 \<and> conns s1 = conns s \<and> pool_view s1 = pool_view s \<and>
    parks s1 s2 \<and> m_recy_conn_set s2 = m_recy_conn_set s \<union> gone_silent t s \<and> faults s2 = faults s \<and>
    distinct cs \<and> set cs = gone_silent t s \<and> fd_closes s2 = map (\<lambda>c. c_fd (conns s c)) cs @ fd_closes s"
proof (cases "m_timer_queue s \<noteq> [] \<and> m_timer_que_head_time s < t")
  case True
  have sorted: "mm_sorted (m_timer_queue s)" and size: "m_timer_que_size s > 0"
    using assms(1) True by (simp_all add: timer_inv_def)
  let ?hs = "map snd (due t (m_timer_queue s))"
  obtain s1 where s1: "drain_over_time t s = Some (?hs, s1)" "timer_inv s1"
      "conns s1 = conns s" "m_heart_wait_time s1 = m_heart_wait_time s" "faults s1 = faults s"
      "m_recy_conn_set s1 = m_recy_conn_set s" "pool_view s1 = pool_view s" "fd_closes s1 = fd_closes s"
    using drain_due [OF assms(1,2), of t] by metis
  note cong = silent_cong [OF s1(3,4)] conn_status_view [OF s1(7)]
  have valid: "\<forall>h \<in> set ?hs. not_ahead h s1 \<and> (silent t h s1 \<longrightarrow> conn_status s1 (mh_pconn h) = In_use)"
    using assms(3) by (auto simp: timers_valid_def set_due [OF sorted] cong not_ahead_def s1(3))
  then have "parks s1 (expire_all t clock 0 ?hs s1)"
    by (intro expire_all_parks [OF _ s1(2)]) auto
  moreover have gone: "mh_pconn ` {h \<in> set ?hs. silent t h s1} = gone_silent t s"
    using True by (auto simp: gone_silent_def set_due [OF sorted] cong)
  moreover from valid obtain cs where "distinct cs" "set cs = mh_pconn ` {h \<in> set ?hs. silent t h s1}"
    "fd_closes (expire_all t clock 0 ?hs s1) = map (\<lambda>c. c_fd (conns s1 c)) cs @ fd_closes s1"
    using expire_all_closes [OF s1(2), of ?hs "{}" t clock 0] by auto
  ultimately show ?thesis
    using expire_all_effect [OF s1(2), of t clock 0 ?hs] s1 size True
    by (intro exI [of _ s1] exI [of _ "expire_all t clock 0 ?hs s1"] exI [of _ cs])
      (simp add: monitor_timer_round_def)
next
  case False
  then have "monitor_timer_round t clock s = Some s"
    using assms(1) by (auto simp: monitor_timer_round_def timer_inv_def)
  with False show ?thesis
    by (intro exI [of _ s] exI [of _ "[]"]) (auto simp: gone_silent_def)
qed

text \<open>
  C35: a client that has fallen silent loses its connection, and nobody else does. After one turn
  of the heartbeat monitor and one round of the recovery thread, exactly the connections that the
  monitor found silent (none, if no timer is over) and those that were already waiting for recovery
  are free again. The descriptor of each silent connection has been closed, once, and no other
  descriptor; the sequence numbers have been increased once per change of owner, so every
  message that still carries the old number is stale. All other connections have kept their state,
  the pool invariant is kept, and the monitor's turn makes no bad access. Both loops return,
  provided the clock goes on. The timers are as the program sets them: none carries the next number of its
  connection, and a current one belongs to a connection in use.
\<close>

theorem silent_clients_reclaimed:
  assumes "timer_inv s" and "pool_inv s" and "0 < m_heart_wait_time s" and "timers_valid t s"
    and "\<And>k x. \<exists>m \<ge> k. x \<le> recy_clock m"
    and "distinct order" and "set order = m_recy_conn_set s \<union> gone_silent t s"
  shows "\<exists>s1 j s2 cs. monitor_timer_round t clock s = Some s1 \<and>
    recy_conn_th_round recy_clock k order s1 = Some (j, s2) \<and> pool_inv s2 \<and>
    m_pconns_free_queue s2 = m_pconns_free_queue s @ order \<and>
    (\<forall>c. conn_status s2 c = (if c \<in> set order then Free else conn_status s c)) \<and>
    distinct cs \<and> set cs = gone_silent t s \<and> fd_closes s2 = map (\<lambda>c. c_fd (conns s c)) cs @ fd_closes s \<and>
    (\<forall>c \<in> set order. c_fd (conns s2 c) = -1 \<and>
       m_cur_seq (conns s2 c) = m_cur_seq (conns s c) + (if conn_status s c = In_use then 2 else 1)) \<and>
    (\<forall>c. c \<notin> set order \<longrightarrow> conns s2 c = conns s c) \<and> faults s1 = faults s"
proof -
  obtain s0 s1 cs where m: "monitor_timer_round t clock s = Some s1" "conns s0 = conns s" "pool_view s0 = pool_view s"
    "parks s0 s1" "m_recy_conn_set s1 = set order" "faults s1 = faults s" "distinct cs" "set cs = gone_silent t s"
    "fd_closes s1 = map (\<lambda>c. c_fd (conns s c)) cs @ fd_closes s"
    using monitor_round_parks [OF assms(1,3,4), of clock] assms(7) by auto
  have view: "m_pconns_queue s0 = m_pconns_queue s" "m_pconns_free_queue s0 = m_pconns_free_queue s"
    "m_recy_conn_set s0 = m_recy_conn_set s"
    using m(3) by (simp_all add: pool_view_def)
  have "pool_inv s0" using assms(2) pool_inv_view [OF m(3)] by simp
  then have inv1: "pool_inv s1"
    using m(4) pool.run_inv by (auto simp: parks_def)
  obtain j s2 where r: "recy_conn_th_round recy_clock k order s1 = Some (j, s2)" "pool_inv s2" "m_recy_conn_set s2 = {}"
    "m_pconns_free_queue s2 = m_pconns_free_queue s1 @ order" "m_pconns_queue s2 = m_pconns_queue s1"
    "\<And>c. conns s2 c = (if c \<in> set order then released (conns s1 c) else conns s1 c)" "fd_closes s2 = fd_closes s1"
    using recy_round_all [OF assms(5) inv1 assms(6), of k] m(5) by metis
  have q1: "m_pconns_queue s1 = m_pconns_queue s" "m_pconns_free_queue s1 = m_pconns_free_queue s"
    using m(4) by (simp_all add: parks_def view)
  have sub: "set order \<subseteq> set (m_pconns_queue s)" "set order \<inter> set (m_pconns_free_queue s) = {}"
    using inv1 by (auto simp: pool_inv_def m(5) q1)
  have status: "conn_status s2 c = (if c \<in> set order then Free else conn_status s c)" for c
    using sub assms(7) by (auto simp: conn_status_def r(3-5) q1)
  have seq: "m_cur_seq (conns s1 c) = m_cur_seq (conns s c) + of_bool (c \<in> set order - m_recy_conn_set s)" for c
    using m(4) by (simp add: parks_def m(2,5) view)
  have "conn_status s c = (if c \<in> m_recy_conn_set s then In_recovery else In_use)" if "c \<in> set order" for c
    using that sub by (auto simp: conn_status_def)
  then have "c_fd (conns s2 c) = -1 \<and>
      m_cur_seq (conns s2 c) = m_cur_seq (conns s c) + (if conn_status s c = In_use then 2 else 1)"
    if "c \<in> set order" for c
    using that seq [of c] by (auto simp: r(6) released_def)
  moreover have "conns s2 c = conns s c" if "c \<notin> set order" for c
    using that m(2,4,5) by (simp add: r(6) parks_def)
  ultimately show ?thesis
    using m(1,6-9) r(1,2,4,7) q1(2) status by (intro exI [of _ s1] exI [of _ j] exI [of _ s2] exI [of _ cs]) simp
qed

text \<open>A connection accepted at time 5, whose timer is due at time 20 and whose client says nothing.\<close>

definition demo_silent :: mgx_socket where
  "demo_silent = (snd (get_conn 5 48 7 demo_pool))
     \<lparr> m_enabled_heartbeat := 1, m_heart_wait_time := 10, m_timer_queue := [(20, mk_msg_hdr 16 2)],
       m_timer_que_size := 1, m_timer_que_head_time := 20 \<rparr>"

lemma demo_silent_facts:
  "timer_inv demo_silent" "pool_inv demo_silent" "m_heart_wait_time demo_silent = 10"
  "m_timer_queue demo_silent = [(20, mk_msg_hdr 16 2)]" "m_timer_que_head_time demo_silent = 20"
  "conn_status demo_silent 16 = In_use" "m_recy_conn_set demo_silent = {}" "gone_silent 100 demo_silent = {16}"
  "timers_valid 100 demo_silent" "c_fd (conns demo_silent 16) = 7"
proof -
  have v: "pool_view demo_silent = pool_view (snd (get_conn 5 48 7 demo_pool))"
    by (simp add: demo_silent_def pool_view_def)
  show "timer_inv demo_silent" "m_heart_wait_time demo_silent = 10"
    "m_timer_queue demo_silent = [(20, mk_msg_hdr 16 2)]" "m_timer_que_head_time demo_silent = 20"
    by (simp_all add: demo_silent_def timer_inv_def)
  show "pool_inv demo_silent" "conn_status demo_silent 16 = In_use" "m_recy_conn_set demo_silent = {}"
    using demo_used pool_inv_view [OF v] conn_status_view [OF v] by (simp_all add: demo_silent_def)
  have seq: "m_cur_seq (conns demo_silent 16) = 2" "last_ping_time (conns demo_silent 16) = 5"
    by (simp_all add: demo_silent_def get_conn_def demo_pool_queues get_one_to_use_def upd_conn_def) (simp_all add: demo_pool_def conn_pool_init_def pool_add_def
      Mgx_socket_def new_conn_def get_one_to_use_def)
  then show "gone_silent 100 demo_silent = {16}"
    by (auto simp: gone_silent_def silent_def demo_silent_def mk_msg_hdr_def)
  show "timers_valid 100 demo_silent"
    using \<open>conn_status demo_silent 16 = In_use\<close> seq
    by (simp add: timers_valid_def not_ahead_def demo_silent_def mk_msg_hdr_def)
  show "c_fd (conns demo_silent 16) = 7"
    by (simp add: demo_silent_def get_conn_def demo_pool_queues)
qed

theorem silent_clients_reclaimed_witness:
  "\<exists>s1 j s2. monitor_timer_round 100 (\<lambda>_. 100) demo_silent = Some s1 \<and>
    recy_conn_th_round int 0 [16] s1 = Some (j, s2) \<and> conn_status s2 16 = Free \<and>
    fd_closes s2 = 7 # fd_closes demo_silent \<and>
    m_cur_seq (conns s2 16) = m_cur_seq (conns demo_silent 16) + 2"
proof -
  have "\<exists>m \<ge> k. x \<le> int m" for k :: nat and x :: int
    by (rule exI [of _ "max k (nat x)"]) auto
  moreover have "[16] = cs" if "distinct cs" "set cs = {16}" for cs :: "conn_ptr list"
    using that by (cases cs; cases "tl cs") auto
  ultimately show ?thesis
    using silent_clients_reclaimed [OF demo_silent_facts(1,2), of 100 int "[16]" "\<lambda>_. 100" 0]
    by (fastforce simp: demo_silent_facts)
qed

section \<open>From the text of an HTTP request to the text of the answer\<close>

text \<open>A message that is alone in the send list goes out in one round.\<close>

lemma send_single:
  assumes "m_send_list s = [r]" and "m_send_list_cnt s = 1" and "bufs s r = Some b"
    and "mh_pconn (buf_hdr b) = c" and "m_cur_seq (conns s c) = mh_cur_seq (buf_hdr b)"
    and "throw_send_cnt (conns s c) = 0" and "sendable uh b" and "payload uh b = data"
  shows "\<exists>y'. send_msg_th_round uh [Send_n (length data)] \<lparr> ss_sock = s, ss_wire = [] \<rparr> = Some ([], y') \<and>
    ss_wire y' = [(c, data)] \<and> m_send_list (ss_sock y') = [] \<and> bufs (ss_sock y') r = None \<and>
    faults (ss_sock y') = faults s"
proof -
  define y where "y = \<lparr> ss_sock = s, ss_wire = [] \<rparr>"
  have dest: "dest_of y r = c"
    using assms(3,4) by (simp add: y_def dest_of_def)
  have "send_queue_ok y"
    using assms dest by (simp add: send_queue_ok_def live_msg_def y_def)
  then have "\<exists>y'. send_msg_th_round uh [Send_n (length data)] y = Some ([], y') \<and>
      ss_wire y' = [(c, data)] \<and> m_send_list (ss_sock y') = [] \<and> bufs (ss_sock y') r = None \<and>
      faults (ss_sock y') = faults s"
    using send_round_full [of y "[r]" uh "\<lambda>_. data"] assms dest by (auto simp: y_def)
  then show ?thesis by (simp only: y_def)
qed

lemma reply_text_fits:
  assumes "length (reply_text order st mime content) < 2 ^ 32" and "st \<in> {status_200, status_404}"
    and "header_order order" and "NUL \<notin> set mime" and "NUL \<notin> set content"
  shows "sendable True \<lparr> buf_hdr = h,
    buf_data = bytes_of (response_text order (with_body st mime content)) @ [0] \<rparr>"
proof -
  let ?b = "\<lparr> buf_hdr = h, buf_data = bytes_of (response_text order (with_body st mime content)) @ [0] \<rparr>"
  have p: "payload True ?b = bytes_of (reply_text order st mime content)"
    by (rule reply_text_sent [OF assms(2-)])
  moreover have "reply_text order st mime content \<noteq> []"
    using assms(2) by (auto simp: reply_text_def status_200_eq status_404_eq)
  moreover have "send_size_of True ?b = word_of_nat (length (payload True ?b))"
    by (simp add: send_size_of_def payload_def)
  ultimately show ?thesis
    using assms(1) by (simp add: sendable_def bytes_of_def unat_word_of_nat_id)
qed

text \<open>The send thread sends the answer that the worker has written.\<close>

lemma http_reply_sent:
  assumes "m_send_list s = []" and "m_send_list_cnt s = 0" and "throw_send_cnt (conns s c) = 0"
    and "mh_pconn h = c" and "mh_cur_seq h = m_cur_seq (conns s c)" and "bufs s a = Some b" and "a' \<noteq> a"
    and "length (reply_text order st mime content) < 2 ^ 32" and "st \<in> {status_200, status_404}"
    and "header_order order" and "NUL \<notin> set mime" and "NUL \<notin> set content"
  shows "\<exists>y'. send_msg_th_round True [Send_n (length (reply_text order st mime content))]
      \<lparr> ss_sock = delete_buf a (http_write_response a' order (with_body st mime content) h s),
        ss_wire = [] \<rparr> = Some ([], y') \<and>
    ss_wire y' = [(c, bytes_of (reply_text order st mime content))] \<and> m_send_list (ss_sock y') = [] \<and>
    bufs (ss_sock y') a' = None \<and> faults (ss_sock y') = faults s"
proof -
  let ?b = "\<lparr> buf_hdr = h, buf_data = bytes_of (response_text order (with_body st mime content)) @ [0] \<rparr>"
  let ?s = "delete_buf a (http_write_response a' order (with_body st mime content) h s)"
  have s: "m_send_list ?s = [a']" "m_send_list_cnt ?s = 1" "bufs ?s a' = Some ?b" "conns ?s = conns s" "faults ?s = faults s"
    using assms(1,2,6,7) by (simp_all add: http_write_response_def send_msg_def new_buf_def delete_buf_def)
  show ?thesis
    using send_single [OF s(1-3), of c True, OF _ _ _ reply_text_fits [OF assms(8-)] reply_text_sent [OF assms(9-)]]
      assms(3-5) s(4,5) by simp
qed


definition demo_get_request :: request where
  "demo_get_request = \<lparr> rq_method = ''GET'', rq_uri = ''/a.txt'', rq_headers = [(''Host'', ''x'')], rq_body = [] \<rparr>"

lemma demo_get_request_ok: "request_ok demo_get_request"
  by (simp add: request_ok_def demo_get_request_def plain_text_def header_ok_def trimmed_def header_text_def
      starts_with_def RECV_BUF_SIZE_def CR_def LF_def NUL_def)

definition demo_http_worker :: worker where
  "demo_http_worker = \<lparr> wk_sock = Mgx_socket\<lparr> conns := (\<lambda>_. new_conn\<lparr> c_sql := True \<rparr>) \<rparr>, wk_pool = Mgx_th_pool \<rparr>"

definition demo_answer :: string where
  "demo_answer = ''HTTP/1.1 200 OK'' @ CRLF @ ''Content-Length: 5'' @ CRLF @ ''Content-Type: text/plain'' @ CRLF @
     ''Connection: keep-alive'' @ CRLF @ ''Server: Mgx http server'' @ CRLF @ CRLF @ ''hello''"

lemma demo_reply: "reply_text demo_order ''HTTP/1.1 200 OK'' ''text/plain'' ''hello'' = demo_answer"
proof -
  have "int_str 5 = ''5''" by code_simp
  then show ?thesis by (simp add: reply_text_def reply_headers_def demo_order_def demo_answer_def)
qed


end
